(* ===== verification/RJQ_Prelude.thy ===== *)
theory RJQ_Prelude
  imports Main "HOL-Library.Multiset" "HOL-Library.Product_Lexorder"
begin

text \<open>
  Shared vocabulary of the development: Go's error values, Go's 64-bit \<open>int\<close>, decimal
  printing, durations, and the generic facts on lists and association lists that the component
  theories use. Nothing here models a file of the program by itself.

  \<^item> \<open>error\<close>: an error value as the program builds it. \<open>Err\<close> is \<open>fmt.Errorf\<close> or
    \<open>errors.New\<close> without a wrapped error, \<open>Wrap\<close> is \<open>fmt.Errorf\<close> with \<open>%w\<close>, \<open>Driver\<close> is an
    error value handed over by the SQL driver (only its cause is named), and \<open>Panic\<close> is a run-time
    panic, which unwinds the goroutine instead of returning.
  \<^item> \<open>wrap64\<close>: two's complement reduction to Go's \<open>int\<close> on a 64-bit platform.
  \<^item> Durations and instants are integers in nanoseconds, as in package \<open>time\<close>.
\<close>

section \<open>Errors\<close>

datatype error = Err string | Wrap string error | Driver string | Panic string

type_synonym 'a result = "error + 'a"

fun is_panic :: "error \<Rightarrow> bool" where
  "is_panic (Panic _) = True"
| "is_panic _ = False"

named_theorems storage_defs \<open>definitions of the storage operations, for symbolic execution\<close>
named_theorems queue_defs \<open>definitions of the queue operations\<close>
named_theorems frame \<open>fields an operation does not touch\<close>

section \<open>Go integers and durations\<close>

definition wrap64 :: "int \<Rightarrow> int" where
  "wrap64 n = (n + 2 ^ 63) mod 2 ^ 64 - 2 ^ 63"

definition int64 :: "int \<Rightarrow> bool" where
  "int64 n \<longleftrightarrow> - (2 ^ 63) \<le> n \<and> n < 2 ^ 63"

definition int32 :: "int \<Rightarrow> bool" where
  "int32 n \<longleftrightarrow> - (2 ^ 31) \<le> n \<and> n < 2 ^ 31"

lemma int64_wrap64 [simp]: "int64 (wrap64 n)"
proof -
  have "0 \<le> (n + 2 ^ 63) mod 2 ^ 64" and "(n + 2 ^ 63) mod 2 ^ 64 < (2 :: int) ^ 64"
    by simp_all
  then show ?thesis
    by (simp add: int64_def wrap64_def)
qed

lemma wrap64_id [simp]: "int64 n \<Longrightarrow> wrap64 n = n"
  by (simp add: int64_def wrap64_def)

lemma wrap64_Suc: "int64 n \<Longrightarrow> n < m \<Longrightarrow> int64 m \<Longrightarrow> wrap64 (n + 1) = n + 1"
  by (rule wrap64_id) (simp add: int64_def)

lemma int32_int64: "int32 n \<Longrightarrow> int64 n"
  by (simp add: int32_def int64_def)

text \<open>Go's integer division truncates towards zero.\<close>

definition go_div :: "int \<Rightarrow> int \<Rightarrow> int" where
  "go_div a b = sgn a * sgn b * (\<bar>a\<bar> div \<bar>b\<bar>)"

definition Millisecond :: int where "Millisecond = 1000000"
definition Second :: int where "Second = 1000 * Millisecond"
definition Minute :: int where "Minute = 60 * Second"

lemmas duration_defs = Millisecond_def Second_def Minute_def

section \<open>Decimal printing (the verb \<open>%d\<close>)\<close>

definition digit :: "nat \<Rightarrow> char" where
  "digit n = char_of (48 + n)"

fun utoa :: "nat \<Rightarrow> string" where
  "utoa n = (if n < 10 then [digit n] else utoa (n div 10) @ [digit (n mod 10)])"

declare utoa.simps [simp del]

definition itoa :: "int \<Rightarrow> string" where
  "itoa n = (if n < 0 then CHR ''-'' # utoa (nat (- n)) else utoa (nat n))"

lemma utoa_nonempty [simp]: "utoa n \<noteq> []"
  by (subst utoa.simps) simp

lemma itoa_nonempty [simp]: "itoa n \<noteq> []"
  by (simp add: itoa_def)

section \<open>Lists\<close>

lemma find_Some_in: "find P xs = Some x \<Longrightarrow> x \<in> set xs \<and> P x"
  by (induction xs) (auto split: if_splits)

lemma find_None_iff_all: "find P xs = None \<longleftrightarrow> (\<forall>x \<in> set xs. \<not> P x)"
  by (induction xs) auto

lemma find_map_key:
  "(\<And>x. key (f x) = key x) \<Longrightarrow>
   find (\<lambda>x. key x = k) (map f xs) = map_option f (find (\<lambda>x. key x = k) xs)"
  by (induction xs) auto

lemma find_unique:
  "distinct (map key xs) \<Longrightarrow> x \<in> set xs \<Longrightarrow> find (\<lambda>y. key y = key x) xs = Some x"
  by (induction xs) (auto simp: image_iff)

lemma find_append:
  "find P (xs @ ys) = (case find P xs of None \<Rightarrow> find P ys | Some x \<Rightarrow> Some x)"
  by (induction xs) auto

lemma takeWhile_dropWhile_mset:
  "mset (takeWhile P xs) + mset (dropWhile P xs) = mset xs"
  by (metis mset_append takeWhile_dropWhile_id)

lemma mset_sort_key [simp]: "mset (sort_key f xs) = mset xs"
  by (rule mset_sort)

end
