(* ===== verification/Models.thy ===== *)
theory Models
  imports RJQ_Prelude
begin

text \<open>
  The shared data of the program: \<open>pkg/models/job.go\<close> and the payload values of
  \<open>map[string]interface{}\<close> with the two \<open>encoding/json\<close> calls the program makes on them.

  A Go string is a \<open>string\<close>; a Go map is an association list read with \<open>map_of\<close>; a nil map is
  \<open>None\<close>. An instant is its distance from the epoch in nanoseconds, and a \<open>*time.Time\<close> that may be
  nil is an \<open>int option\<close>.
\<close>

section \<open>Constants and the job record (pkg/models/job.go)\<close>

definition StatusPending :: string where "StatusPending = ''pending''"
definition StatusProcessing :: string where "StatusProcessing = ''processing''"
definition StatusCompleted :: string where "StatusCompleted = ''completed''"
definition StatusFailed :: string where "StatusFailed = ''failed''"

definition PriorityNormal :: int where "PriorityNormal = 1"
definition PriorityUrgent :: int where "PriorityUrgent = 2"
definition PrioritySuperUrgent :: int where "PrioritySuperUrgent = 3"

definition QueueTypeFIFO :: string where "QueueTypeFIFO = ''fifo''"
definition QueueTypePriority :: string where "QueueTypePriority = ''priority''"
definition QueueTypeRateLimited :: string where "QueueTypeRateLimited = ''rate-limited''"

lemmas status_defs = StatusPending_def StatusProcessing_def StatusCompleted_def StatusFailed_def
lemmas priority_defs = PriorityNormal_def PriorityUrgent_def PrioritySuperUrgent_def
lemmas queue_type_defs = QueueTypeFIFO_def QueueTypePriority_def QueueTypeRateLimited_def

text \<open>
  A value of type \<open>interface{}\<close> as \<open>encoding/json\<close> produces it: a finite \<open>float64\<close> is
  \<open>GNum m e\<close>, standing for \<open>m * 2 ^ e\<close>. \<open>GOpaque\<close> is any value that JSON cannot represent
  (a channel, a function, a NaN).
\<close>

datatype gval =
    GNull | GBool bool | GNum int int | GStr string
  | GArr "gval list" | GObj "(string \<times> gval) list" | GOpaque

type_synonym payload = "(string \<times> gval) list option"

record job =
  ID :: string
  JobType :: string
  Payload :: payload
  QueueType :: string
  Priority :: int
  Status :: string
  RetryCount :: int
  MaxRetries :: int
  CreatedAt :: int
  UpdatedAt :: int
  ProcessedAt :: "int option"
  ErrorMessage :: string

definition valid_status :: "string \<Rightarrow> bool" where
  "valid_status s \<longleftrightarrow> s = StatusPending \<or> s = StatusProcessing \<or> s = StatusCompleted \<or> s = StatusFailed"

definition terminal_status :: "string \<Rightarrow> bool" where
  "terminal_status s \<longleftrightarrow> s = StatusCompleted \<or> s = StatusFailed"

lemma status_distinct [simp]:
  "StatusPending \<noteq> StatusProcessing" "StatusProcessing \<noteq> StatusPending"
  "StatusPending \<noteq> StatusCompleted" "StatusCompleted \<noteq> StatusPending"
  "StatusPending \<noteq> StatusFailed" "StatusFailed \<noteq> StatusPending"
  "StatusProcessing \<noteq> StatusCompleted" "StatusCompleted \<noteq> StatusProcessing"
  "StatusProcessing \<noteq> StatusFailed" "StatusFailed \<noteq> StatusProcessing"
  "StatusCompleted \<noteq> StatusFailed" "StatusFailed \<noteq> StatusCompleted"
  by (simp_all add: status_defs)

lemma valid_status_consts [simp]:
  "valid_status StatusPending" "valid_status StatusProcessing"
  "valid_status StatusCompleted" "valid_status StatusFailed"
  by (simp_all add: valid_status_def)

lemma terminal_status_consts [simp]:
  "\<not> terminal_status StatusPending" "\<not> terminal_status StatusProcessing"
  "terminal_status StatusCompleted" "terminal_status StatusFailed"
  by (simp_all add: terminal_status_def)

lemma queue_type_distinct [simp]:
  "QueueTypeFIFO \<noteq> QueueTypePriority" "QueueTypePriority \<noteq> QueueTypeFIFO"
  "QueueTypeFIFO \<noteq> QueueTypeRateLimited" "QueueTypeRateLimited \<noteq> QueueTypeFIFO"
  "QueueTypePriority \<noteq> QueueTypeRateLimited" "QueueTypeRateLimited \<noteq> QueueTypePriority"
  by (simp_all add: queue_type_defs)

section \<open>JSON documents\<close>

text \<open>
  What a payload column can hold, up to the concrete syntax of JSON: nothing, bytes that are not a
  JSON document, or a document given by the value it denotes.
\<close>

datatype json_text = JEmpty | JBad | JDoc gval

fun jsonable :: "gval \<Rightarrow> bool" where
  "jsonable GOpaque = False"
| "jsonable (GArr vs) = (\<forall>v \<in> set vs. jsonable v)"
| "jsonable (GObj kvs) = (\<forall>kv \<in> set kvs. jsonable (snd kv))"
| "jsonable _ = True"

text \<open>\<open>json.Marshal\<close> on a value, and \<open>json.Unmarshal\<close> into a variable of map type that is nil.\<close>

definition json_Marshal :: "gval \<Rightarrow> json_text result" where
  "json_Marshal v = (if jsonable v then Inr (JDoc v) else Inl (Err ''json: unsupported type''))"

fun json_Unmarshal_map :: "json_text \<Rightarrow> payload result" where
  "json_Unmarshal_map JEmpty = Inl (Err ''unexpected end of JSON input'')"
| "json_Unmarshal_map JBad = Inl (Err ''invalid character'')"
| "json_Unmarshal_map (JDoc (GObj kvs)) = Inr (Some kvs)"
| "json_Unmarshal_map (JDoc GNull) = Inr None"
| "json_Unmarshal_map (JDoc _) = Inl (Err ''json: cannot unmarshal into Go value of type map'')"

definition payload_val :: "payload \<Rightarrow> gval" where
  "payload_val p = (case p of None \<Rightarrow> GNull | Some kvs \<Rightarrow> GObj kvs)"

lemma unmarshal_marshal:
  "json_Marshal (payload_val p) = Inr t \<Longrightarrow> json_Unmarshal_map t = Inr p"
  by (auto simp: json_Marshal_def payload_val_def split: if_splits option.splits)

end
