(* ===== verification/Metrics.thy ===== *)
theory Metrics
  imports Models
begin

text \<open>
  The Prometheus series of \<open>internal/metrics/metrics.go\<close> as a record: a counter vector is a
  function from its label to its value, a histogram vector a function from its label to the
  observations made (newest first), a gauge a number. Registration and exposition are the client
  library's business and are not modelled.
\<close>

record metrics =
  JobsSubmitted :: "string \<Rightarrow> nat"
  JobsCompleted :: "string \<Rightarrow> nat"
  JobsFailed :: "string \<Rightarrow> nat"
  JobsRetried :: "string \<Rightarrow> nat"
  JobWaitDuration :: "string \<Rightarrow> int list"
  JobProcessingDuration :: "string \<Rightarrow> int list"
  WorkersBusy :: int
  JobsRecovered :: nat
  RecoveryDuration :: int
  JobsPreempted :: "string \<Rightarrow> nat"

definition metrics0 :: metrics where
  "metrics0 = \<lparr>JobsSubmitted = (\<lambda>_. 0), JobsCompleted = (\<lambda>_. 0), JobsFailed = (\<lambda>_. 0),
     JobsRetried = (\<lambda>_. 0), JobWaitDuration = (\<lambda>_. []), JobProcessingDuration = (\<lambda>_. []),
     WorkersBusy = 0, JobsRecovered = 0, RecoveryDuration = 0, JobsPreempted = (\<lambda>_. 0)\<rparr>"

text \<open>\<open>WithLabelValues(l).Inc()\<close> and \<open>WithLabelValues(l).Observe(x)\<close>.\<close>

definition inc_label :: "string \<Rightarrow> (string \<Rightarrow> nat) \<Rightarrow> string \<Rightarrow> nat" where
  "inc_label l c = c(l := Suc (c l))"

definition observe_label :: "string \<Rightarrow> int \<Rightarrow> (string \<Rightarrow> int list) \<Rightarrow> string \<Rightarrow> int list" where
  "observe_label l x h = h(l := x # h l)"

lemma inc_label_apply [simp]: "inc_label l c m = (if m = l then Suc (c m) else c m)"
  by (simp add: inc_label_def)

end
