(* ===== verification/Database.thy ===== *)
theory Database
  imports Metrics
begin

text \<open>
  The environment the storage backends run against: the \<open>jobs\<close> table (the columns of
  \<open>migrate\<close> in \<open>internal/storage/sqlite.go\<close> and of \<open>pgMigrate\<close> in
  \<open>internal/storage/postgres.go\<close>), the clock read by \<open>time.Now\<close>, the metrics, and the answers of
  the database driver. The driver is code outside the repository: its answers are an input of the
  model, one per statement sent, so that every error branch of the callers is reachable. An
  exhausted answer list means that nothing fails any more.

  The SQL statements of the program are \<open>INSERT\<close> of one row, \<open>UPDATE ... WHERE\<close>,
  \<open>SELECT ... WHERE ... ORDER BY ... LIMIT\<close> and a grouped count; their meaning on a table given
  as a list of rows is defined here once. SQL leaves the order of rows that compare equal open;
  the model keeps their insertion order.
\<close>

section \<open>The table and the world\<close>

record row =
  c_id :: string
  c_job_type :: string
  c_payload :: json_text
  c_queue_type :: string
  c_priority :: int
  c_status :: string
  c_retry_count :: int
  c_max_retries :: int
  c_created_at :: int
  c_updated_at :: int
  c_processed_at :: "int option"
  c_error_message :: "string option"

text \<open>
  \<open>Fail e\<close>: the statement fails with \<open>e\<close>. \<open>Cut n e\<close>: a query delivers \<open>n\<close> rows, then its
  iteration ends with \<open>e\<close> (reported by \<open>rows.Err()\<close>); any other statement fails with \<open>e\<close>.
\<close>

datatype answer = Ok | Fail error | Cut nat error

record world =
  table :: "row list"
  db_closed :: bool
  driver :: "answer list"
  clock :: int
  metrics :: metrics

definition stmt :: "world \<Rightarrow> answer \<times> world" where
  "stmt w =
     (if db_closed w then (Fail (Err ''sql: database is closed''), w)
      else case driver w of
        [] \<Rightarrow> (Ok, w)
      | a # as \<Rightarrow> (a, w\<lparr>driver := as\<rparr>))"

definition healthy :: "world \<Rightarrow> bool" where
  "healthy w \<longleftrightarrow> \<not> db_closed w \<and> driver w = []"

lemma stmt_healthy [simp]: "healthy w \<Longrightarrow> stmt w = (Ok, w)"
  by (simp add: healthy_def stmt_def)

lemma stmt_frame [frame]:
  "table (snd (stmt w)) = table w" "db_closed (snd (stmt w)) = db_closed w"
  "clock (snd (stmt w)) = clock w" "metrics (snd (stmt w)) = metrics w"
  by (auto simp: stmt_def split: list.splits)

lemma stmt_eq_frame:
  assumes "stmt w = (a, w1)"
  shows "table w1 = table w" "clock w1 = clock w" "metrics w1 = metrics w" "db_closed w1 = db_closed w"
  using stmt_frame [of w] assms by simp_all

lemma stmt_eq_table: "stmt w = (a, w1) \<Longrightarrow> table w1 = table w \<and> clock w1 = clock w"
  using stmt_frame [of w] by simp

lemma healthy_updates [simp]:
  "healthy (w\<lparr>table := t\<rparr>) = healthy w"
  "healthy (w\<lparr>clock := c\<rparr>) = healthy w"
  "healthy (w\<lparr>metrics := m\<rparr>) = healthy w"
  by (simp_all add: healthy_def)

section \<open>Statements\<close>

text \<open>\<open>INSERT\<close>: the primary key and the column constraints \<open>ok\<close> are checked by the engine.\<close>

definition sql_insert :: "(row \<Rightarrow> bool) \<Rightarrow> row \<Rightarrow> world \<Rightarrow> unit result \<times> world" where
  "sql_insert ok r w =
     (case stmt w of
        (Fail e, w1) \<Rightarrow> (Inl e, w1)
      | (Cut n e, w1) \<Rightarrow> (Inl e, w1)
      | (Ok, w1) \<Rightarrow>
          if c_id r \<in> set (map c_id (table w1)) then (Inl (Driver ''UNIQUE constraint failed''), w1)
          else if \<not> ok r then (Inl (Driver ''column constraint failed''), w1)
          else (Inr (), w1\<lparr>table := table w1 @ [r]\<rparr>))"

text \<open>\<open>UPDATE jobs SET f WHERE p\<close>, all or nothing; the value is the number of rows affected.\<close>

definition sql_update ::
  "(row \<Rightarrow> bool) \<Rightarrow> (row \<Rightarrow> bool) \<Rightarrow> (row \<Rightarrow> row) \<Rightarrow> world \<Rightarrow> nat result \<times> world" where
  "sql_update ok p f w =
     (case stmt w of
        (Fail e, w1) \<Rightarrow> (Inl e, w1)
      | (Cut n e, w1) \<Rightarrow> (Inl e, w1)
      | (Ok, w1) \<Rightarrow>
          if \<exists>r \<in> set (table w1). p r \<and> \<not> ok (f r) then (Inl (Driver ''column constraint failed''), w1)
          else (Inr (length (filter p (table w1))),
                w1\<lparr>table := map (\<lambda>r. if p r then f r else r) (table w1)\<rparr>))"

text \<open>A query delivers rows; \<open>Some e\<close> is what ends the iteration early.\<close>

definition sql_select ::
  "(row list \<Rightarrow> row list) \<Rightarrow> world \<Rightarrow> (row list \<times> error option) result \<times> world" where
  "sql_select q w =
     (case stmt w of
        (Fail e, w1) \<Rightarrow> (Inl e, w1)
      | (Cut n e, w1) \<Rightarrow> (Inr (take n (q (table w1)), Some e), w1)
      | (Ok, w1) \<Rightarrow> (Inr (q (table w1), None), w1))"

definition find_row :: "string \<Rightarrow> row list \<Rightarrow> row option" where
  "find_row i rs = find (\<lambda>r. c_id r = i) rs"

text \<open>The two orders the queries ask for, and the grouped count.\<close>

definition by_priority :: "row list \<Rightarrow> row list" where
  "by_priority rs = sort_key (\<lambda>r. (- c_priority r, c_created_at r)) rs"

definition by_created :: "row list \<Rightarrow> row list" where
  "by_created rs = sort_key c_created_at rs"

definition by_created_desc :: "row list \<Rightarrow> row list" where
  "by_created_desc rs = sort_key (\<lambda>r. - c_created_at r) rs"

definition group_count :: "('a \<Rightarrow> 'k) \<Rightarrow> 'a list \<Rightarrow> ('k \<times> nat) list" where
  "group_count k xs = map (\<lambda>g. (g, length (filter (\<lambda>x. k x = g) xs))) (remdups (map k xs))"

section \<open>Well-formed tables\<close>

text \<open>Payload columns written by the program hold an object or \<open>null\<close>.\<close>

definition decodes :: "row \<Rightarrow> bool" where
  "decodes r = (case c_payload r of JDoc (GObj _) \<Rightarrow> True | JDoc GNull \<Rightarrow> True | _ \<Rightarrow> False)"

definition table_inv :: "(row \<Rightarrow> bool) \<Rightarrow> row list \<Rightarrow> bool" where
  "table_inv ok rs \<longleftrightarrow> distinct (map c_id rs) \<and> (\<forall>r \<in> set rs. ok r \<and> decodes r)"

lemma table_inv_Nil [simp]: "table_inv ok []"
  by (simp add: table_inv_def)

lemma sql_insert_inv:
  "table_inv ok (table w) \<Longrightarrow> decodes r \<Longrightarrow> table_inv ok (table (snd (sql_insert ok r w)))"
  by (auto simp: sql_insert_def table_inv_def dest: stmt_eq_frame split: prod.splits answer.splits)

lemma sql_insert_ok:
  assumes "healthy w" "find_row (c_id r) (table w) = None" "ok r"
  shows "sql_insert ok r w = (Inr (), w\<lparr>table := table w @ [r]\<rparr>)"
  using assms by (auto simp: sql_insert_def find_row_def find_None_iff_all)

lemma find_row_SomeD: "find_row i rs = Some r \<Longrightarrow> r \<in> set rs \<and> c_id r = i"
  by (auto simp: find_row_def dest: find_Some_in)

lemma find_row_None_iff: "find_row i rs = None \<longleftrightarrow> i \<notin> c_id ` set rs"
  by (auto simp: find_row_def find_None_iff_all)

lemma sql_insert_dup:
  assumes "healthy w" "find_row (c_id r) (table w) \<noteq> None"
  shows "sql_insert ok r w = (Inl (Driver ''UNIQUE constraint failed''), w)"
  using assms by (simp add: sql_insert_def find_row_None_iff)

text \<open>An update that keeps the key and the payload keeps the table well-formed.\<close>

definition keeps :: "(row \<Rightarrow> row) \<Rightarrow> bool" where
  "keeps f \<longleftrightarrow> (\<forall>r. c_id (f r) = c_id r \<and> c_payload (f r) = c_payload r)"

lemma keeps_c_id: "keeps f \<Longrightarrow> c_id \<circ> (\<lambda>r. if p r then f r else r) = c_id"
  by (auto simp: keeps_def fun_eq_iff)

lemma sql_update_inv:
  assumes inv: "table_inv ok (table w)" and k: "keeps f"
  shows "table_inv ok (table (snd (sql_update ok p f w)))"
proof -
  have d: "decodes (f r) = decodes r" for r
    using k by (simp add: keeps_def decodes_def)
  show ?thesis
    using inv
    by (auto simp: sql_update_def table_inv_def d keeps_c_id [OF k] dest: stmt_eq_frame
        split: prod.splits answer.splits)
qed

lemma sql_update_ok:
  assumes "healthy w" "\<forall>r \<in> set (table w). p r \<longrightarrow> ok (f r)"
  shows "sql_update ok p f w =
    (Inr (length (filter p (table w))), w\<lparr>table := map (\<lambda>r. if p r then f r else r) (table w)\<rparr>)"
  using assms by (auto simp: sql_update_def)

lemma sql_update_frame [frame]:
  "clock (snd (sql_update ok p f w)) = clock w" "metrics (snd (sql_update ok p f w)) = metrics w"
  "fst (sql_update ok p f w) = Inl e \<Longrightarrow> table (snd (sql_update ok p f w)) = table w"
  by (auto simp: sql_update_def dest: stmt_eq_frame split: prod.splits answer.splits if_splits)

lemma sql_insert_frame [frame]:
  "clock (snd (sql_insert ok r w)) = clock w" "metrics (snd (sql_insert ok r w)) = metrics w"
  "fst (sql_insert ok r w) = Inl e \<Longrightarrow> table (snd (sql_insert ok r w)) = table w"
  by (auto simp: sql_insert_def dest: stmt_eq_frame split: prod.splits answer.splits if_splits)

lemma sql_select_frame [frame]:
  "table (snd (sql_select q w)) = table w" "clock (snd (sql_select q w)) = clock w"
  "metrics (snd (sql_select q w)) = metrics w"
  by (auto simp: sql_select_def dest: stmt_eq_frame split: prod.splits answer.splits)

lemma sql_select_ok [simp]: "healthy w \<Longrightarrow> sql_select q w = (Inr (q (table w), None), w)"
  by (simp add: sql_select_def)

lemma find_row_mem: "table_inv ok rs \<Longrightarrow> r \<in> set rs \<Longrightarrow> find_row (c_id r) rs = Some r"
  by (auto simp: table_inv_def find_row_def intro: find_unique)

text \<open>The same facts for a statement whose outcome has a name.\<close>

lemma sql_update_eq:
  assumes "sql_update ok p f w = (x, w1)"
  shows "clock w1 = clock w" "metrics w1 = metrics w" "x = Inl e \<Longrightarrow> table w1 = table w"
    "table_inv ok (table w) \<Longrightarrow> keeps f \<Longrightarrow> table_inv ok (table w1)"
  using sql_update_frame [of ok p f w] sql_update_inv [of ok w f p] assms by simp_all

lemma sql_insert_eq:
  assumes "sql_insert ok r w = (x, w1)"
  shows "clock w1 = clock w" "metrics w1 = metrics w" "x = Inl e \<Longrightarrow> table w1 = table w"
    "table_inv ok (table w) \<Longrightarrow> decodes r \<Longrightarrow> table_inv ok (table w1)"
  using sql_insert_frame [of ok r w] sql_insert_inv [of ok w r] assms by simp_all

lemma sql_select_subset: "sql_select q w = (Inr (rs, e), w') \<Longrightarrow> set rs \<subseteq> set (q (table w))"
  by (auto simp: sql_select_def dest!: stmt_eq_table split: prod.splits answer.splits dest: in_set_takeD)

lemma sql_Inl_frame:
  "sql_update ok p f w = (Inl e, w1) \<Longrightarrow> table w1 = table w \<and> clock w1 = clock w"
  "sql_insert ok r w = (Inl e, w1) \<Longrightarrow> table w1 = table w \<and> clock w1 = clock w"
  by (auto dest: sql_update_eq sql_insert_eq)

lemma sql_Inr_table:
  "sql_update ok p f w = (Inr n, w1) \<Longrightarrow>
     table w1 = map (\<lambda>r. if p r then f r else r) (table w) \<and> n = length (filter p (table w))"
  "sql_insert ok r w = (Inr u, w1) \<Longrightarrow>
     table w1 = table w @ [r] \<and> find_row (c_id r) (table w) = None"
  by (auto simp: sql_update_def sql_insert_def find_row_None_iff dest!: stmt_eq_table
      split: prod.splits answer.splits if_splits)

text \<open>An update guarded by the key and the status touches the one row that has the key.\<close>

lemma map_guarded_update:
  assumes inv: "table_inv ok rs" and r: "find_row i rs = Some r" and p: "P r"
  shows "map (\<lambda>x. if c_id x = i \<and> P x then f x else x) rs = map (\<lambda>x. if c_id x = i then f x else x) rs"
    and "length (filter (\<lambda>x. c_id x = i \<and> P x) rs) \<noteq> 0"
proof -
  have "P x" if "x \<in> set rs" "c_id x = i" for x
    using find_row_mem [OF inv that(1)] that(2) r p by simp
  then show "map (\<lambda>x. if c_id x = i \<and> P x then f x else x) rs = map (\<lambda>x. if c_id x = i then f x else x) rs"
    by auto
  show "length (filter (\<lambda>x. c_id x = i \<and> P x) rs) \<noteq> 0"
    using find_row_SomeD [OF r] p by (auto simp: filter_empty_conv)
qed

lemma sql_update_none:
  assumes "healthy w" "\<forall>r \<in> set (table w). \<not> p r"
  shows "sql_update ok p f w = (Inr 0, w)"
proof -
  have "map (\<lambda>r. if p r then f r else r) (table w) = table w"
    by (rule map_idI) (use assms(2) in auto)
  with assms show ?thesis by (subst sql_update_ok) (auto simp: filter_empty_conv)
qed

lemma sql_update_zero: "sql_update ok p f w = (Inr 0, w1) \<Longrightarrow> table w1 = table w"
  by (auto simp: sql_update_def filter_empty_conv cong: map_cong dest!: stmt_eq_table
      split: prod.splits answer.splits if_splits)

lemma find_row_update:
  assumes "keeps f"
  shows "find_row i (map (\<lambda>r. if p r then f r else r) rs) =
    map_option (\<lambda>r. if p r then f r else r) (find_row i rs)"
  unfolding find_row_def by (rule find_map_key) (use assms in \<open>auto simp: keeps_def\<close>)

lemma find_row_append:
  "find_row i (rs @ [r]) = (case find_row i rs of None \<Rightarrow> if c_id r = i then Some r else None | Some x \<Rightarrow> Some x)"
  by (simp add: find_row_def find_append split: option.splits)

section \<open>Grouped counts\<close>

lemma length_filter_count: "length (filter (\<lambda>x. k x = g) xs) = count_list (map k xs) g"
  by (induction xs) auto

lemma map_of_graph: "map_of (map (\<lambda>g. (g, F g)) ys) g = (if g \<in> set ys then Some (F g) else None)"
  by (induction ys) auto

lemma map_of_group_count:
  "map_of (group_count k xs) g =
     (if g \<in> k ` set xs then Some (length (filter (\<lambda>x. k x = g) xs)) else None)"
  by (simp add: group_count_def map_of_graph)

lemma sum_group_count: "sum_list (map snd (group_count k xs)) = length xs"
proof -
  have "sum_list (map snd (group_count k xs)) = (\<Sum>g \<leftarrow> remdups (map k xs). count_list (map k xs) g)"
    by (simp add: group_count_def comp_def length_filter_count)
  also have "\<dots> = (\<Sum>g \<in> set (map k xs). count_list (map k xs) g)"
    by (subst sum_list_distinct_conv_sum_set) simp_all
  also have "\<dots> = length xs"
    by (subst sum_count_set) simp_all
  finally show ?thesis .
qed

end
