(* ===== verification/Storage_Interface.thy ===== *)
theory Storage_Interface
  imports Database
begin

text \<open>
  The interface \<open>Storage\<close> of \<open>internal/storage/interface.go\<close>. A Go interface value is a table of
  methods, here the record \<open>storage\<close>; the queues take such a record as an argument and never look
  behind it. A method that returns a slice and an error returns both, as in Go.

  The abstract state is a map from job IDs to jobs, and each method that writes has a specification
  on it (\<open>spec_save\<close>, \<open>spec_status\<close>, \<open>spec_retry\<close>, \<open>spec_requeue\<close>, \<open>spec_reset\<close>). The locale
  \<open>storage_contract\<close> states what the interface promises its clients: each method refines its
  specification, keeps the invariant, and leaves the table alone when it reports an error. Both
  backends interpret it (\<open>Storage_SQLite\<close>, \<open>Storage_Postgres\<close>); everything the queues rely on is
  derived inside it.
\<close>

section \<open>The method table\<close>

text \<open>\<open>map[string]map[string]int\<close>\<close>

type_synonym counts = "string \<Rightarrow> (string \<Rightarrow> int option) option"

record storage =
  SaveJob :: "job \<Rightarrow> world \<Rightarrow> unit result \<times> world"
  GetJob :: "string \<Rightarrow> world \<Rightarrow> job option result \<times> world"
  UpdateJobStatus :: "string \<Rightarrow> string \<Rightarrow> string \<Rightarrow> world \<Rightarrow> unit result \<times> world"
  ListPendingJobs :: "world \<Rightarrow> (job list \<times> error option) \<times> world"
  CloseStorage :: "world \<Rightarrow> unit result \<times> world"
  ListRecentJobs :: "int \<Rightarrow> world \<Rightarrow> (job list \<times> error option) \<times> world"
  GetProcessingJobs :: "world \<Rightarrow> (job list \<times> error option) \<times> world"
  ListAllPendingJobs :: "world \<Rightarrow> (job list \<times> error option) \<times> world"
  UpdateJobRetry :: "string \<Rightarrow> string \<Rightarrow> int \<Rightarrow> string \<Rightarrow> world \<Rightarrow> unit result \<times> world"
  Requeue :: "string \<Rightarrow> world \<Rightarrow> unit result \<times> world"
  ListPendingByQueue :: "string \<Rightarrow> world \<Rightarrow> (job list \<times> error option) \<times> world"
  ListProcessingByQueue :: "string \<Rightarrow> world \<Rightarrow> (job list \<times> error option) \<times> world"
  ResetForRetry :: "string \<Rightarrow> int \<Rightarrow> world \<Rightarrow> unit result \<times> world"
  CountByQueueAndStatus :: "world \<Rightarrow> (counts \<times> error option) \<times> world"

section \<open>Parts the two backends share\<close>

text \<open>
  \<open>QueryRow(...).Scan(...)\<close> of \<open>database/sql\<close>: the first row, \<open>None\<close> for \<open>ErrNoRows\<close>.
\<close>

definition query_row :: "(row \<Rightarrow> job result) \<Rightarrow> string \<Rightarrow> world \<Rightarrow> job option result \<times> world" where
  "query_row scan i w =
     (case sql_select (filter (\<lambda>r. c_id r = i)) w of
        (Inl e, w1) \<Rightarrow> (Inl e, w1)
      | (Inr ([], Some e), w1) \<Rightarrow> (Inl e, w1)
      | (Inr ([], None), w1) \<Rightarrow> (Inr None, w1)
      | (Inr (r # _, _), w1) \<Rightarrow>
          (case scan r of Inl e \<Rightarrow> (Inl e, w1) | Inr j \<Rightarrow> (Inr (Some j), w1)))"

fun scan_rows :: "(row \<Rightarrow> job result) \<Rightarrow> row list \<Rightarrow> job list result" where
  "scan_rows scan [] = Inr []"
| "scan_rows scan (r # rs) =
     (case scan r of
        Inl e \<Rightarrow> Inl e
      | Inr j \<Rightarrow> (case scan_rows scan rs of Inl e \<Rightarrow> Inl e | Inr js \<Rightarrow> Inr (j # js)))"

text \<open>The body of \<open>queryJobs\<close> and \<open>pgQueryJobs\<close>, which differ in the scan function only.\<close>

definition query_jobs ::
  "(row \<Rightarrow> job result) \<Rightarrow> (row list \<Rightarrow> row list) \<Rightarrow> world \<Rightarrow> (job list \<times> error option) \<times> world" where
  "query_jobs scan q w =
     (case sql_select q w of
        (Inl e, w1) \<Rightarrow> (([], Some (Wrap ''failed to query jobs'' e)), w1)
      | (Inr (rs, oe), w1) \<Rightarrow>
          (case scan_rows scan rs of
             Inl e \<Rightarrow> (([], Some (Wrap ''failed to scan job row'' e)), w1)
           | Inr js \<Rightarrow> ((js, oe), w1)))"

text \<open>The \<open>switch status\<close> at the end of \<open>UpdateJobStatus\<close> and of \<open>UpdateJobRetry\<close>.\<close>

definition count_status :: "string \<Rightarrow> string \<Rightarrow> metrics \<Rightarrow> metrics" where
  "count_status st l m =
     (if st = StatusCompleted then m\<lparr>JobsCompleted := inc_label l (JobsCompleted m)\<rparr>
      else if st = StatusFailed then m\<lparr>JobsFailed := inc_label l (JobsFailed m)\<rparr>
      else m)"

definition count_retry :: "string \<Rightarrow> string \<Rightarrow> metrics \<Rightarrow> metrics" where
  "count_retry st l m =
     (if st = StatusPending then m\<lparr>JobsRetried := inc_label l (JobsRetried m)\<rparr>
      else if st = StatusFailed then m\<lparr>JobsFailed := inc_label l (JobsFailed m)\<rparr>
      else m)"

text \<open>The loop of \<open>CountByQueueAndStatus\<close> over the rows \<open>(queue_type, status, count)\<close>.\<close>

fun collect_counts ::
  "((string \<times> string) \<times> nat) list \<Rightarrow> counts \<Rightarrow> counts" where
  "collect_counts [] m = m"
| "collect_counts (((q, s), n) # rs) m =
     (let inner = (case m q of None \<Rightarrow> Map.empty | Some c \<Rightarrow> c)
      in collect_counts rs (m(q \<mapsto> inner(s \<mapsto> int n))))"

section \<open>The abstract store\<close>

type_synonym jobmap = "string \<Rightarrow> job option"

definition stored :: "(payload \<Rightarrow> payload) \<Rightarrow> job \<Rightarrow> job" where
  "stored norm j = j\<lparr>Payload := norm (Payload j), ProcessedAt := None, ErrorMessage := ''''\<rparr>"

definition spec_save :: "(payload \<Rightarrow> payload) \<Rightarrow> job \<Rightarrow> jobmap \<Rightarrow> jobmap" where
  "spec_save norm j m = m(ID j \<mapsto> stored norm j)"

definition with_status :: "int \<Rightarrow> string \<Rightarrow> string \<Rightarrow> job \<Rightarrow> job" where
  "with_status now st msg j = j\<lparr>Status := st, UpdatedAt := now,
     ProcessedAt := (if terminal_status st then Some now else ProcessedAt j), ErrorMessage := msg\<rparr>"

definition spec_status :: "int \<Rightarrow> string \<Rightarrow> string \<Rightarrow> string \<Rightarrow> jobmap \<Rightarrow> jobmap" where
  "spec_status now i st msg m = m(i := map_option (with_status now st msg) (m i))"

definition spec_retry :: "int \<Rightarrow> string \<Rightarrow> string \<Rightarrow> int \<Rightarrow> string \<Rightarrow> jobmap \<Rightarrow> jobmap" where
  "spec_retry now i st n msg m =
     m(i := map_option (\<lambda>j. (with_status now st msg j)\<lparr>RetryCount := n\<rparr>) (m i))"

definition spec_requeue :: "int \<Rightarrow> string \<Rightarrow> jobmap \<Rightarrow> jobmap" where
  "spec_requeue now i m = m(i := map_option (\<lambda>j. j\<lparr>Status := StatusPending, UpdatedAt := now\<rparr>) (m i))"

definition spec_reset :: "(int \<Rightarrow> int) \<Rightarrow> int \<Rightarrow> string \<Rightarrow> int \<Rightarrow> jobmap \<Rightarrow> jobmap" where
  "spec_reset rc now i n m = m(i := map_option (\<lambda>j. j\<lparr>Status := StatusPending,
     RetryCount := rc (RetryCount j), MaxRetries := MaxRetries j + n, ErrorMessage := '''',
     UpdatedAt := now\<rparr>) (m i))"

text \<open>Priority descending, then creation time ascending: the order of the pending queries.\<close>

definition job_before :: "job \<Rightarrow> job \<Rightarrow> bool" where
  "job_before j k \<longleftrightarrow> Priority k < Priority j \<or> Priority j = Priority k \<and> CreatedAt j \<le> CreatedAt k"

definition active :: "job \<Rightarrow> bool" where
  "active j \<longleftrightarrow> Status j = StatusPending \<or> Status j = StatusProcessing"

definition view_of :: "(row \<Rightarrow> job result) \<Rightarrow> world \<Rightarrow> jobmap" where
  "view_of scan w i =
     (case find_row i (table w) of
        None \<Rightarrow> None
      | Some r \<Rightarrow> (case scan r of Inl _ \<Rightarrow> None | Inr j \<Rightarrow> Some j))"

lemma view_of_updates [simp]:
  "view_of scan (w\<lparr>metrics := m\<rparr>) = view_of scan w"
  "view_of scan (w\<lparr>clock := c\<rparr>) = view_of scan w"
  by (simp_all add: view_of_def fun_eq_iff)

lemma view_of_cong: "table w' = table w \<Longrightarrow> view_of scan w' = view_of scan w"
  by (simp add: view_of_def fun_eq_iff)

text \<open>The field-by-field copy of a scanned row into a job (\<open>Scan\<close> and the two \<open>Valid\<close> tests).\<close>

definition job_of :: "payload \<Rightarrow> row \<Rightarrow> job" where
  "job_of p r = \<lparr>ID = c_id r, JobType = c_job_type r, Payload = p, QueueType = c_queue_type r,
     Priority = c_priority r, Status = c_status r, RetryCount = c_retry_count r,
     MaxRetries = c_max_retries r, CreatedAt = c_created_at r, UpdatedAt = c_updated_at r,
     ProcessedAt = c_processed_at r,
     ErrorMessage = (case c_error_message r of None \<Rightarrow> '''' | Some s \<Rightarrow> s)\<rparr>"

lemma job_of_simps [simp]:
  "ID (job_of p r) = c_id r" "Priority (job_of p r) = c_priority r"
  "Status (job_of p r) = c_status r" "CreatedAt (job_of p r) = c_created_at r"
  "QueueType (job_of p r) = c_queue_type r" "RetryCount (job_of p r) = c_retry_count r"
  "MaxRetries (job_of p r) = c_max_retries r" "Payload (job_of p r) = p"
  "UpdatedAt (job_of p r) = c_updated_at r" "ProcessedAt (job_of p r) = c_processed_at r"
  by (simp_all add: job_of_def)

text \<open>
  The \<open>SET\<close> clauses of the \<open>UPDATE\<close> statements. The first three read the same in both backends.
\<close>

definition set_status :: "int \<Rightarrow> string \<Rightarrow> string \<Rightarrow> row \<Rightarrow> row" where
  "set_status now status errMsg r = r\<lparr>c_status := status, c_error_message := Some errMsg,
     c_updated_at := now,
     c_processed_at := (if status = ''completed'' \<or> status = ''failed'' then Some now else c_processed_at r)\<rparr>"

definition set_retry :: "int \<Rightarrow> string \<Rightarrow> int \<Rightarrow> string \<Rightarrow> row \<Rightarrow> row" where
  "set_retry now status retryCount errMsg r = r\<lparr>c_status := status, c_retry_count := retryCount,
     c_error_message := Some errMsg, c_updated_at := now,
     c_processed_at := (if status = ''completed'' \<or> status = ''failed'' then Some now else c_processed_at r)\<rparr>"

definition set_requeue :: "int \<Rightarrow> row \<Rightarrow> row" where
  "set_requeue now r = r\<lparr>c_status := ''pending'', c_updated_at := now\<rparr>"

lemma keeps_set [simp]:
  "keeps (set_status now st msg)" "keeps (set_retry now st n msg)" "keeps (set_requeue now)"
  by (simp_all add: keeps_def set_status_def set_retry_def set_requeue_def)

lemma job_of_set:
  "job_of p (set_status now st msg r) = with_status now st msg (job_of p r)"
  "job_of p (set_retry now st n msg r) = (with_status now st msg (job_of p r))\<lparr>RetryCount := n\<rparr>"
  "job_of p (set_requeue now r) = (job_of p r)\<lparr>Status := StatusPending, UpdatedAt := now\<rparr>"
  by (simp_all add: set_status_def set_retry_def set_requeue_def job_of_def with_status_def
      terminal_status_def status_defs)

lemma set_columns [simp]:
  "c_status (set_status now st msg r) = st" "c_status (set_retry now st n msg r) = st"
  "c_status (set_requeue now r) = StatusPending"
  "c_priority (set_status now st msg r) = c_priority r" "c_priority (set_retry now st n msg r) = c_priority r"
  "c_priority (set_requeue now r) = c_priority r"
  "c_retry_count (set_status now st msg r) = c_retry_count r" "c_retry_count (set_retry now st n msg r) = n"
  "c_retry_count (set_requeue now r) = c_retry_count r"
  "c_max_retries (set_status now st msg r) = c_max_retries r"
  "c_max_retries (set_retry now st n msg r) = c_max_retries r"
  "c_max_retries (set_requeue now r) = c_max_retries r"
  by (simp_all add: set_status_def set_retry_def set_requeue_def status_defs)

section \<open>Scanning\<close>

text \<open>
  What both scan functions have in common: the row is copied, the payload column is decoded, and
  every column value the program writes decodes. The facts below lift statements on the table to
  statements on the abstract store.
\<close>

lemma find_row_filter:
  "(case filter (\<lambda>r. c_id r = i) rs of [] \<Rightarrow> None | r # _ \<Rightarrow> Some r) = find_row i rs"
  unfolding find_row_def by (induction rs) auto

locale row_scanner =
  fixes scan :: "row \<Rightarrow> job result"
    and um :: "json_text \<Rightarrow> payload result"
  assumes scan_um: "scan r = (case um (c_payload r) of Inl e \<Rightarrow> Inl e | Inr p \<Rightarrow> Inr (job_of p r))"
    and um_obj: "um (JDoc (GObj kvs)) = Inr (Some kvs)"
    and um_null: "um (JDoc GNull) = Inr None"
begin

lemma decodes_scan:
  assumes "decodes r"
  obtains p where "um (c_payload r) = Inr p" "scan r = Inr (job_of p r)"
proof -
  from assms consider kvs where "c_payload r = JDoc (GObj kvs)" | "c_payload r = JDoc GNull"
    by (auto simp: decodes_def split: json_text.splits gval.splits)
  then show ?thesis
    by cases (use that in \<open>auto simp: scan_um um_obj um_null\<close>)
qed

lemma view_find:
  assumes "table_inv ok (table w)" "find_row i (table w) = Some r"
  obtains p where "view_of scan w i = Some (job_of p r)" "um (c_payload r) = Inr p"
    "scan r = Inr (job_of p r)"
proof -
  from assms have "decodes r" by (auto simp: table_inv_def dest: find_row_SomeD)
  then show ?thesis
    by (rule decodes_scan) (use that assms(2) in \<open>simp add: view_of_def\<close>)
qed

lemma view_None_iff: "table_inv ok (table w) \<Longrightarrow> view_of scan w i = None \<longleftrightarrow> find_row i (table w) = None"
  by (cases "find_row i (table w)") (auto simp: view_of_def [of scan w i] elim!: view_find)

lemma view_SomeD:
  assumes "table_inv ok (table w)" "view_of scan w i = Some j"
  obtains r p where "find_row i (table w) = Some r" "um (c_payload r) = Inr p" "j = job_of p r"
    "r \<in> set (table w)" "c_id r = i" "ok r"
proof -
  from assms obtain r where r: "find_row i (table w) = Some r"
    by (auto simp: view_of_def split: option.splits)
  from assms(1) r obtain p where p: "view_of scan w i = Some (job_of p r)" "um (c_payload r) = Inr p"
    by (rule view_find)
  from r have "r \<in> set (table w)" "c_id r = i" by (simp_all add: find_row_SomeD)
  with assms p r show ?thesis by (intro that [of r p]) (auto simp: table_inv_def)
qed

lemma query_row_ok:
  assumes "healthy w" "table_inv ok (table w)"
  shows "query_row scan i w = (Inr (view_of scan w i), w)"
proof (cases "filter (\<lambda>r. c_id r = i) (table w)")
  case Nil
  then have "find_row i (table w) = None" using find_row_filter [of i "table w"] by simp
  with assms(1) Nil show ?thesis by (simp add: query_row_def view_of_def)
next
  case (Cons r rs)
  then have "find_row i (table w) = Some r" using find_row_filter [of i "table w"] by simp
  with assms(2) obtain p where "view_of scan w i = Some (job_of p r)" "scan r = Inr (job_of p r)"
    by (rule view_find)
  with assms(1) Cons show ?thesis by (simp add: query_row_def)
qed

lemma view_update:
  assumes k: "keeps f" and g: "\<And>p r. job_of p (f r) = g (job_of p r)"
  shows "view_of scan (w\<lparr>table := map (\<lambda>r. if c_id r = i then f r else r) (table w)\<rparr>) =
    (view_of scan w)(i := map_option g (view_of scan w i))"
proof
  fix x
  have "scan (f r) = map_sum (\<lambda>e. e) g (scan r)" for r
    using k by (auto simp: scan_um g keeps_def split: sum.splits)
  then show "view_of scan (w\<lparr>table := map (\<lambda>r. if c_id r = i then f r else r) (table w)\<rparr>) x =
    ((view_of scan w)(i := map_option g (view_of scan w i))) x"
    by (auto simp: view_of_def find_row_update [OF k] dest: find_row_SomeD
        split: option.splits sum.splits)
qed

text \<open>An \<open>UPDATE\<close> by key, and one that also asks for a status, refine an update of the map.\<close>

lemma update_by_id:
  assumes h: "healthy w" and inv: "table_inv ok (table w)" and ok: "\<And>r. ok r \<Longrightarrow> ok (f r)"
    and k: "keeps f" and g: "\<And>p r. job_of p (f r) = g (job_of p r)"
  obtains n w' where "sql_update ok (\<lambda>r. c_id r = i) f w = (Inr n, w')" "healthy w'"
    "clock w' = clock w" "metrics w' = metrics w" "table_inv ok (table w')"
    "view_of scan w' = (view_of scan w)(i := map_option g (view_of scan w i))"
proof -
  have "sql_update ok (\<lambda>r. c_id r = i) f w = (Inr (length (filter (\<lambda>r. c_id r = i) (table w))),
      w\<lparr>table := map (\<lambda>r. if c_id r = i then f r else r) (table w)\<rparr>)"
    by (rule sql_update_ok [OF h]) (use inv ok in \<open>auto simp: table_inv_def\<close>)
  moreover from this have "table_inv ok (map (\<lambda>r. if c_id r = i then f r else r) (table w))"
    using sql_update_eq(4) inv k by fastforce
  ultimately show ?thesis
    by (intro that [of _ "w\<lparr>table := map (\<lambda>r. if c_id r = i then f r else r) (table w)\<rparr>"])
      (use h view_update [OF k g] in simp_all)
qed

lemma update_guarded:
  assumes h: "healthy w" and inv: "table_inv ok (table w)" and v: "view_of scan w i = Some j"
    and s: "Status j = s" and ok: "\<And>r p. ok r \<Longrightarrow> c_id r = i \<Longrightarrow> j = job_of p r \<Longrightarrow> ok (f r)"
    and k: "keeps f" and g: "\<And>p r. job_of p (f r) = g (job_of p r)"
  obtains n w' where "sql_update ok (\<lambda>r. c_id r = i \<and> c_status r = s) f w = (Inr (Suc n), w')" "healthy w'"
    "clock w' = clock w" "metrics w' = metrics w" "table_inv ok (table w')"
    "view_of scan w' = (view_of scan w)(i := map_option g (view_of scan w i))"
proof -
  let ?p = "\<lambda>r. c_id r = i \<and> c_status r = s"
  from inv v obtain r p where r: "find_row i (table w) = Some r" "j = job_of p r" by (rule view_SomeD)
  then have "c_status r = s" using s by simp
  note m = map_guarded_update [OF inv r(1), where P = "\<lambda>r. c_status r = s", OF this]
  have "x = r" if "x \<in> set (table w)" "c_id x = i" for x
    using find_row_mem [OF inv that(1)] that(2) r(1) by simp
  then have "sql_update ok ?p f w = (Inr (length (filter ?p (table w))),
      w\<lparr>table := map (\<lambda>r. if ?p r then f r else r) (table w)\<rparr>)"
    by (intro sql_update_ok [OF h]) (use inv ok r(2) in \<open>auto simp: table_inv_def\<close>)
  then have u: "sql_update ok ?p f w = (Inr (length (filter ?p (table w))),
      w\<lparr>table := map (\<lambda>r. if c_id r = i then f r else r) (table w)\<rparr>)"
    unfolding m(1) .
  from sql_update_eq(4) [OF u inv k] have "table_inv ok (map (\<lambda>r. if c_id r = i then f r else r) (table w))"
    by simp
  moreover obtain n where "length (filter ?p (table w)) = Suc n"
    using m(2) by (cases "length (filter ?p (table w))") simp_all
  with u have "sql_update ok ?p f w =
      (Inr (Suc n), w\<lparr>table := map (\<lambda>r. if c_id r = i then f r else r) (table w)\<rparr>)"
    by simp
  ultimately show ?thesis
    by (intro that [of n "w\<lparr>table := map (\<lambda>r. if c_id r = i then f r else r) (table w)\<rparr>"])
      (use h view_update [OF k g] in simp_all)
qed

lemma update_guarded_none:
  assumes h: "healthy w" and inv: "table_inv ok (table w)"
    and v: "\<And>j. view_of scan w i = Some j \<Longrightarrow> Status j \<noteq> s"
  shows "sql_update ok (\<lambda>r. c_id r = i \<and> c_status r = s) f w = (Inr 0, w)"
proof (rule sql_update_none [OF h], intro ballI notI)
  fix r assume r: "r \<in> set (table w)" and s: "c_id r = i \<and> c_status r = s"
  from find_row_mem [OF inv r] s have "find_row i (table w) = Some r" by simp
  with inv obtain p where "view_of scan w i = Some (job_of p r)" by (rule view_find)
  with v s show False by fastforce
qed

lemma view_insert:
  assumes "find_row (c_id r) (table w) = None"
  shows "view_of scan (w\<lparr>table := table w @ [r]\<rparr>) =
    (view_of scan w)(c_id r := (case scan r of Inl _ \<Rightarrow> None | Inr j \<Rightarrow> Some j))"
  using assms by (auto simp: view_of_def find_row_append fun_eq_iff split: option.splits)

text \<open>What a statement that succeeded did, whatever the driver answered to others.\<close>

lemma effect_by_id:
  assumes "sql_update ok (\<lambda>r. c_id r = i) f w = (Inr n, w')" "keeps f" "\<And>p r. job_of p (f r) = g (job_of p r)"
  shows "view_of scan w' = (view_of scan w)(i := map_option g (view_of scan w i))"
proof -
  have "view_of scan w' = view_of scan (w\<lparr>table := map (\<lambda>r. if c_id r = i then f r else r) (table w)\<rparr>)"
    using sql_Inr_table(1) [OF assms(1)] by (intro view_of_cong) simp
  with view_update [OF assms(2,3)] show ?thesis by simp
qed

lemma effect_guarded:
  assumes u: "sql_update ok (\<lambda>r. c_id r = i \<and> c_status r = s) f w = (Inr n, w')" "n \<noteq> 0"
    and inv: "table_inv ok (table w)" and f: "keeps f" "\<And>p r. job_of p (f r) = g (job_of p r)"
  shows "view_of scan w' = (view_of scan w)(i := map_option g (view_of scan w i))"
proof -
  from u(2) sql_Inr_table(1) [OF u(1)] obtain r where r: "r \<in> set (table w)" "c_id r = i" "c_status r = s"
    by (auto simp: filter_empty_conv)
  with find_row_mem [OF inv r(1)] have fr: "find_row i (table w) = Some r" by simp
  have "view_of scan w' = view_of scan (w\<lparr>table := map (\<lambda>r. if c_id r = i then f r else r) (table w)\<rparr>)"
    using sql_Inr_table(1) [OF u(1)] map_guarded_update(1) [OF inv fr, where P = "\<lambda>r. c_status r = s", OF r(3)]
    by (intro view_of_cong) simp
  with view_update [OF f] show ?thesis by simp
qed

lemma effect_insert:
  assumes "sql_insert ok r w = (Inr u, w')"
  shows "view_of scan w' = (view_of scan w)(c_id r := (case scan r of Inl _ \<Rightarrow> None | Inr j \<Rightarrow> Some j))"
proof -
  from sql_Inr_table(2) [OF assms] have t: "table w' = table w @ [r]" "find_row (c_id r) (table w) = None"
    by simp_all
  have "view_of scan w' = view_of scan (w\<lparr>table := table w @ [r]\<rparr>)"
    by (rule view_of_cong) (simp add: t)
  with view_insert [OF t(2)] show ?thesis by simp
qed

lemma scan_rows_ok: "\<forall>r \<in> set rs. decodes r \<Longrightarrow> scan_rows scan rs = Inr (map (projr \<circ> scan) rs)"
  by (induction rs) (auto elim: decodes_scan)

lemma query_jobs_ok:
  assumes "healthy w" "table_inv ok (table w)" "set (q (table w)) \<subseteq> set (table w)"
  shows "query_jobs scan q w = ((map (projr \<circ> scan) (q (table w)), None), w)"
  using assms by (subst query_jobs_def) (auto simp: table_inv_def scan_rows_ok subset_iff)

text \<open>What a query delivers is in the table, whatever the driver answers.\<close>

lemma query_row_sound:
  assumes inv: "table_inv ok (table w)" and q: "query_row scan i w = (Inr (Some j), w')"
  shows "view_of scan w i = Some j"
proof -
  from q obtain r rs e where sel: "sql_select (filter (\<lambda>r. c_id r = i)) w = (Inr (r # rs, e), w')" and s: "scan r = Inr j"
    by (auto simp: query_row_def split: prod.splits sum.splits option.splits list.splits)
  from sql_select_subset [OF sel] have "r \<in> set (table w)" "c_id r = i" by auto
  with find_row_mem [OF inv] have "find_row i (table w) = Some r" by blast
  with s show ?thesis by (simp add: view_of_def)
qed

lemma query_jobs_sound:
  assumes inv: "table_inv ok (table w)" and q: "query_jobs scan (\<lambda>rs. sort_key k (filter P rs)) w = ((js, None), w')"
    and j: "j \<in> set js"
  shows "\<exists>r p. r \<in> set (table w) \<and> P r \<and> j = job_of p r \<and> view_of scan w (ID j) = Some j"
proof -
  from q have "scan_rows scan (sort_key k (filter P (table w))) = Inr js"
    by (auto simp: query_jobs_def sql_select_def dest!: stmt_eq_table
        split: prod.splits sum.splits answer.splits)
  moreover have "scan_rows scan (sort_key k (filter P (table w))) = Inr (map (projr \<circ> scan) (sort_key k (filter P (table w))))"
    by (rule scan_rows_ok) (use inv in \<open>auto simp: table_inv_def\<close>)
  ultimately obtain r where r: "r \<in> set (table w)" "P r" "j = projr (scan r)" using j by auto
  with inv have f: "find_row (c_id r) (table w) = Some r" by (simp add: find_row_mem)
  with inv obtain p where "view_of scan w (c_id r) = Some (job_of p r)" "scan r = Inr (job_of p r)" by (rule view_find)
  with r show ?thesis by auto
qed

lemma listed_set:
  assumes inv: "table_inv ok (table w)" and P: "\<And>p r. P r = P' (job_of p r)"
  shows "set (map (projr \<circ> scan) (sort_key k (filter P (table w)))) =
    {j. (\<exists>i. view_of scan w i = Some j) \<and> P' j}" (is "?L = ?R")
proof (intro set_eqI iffI)
  fix j assume "j \<in> ?L"
  then obtain r where r: "r \<in> set (table w)" "P r" "j = projr (scan r)" by auto
  with inv have "find_row (c_id r) (table w) = Some r" by (simp add: find_row_mem)
  with inv obtain p where "view_of scan w (c_id r) = Some (job_of p r)" "scan r = Inr (job_of p r)"
    by (rule view_find)
  with r P [of r p] show "j \<in> ?R" by auto
next
  fix j assume "j \<in> ?R"
  then obtain i where "view_of scan w i = Some j" "P' j" by auto
  with inv obtain r p where r: "um (c_payload r) = Inr p" "j = job_of p r" "r \<in> set (table w)"
    by (elim view_SomeD)
  with \<open>P' j\<close> have "P r" and "j = projr (scan r)" by (simp_all add: P [of r p] scan_um)
  with r(3) show "j \<in> ?L" by auto
qed

lemma listed_ids:
  assumes inv: "table_inv ok (table w)"
  shows "distinct (map ID (map (projr \<circ> scan) (sort_key k (filter P (table w)))))"
proof -
  have "ID (projr (scan r)) = c_id r" if "decodes r" for r
    using that by (elim decodes_scan) simp
  then have eq: "map ID (map (projr \<circ> scan) (sort_key k (filter P (table w)))) =
      map c_id (sort_key k (filter P (table w)))"
    using inv by (auto simp: table_inv_def)
  have "mset (map c_id (sort_key k (filter P (table w)))) = mset (map c_id (filter P (table w)))"
    by simp
  moreover have "distinct (map c_id (filter P (table w)))"
    using inv by (auto simp: table_inv_def distinct_map inj_on_def)
  ultimately show ?thesis
    unfolding eq by (metis mset_eq_imp_distinct_iff)
qed

lemma listed_sorted:
  assumes inv: "table_inv ok (table w)"
  shows "sorted_wrt job_before (map (projr \<circ> scan) (by_priority (filter P (table w))))"
proof -
  have s: "sorted_wrt (\<lambda>r r'. (- c_priority r, c_created_at r) \<le> (- c_priority r', c_created_at r'))
      (by_priority (filter P (table w)))"
    unfolding by_priority_def by (metis (no_types) sorted_map sorted_sort_key)
  have "Priority (projr (scan r)) = c_priority r \<and> CreatedAt (projr (scan r)) = c_created_at r"
    if "decodes r" for r
    using that by (elim decodes_scan) simp
  moreover have "\<forall>r \<in> set (by_priority (filter P (table w))). decodes r"
    using inv by (auto simp: table_inv_def by_priority_def)
  ultimately show ?thesis
    unfolding sorted_wrt_map by (intro sorted_wrt_mono_rel [OF _ s]) (auto simp: job_before_def)
qed

end

section \<open>The contract\<close>

text \<open>
  \<open>view\<close> is the abstract store a world represents and \<open>inv\<close> the backend's table invariant; both
  depend on the table only, so clients may advance the clock and count metrics freely.
\<close>

locale job_store =
  fixes view :: "world \<Rightarrow> jobmap"
    and inv :: "world \<Rightarrow> bool"
  assumes view_table: "table w' = table w \<Longrightarrow> view w' = view w"
    and inv_table: "table w' = table w \<Longrightarrow> inv w' = inv w"
    and view_ID: "inv w \<Longrightarrow> view w i = Some j \<Longrightarrow> ID j = i"
    and view_status: "inv w \<Longrightarrow> view w i = Some j \<Longrightarrow> valid_status (Status j)"

locale storage_reads = job_store view inv for view :: "world \<Rightarrow> jobmap" and inv +
  fixes S :: storage
  assumes get_ok: "healthy w \<Longrightarrow> inv w \<Longrightarrow> GetJob S i w = (Inr (view w i), w)"
    and pending_ok: "healthy w \<Longrightarrow> inv w \<Longrightarrow> \<exists>js. ListPendingJobs S w = ((js, None), w) \<and>
          set js = {j. (\<exists>i. view w i = Some j) \<and> active j} \<and> distinct (map ID js) \<and>
          sorted_wrt job_before js"
    and get_table: "table (snd (GetJob S i w)) = table w"
    and get_clock: "clock (snd (GetJob S i w)) = clock w"
    and pending_table: "table (snd (ListPendingJobs S w)) = table w"
    and pending_clock: "clock (snd (ListPendingJobs S w)) = clock w"

text \<open>
  \<open>fits\<close> says which integers the backend's columns hold, \<open>norm\<close> how a payload reads back, and
  \<open>reset_count\<close> what \<open>ResetForRetry\<close> does to the retry counter: the three points where the two
  backends differ.
\<close>

locale storage_contract = storage_reads view inv S for view :: "world \<Rightarrow> jobmap" and inv and S :: storage +
  fixes fits :: "int \<Rightarrow> bool"
    and norm :: "payload \<Rightarrow> payload"
    and reset_count :: "int \<Rightarrow> int"
  assumes save_ok: "healthy w \<Longrightarrow> inv w \<Longrightarrow> view w (ID j) = None \<Longrightarrow> valid_status (Status j) \<Longrightarrow>
        jsonable (payload_val (Payload j)) \<Longrightarrow> fits (Priority j) \<Longrightarrow> fits (RetryCount j) \<Longrightarrow>
        fits (MaxRetries j) \<Longrightarrow>
        \<exists>w'. SaveJob S j w = (Inr (), w') \<and> healthy w' \<and> inv w' \<and> clock w' = clock w \<and>
          metrics w' = metrics w \<and> view w' = spec_save norm j (view w)"
    and save_dup: "healthy w \<Longrightarrow> inv w \<Longrightarrow> view w (ID j) \<noteq> None \<Longrightarrow>
        \<exists>e. SaveJob S j w = (Inl e, w)"
    and status_ok: "healthy w \<Longrightarrow> inv w \<Longrightarrow> view w i = Some j \<Longrightarrow> valid_status st \<Longrightarrow>
        \<exists>w'. UpdateJobStatus S i st msg w = (Inr (), w') \<and> healthy w' \<and> inv w' \<and> clock w' = clock w \<and>
          metrics w' = count_status st (QueueType j) (metrics w) \<and>
          view w' = spec_status (clock w) i st msg (view w)"
    and status_missing: "healthy w \<Longrightarrow> inv w \<Longrightarrow> view w i = None \<Longrightarrow>
        UpdateJobStatus S i st msg w = (Inl (Err (''job '' @ i @ '' not found'')), w)"
    and retry_ok: "healthy w \<Longrightarrow> inv w \<Longrightarrow> view w i = Some j \<Longrightarrow> valid_status st \<Longrightarrow> fits n \<Longrightarrow>
        \<exists>w'. UpdateJobRetry S i st n msg w = (Inr (), w') \<and> healthy w' \<and> inv w' \<and> clock w' = clock w \<and>
          metrics w' = count_retry st (QueueType j) (metrics w) \<and>
          view w' = spec_retry (clock w) i st n msg (view w)"
    and retry_missing: "healthy w \<Longrightarrow> inv w \<Longrightarrow> view w i = None \<Longrightarrow>
        UpdateJobRetry S i st n msg w = (Inl (Err (''job '' @ i @ '' not found'')), w)"
    and requeue_ok: "healthy w \<Longrightarrow> inv w \<Longrightarrow>
        \<exists>w'. Requeue S i w = (Inr (), w') \<and> healthy w' \<and> inv w' \<and> clock w' = clock w \<and>
          metrics w' = metrics w \<and> view w' = spec_requeue (clock w) i (view w)"
    and reset_ok: "healthy w \<Longrightarrow> inv w \<Longrightarrow> view w i = Some j \<Longrightarrow> Status j = StatusFailed \<Longrightarrow>
        fits (MaxRetries j + n) \<Longrightarrow>
        \<exists>w'. ResetForRetry S i n w = (Inr (), w') \<and> healthy w' \<and> inv w' \<and> clock w' = clock w \<and>
          metrics w' = metrics w \<and> view w' = spec_reset reset_count (clock w) i n (view w)"
    and reset_refused: "healthy w \<Longrightarrow> inv w \<Longrightarrow>
        (\<And>j. view w i = Some j \<Longrightarrow> Status j \<noteq> StatusFailed) \<Longrightarrow>
        ResetForRetry S i n w = (Inl (Err ''job not found or not in failed state''), w)"
    and save_effect: "inv w \<Longrightarrow> SaveJob S j w = (Inr (), w') \<Longrightarrow> view w' = spec_save norm j (view w)"
    and status_effect: "inv w \<Longrightarrow> UpdateJobStatus S i st msg w = (Inr (), w') \<Longrightarrow>
        view w' = spec_status (clock w) i st msg (view w)"
    and retry_effect: "inv w \<Longrightarrow> UpdateJobRetry S i st n msg w = (Inr (), w') \<Longrightarrow>
        view w' = spec_retry (clock w) i st n msg (view w)"
    and requeue_effect: "inv w \<Longrightarrow> Requeue S i w = (Inr (), w') \<Longrightarrow>
        view w' = spec_requeue (clock w) i (view w)"
    and reset_effect: "inv w \<Longrightarrow> ResetForRetry S i n w = (Inr (), w') \<Longrightarrow>
        view w' = spec_reset reset_count (clock w) i n (view w)"
    and inv_kept: "inv w \<Longrightarrow> inv (snd (SaveJob S j w))"
        "inv w \<Longrightarrow> inv (snd (UpdateJobStatus S i st msg w))"
        "inv w \<Longrightarrow> inv (snd (UpdateJobRetry S i st n msg w))"
        "inv w \<Longrightarrow> inv (snd (Requeue S i w))"
        "inv w \<Longrightarrow> inv (snd (ResetForRetry S i n w))"
    and fail_atomic: "fst (SaveJob S j w) = Inl e \<Longrightarrow> table (snd (SaveJob S j w)) = table w"
        "fst (UpdateJobStatus S i st msg w) = Inl e \<Longrightarrow> table (snd (UpdateJobStatus S i st msg w)) = table w"
        "fst (UpdateJobRetry S i st n msg w) = Inl e \<Longrightarrow> table (snd (UpdateJobRetry S i st n msg w)) = table w"
        "fst (Requeue S i w) = Inl e \<Longrightarrow> table (snd (Requeue S i w)) = table w"
        "fst (ResetForRetry S i n w) = Inl e \<Longrightarrow> table (snd (ResetForRetry S i n w)) = table w"
    and clock_kept: "clock (snd (SaveJob S j w)) = clock w"
        "clock (snd (UpdateJobStatus S i st msg w)) = clock w"
        "clock (snd (UpdateJobRetry S i st n msg w)) = clock w"
        "clock (snd (Requeue S i w)) = clock w"
        "clock (snd (ResetForRetry S i n w)) = clock w"
    and save_fresh: "inv w \<Longrightarrow> SaveJob S j w = (Inr (), w') \<Longrightarrow> view w (ID j) = None"
    and get_sound: "inv w \<Longrightarrow> GetJob S i w = (Inr (Some j), w') \<Longrightarrow> view w i = Some j"
    and pending_sound: "inv w \<Longrightarrow> ListPendingJobs S w = ((js, None), w') \<Longrightarrow> j \<in> set js \<Longrightarrow>
        view w (ID j) = Some j \<and> active j"

section \<open>What no storage operation takes away\<close>

text \<open>
  A job keeps its identity through every operation: its fields other than status, counters and times
  stay, and its allowed attempts do not shrink.
\<close>

definition same_job :: "job \<Rightarrow> job \<Rightarrow> bool" where
  "same_job j j' \<longleftrightarrow> ID j' = ID j \<and> JobType j' = JobType j \<and> Payload j' = Payload j \<and>
     QueueType j' = QueueType j \<and> Priority j' = Priority j \<and> CreatedAt j' = CreatedAt j \<and>
     MaxRetries j \<le> MaxRetries j'"

definition same_jobs :: "jobmap \<Rightarrow> jobmap \<Rightarrow> bool" where
  "same_jobs m m' \<longleftrightarrow> (\<forall>i j. m i = Some j \<longrightarrow> (\<exists>j'. m' i = Some j' \<and> same_job j j'))"

definition keeps_jobs :: "(world \<Rightarrow> jobmap) \<Rightarrow> (world \<Rightarrow> bool) \<Rightarrow> world \<Rightarrow> world \<Rightarrow> bool" where
  "keeps_jobs view I w w' \<longleftrightarrow>
     (I w \<longrightarrow> I w' \<and> same_jobs (view w) (view w'))"

lemma same_job_refl [simp]: "same_job j j"
  by (simp add: same_job_def)

lemma same_job_trans: "same_job j k \<Longrightarrow> same_job k l \<Longrightarrow> same_job j l"
  by (simp add: same_job_def)

lemma keeps_jobs_trans: "keeps_jobs view I w w1 \<Longrightarrow> keeps_jobs view I w1 w2 \<Longrightarrow> keeps_jobs view I w w2"
  unfolding keeps_jobs_def same_jobs_def by (meson same_job_trans)

lemma same_jobs_refl [simp]: "same_jobs m m"
  by (simp add: same_jobs_def)

lemma same_jobs_save: "m (ID j) = None \<Longrightarrow> same_jobs m (spec_save norm j m)"
  by (simp add: same_jobs_def spec_save_def)

lemma same_jobs_upd: "(\<And>j. m i = Some j \<Longrightarrow> same_job j (f j)) \<Longrightarrow> same_jobs m (m(i := map_option f (m i)))"
  by (simp add: same_jobs_def)

lemma same_jobs_specs:
  "same_jobs m (spec_status now i st msg m)" "same_jobs m (spec_retry now i st n msg m)"
  "same_jobs m (spec_requeue now i m)" "0 \<le> n \<Longrightarrow> same_jobs m (spec_reset rc now i n m)"
  unfolding spec_status_def spec_retry_def spec_requeue_def spec_reset_def
  by (rule same_jobs_upd; simp add: same_job_def with_status_def)+

text \<open>
  A preorder on worlds that every storage operation respects which writes an admitted status, and that
  looks at the table and at the gauge of the busy workers only. Two of them hold of a storage that
  satisfies the contract: \<open>keeps_jobs\<close>, with every status admitted, and \<open>calms\<close>, with every status but
  \<open>processing\<close>: no further job gets that status.
\<close>

locale storage_preorder =
  fixes S :: storage
    and R :: "world \<Rightarrow> world \<Rightarrow> bool"
    and admitted :: "string \<Rightarrow> bool"
  assumes R_table: "table w' = table w \<Longrightarrow> WorkersBusy (metrics w') = WorkersBusy (metrics w) \<Longrightarrow> R w w'"
    and R_trans: "R w w1 \<Longrightarrow> R w1 w2 \<Longrightarrow> R w w2"
    and R_get: "R w (snd (GetJob S i w))"
    and R_pending: "R w (snd (ListPendingJobs S w))"
    and R_save: "admitted (Status j) \<Longrightarrow> R w (snd (SaveJob S j w))"
    and R_status: "admitted st \<Longrightarrow> R w (snd (UpdateJobStatus S i st msg w))"
    and R_retry: "admitted st \<Longrightarrow> R w (snd (UpdateJobRetry S i st n msg w))"
    and R_requeue: "R w (snd (Requeue S i w))"
    and R_reset: "0 \<le> n \<Longrightarrow> R w (snd (ResetForRetry S i n w))"
    and settled_admitted [simp]: "admitted StatusPending" "admitted StatusCompleted" "admitted StatusFailed"
begin

lemma R_then: "R w w1 \<Longrightarrow> table w2 = table w1 \<Longrightarrow> WorkersBusy (metrics w2) = WorkersBusy (metrics w1) \<Longrightarrow> R w w2"
  using R_trans R_table by blast

lemma R_eqs:
  "GetJob S i w = (x, w') \<Longrightarrow> R w w'"
  "ListPendingJobs S w = (y, w') \<Longrightarrow> R w w'"
  "admitted (Status j) \<Longrightarrow> SaveJob S j w = (z, w') \<Longrightarrow> R w w'"
  "admitted st \<Longrightarrow> UpdateJobStatus S i st msg w = (z, w') \<Longrightarrow> R w w'"
  "admitted st \<Longrightarrow> UpdateJobRetry S i st n msg w = (z, w') \<Longrightarrow> R w w'"
  "Requeue S i w = (z, w') \<Longrightarrow> R w w'"
  "0 \<le> n \<Longrightarrow> ResetForRetry S i n w = (z, w') \<Longrightarrow> R w w'"
  using R_get [of w i] R_pending [of w] R_save [of j w] R_status [of st w i msg] R_retry [of st w i n msg]
    R_requeue [of w i] R_reset [of n w i] by simp_all

end

context storage_contract
begin

text \<open>An operation that fails without effect, or has an effect that keeps the jobs, keeps the jobs.\<close>

lemma keeps_jobs_op:
  assumes "\<And>e. fst x = Inl e \<Longrightarrow> table (snd x) = table w" "inv w \<Longrightarrow> inv (snd x)"
    "\<And>w'. inv w \<Longrightarrow> x = (Inr (), w') \<Longrightarrow> same_jobs (view w) (view w')"
  shows "keeps_jobs view inv w (snd (x :: unit result \<times> world))"
proof (cases "fst x")
  case (Inl e)
  with assms(1,2) view_table [of "snd x" w] show ?thesis by (auto simp: keeps_jobs_def)
next
  case (Inr u)
  then have "x = (Inr (), snd x)" by (cases x) simp
  with assms(2,3) show ?thesis by (auto simp: keeps_jobs_def)
qed

lemma keeps_jobs_save: "keeps_jobs view inv w (snd (SaveJob S j w))"
  by (rule keeps_jobs_op) (simp_all add: fail_atomic inv_kept save_effect save_fresh same_jobs_save)

lemma keeps_jobs_updates:
  "keeps_jobs view inv w (snd (UpdateJobStatus S i st msg w))"
  "keeps_jobs view inv w (snd (UpdateJobRetry S i st n msg w))"
  "keeps_jobs view inv w (snd (Requeue S i w))"
  "0 \<le> n \<Longrightarrow> keeps_jobs view inv w (snd (ResetForRetry S i n w))"
  by (rule keeps_jobs_op; simp add: fail_atomic inv_kept same_jobs_specs status_effect retry_effect
      requeue_effect reset_effect)+

lemma keeps_jobs_table: "table w' = table w \<Longrightarrow> keeps_jobs view inv w w'"
  using view_table [of w' w] inv_table [of w' w] by (simp add: keeps_jobs_def)

end

sublocale storage_contract \<subseteq> kept: storage_preorder S "keeps_jobs view inv" "\<lambda>_. True"
  by unfold_locales
    (simp_all add: keeps_jobs_table keeps_jobs_save keeps_jobs_updates get_table pending_table,
     rule keeps_jobs_trans)

text \<open>The jobs stored as being processed.\<close>

definition in_processing :: "jobmap \<Rightarrow> string set" where
  "in_processing m = {i. \<exists>j. m i = Some j \<and> Status j = StatusProcessing}"

definition calms :: "(world \<Rightarrow> jobmap) \<Rightarrow> (world \<Rightarrow> bool) \<Rightarrow> world \<Rightarrow> world \<Rightarrow> bool" where
  "calms view I w w' \<longleftrightarrow> (I w \<longrightarrow> I w' \<and> in_processing (view w') \<subseteq> in_processing (view w))"

lemma calms_trans: "calms view I w w1 \<Longrightarrow> calms view I w1 w2 \<Longrightarrow> calms view I w w2"
  by (auto simp: calms_def)

lemma in_processing_upd:
  "(\<And>j. Status (f j) \<noteq> StatusProcessing) \<Longrightarrow> in_processing (m(i := map_option f (m i))) = in_processing m - {i}"
  by (auto simp: in_processing_def split: if_splits)

lemma in_processing_specs:
  "Status j \<noteq> StatusProcessing \<Longrightarrow> in_processing (spec_save norm j m) \<subseteq> in_processing m"
  "st \<noteq> StatusProcessing \<Longrightarrow> in_processing (spec_status now i st msg m) = in_processing m - {i}"
  "st \<noteq> StatusProcessing \<Longrightarrow> in_processing (spec_retry now i st n msg m) = in_processing m - {i}"
  "in_processing (spec_requeue now i m) = in_processing m - {i}"
  "in_processing (spec_reset rc now i n m) = in_processing m - {i}"
proof -
  show "Status j \<noteq> StatusProcessing \<Longrightarrow> in_processing (spec_save norm j m) \<subseteq> in_processing m"
    by (auto simp: in_processing_def spec_save_def stored_def split: if_splits)
qed (unfold spec_status_def spec_retry_def spec_requeue_def spec_reset_def,
  (rule in_processing_upd, simp add: with_status_def StatusPending_def StatusProcessing_def)+)

context storage_contract
begin

lemma calms_op:
  assumes "\<And>e. fst x = Inl e \<Longrightarrow> table (snd x) = table w" "inv w \<Longrightarrow> inv (snd x)"
    "\<And>w'. inv w \<Longrightarrow> x = (Inr (), w') \<Longrightarrow> in_processing (view w') \<subseteq> in_processing (view w)"
  shows "calms view inv w (snd (x :: unit result \<times> world))"
proof (cases "fst x")
  case (Inl e)
  with assms(1,2) view_table [of "snd x" w] show ?thesis by (auto simp: calms_def)
next
  case (Inr u)
  then have "x = (Inr (), snd x)" by (cases x) simp
  with assms(2,3) show ?thesis by (auto simp: calms_def)
qed

lemma calms_updates:
  "Status j \<noteq> StatusProcessing \<Longrightarrow> calms view inv w (snd (SaveJob S j w))"
  "st \<noteq> StatusProcessing \<Longrightarrow> calms view inv w (snd (UpdateJobStatus S i st msg w))"
  "st \<noteq> StatusProcessing \<Longrightarrow> calms view inv w (snd (UpdateJobRetry S i st n msg w))"
  "calms view inv w (snd (Requeue S i w))"
  "calms view inv w (snd (ResetForRetry S i n w))"
  by (rule calms_op; simp add: fail_atomic inv_kept save_effect status_effect retry_effect requeue_effect
      reset_effect in_processing_specs)+

lemma calms_table: "table w' = table w \<Longrightarrow> calms view inv w w'"
  using view_table [of w' w] inv_table [of w' w] by (simp add: calms_def)

end

sublocale storage_contract \<subseteq> calm: storage_preorder S "calms view inv" "\<lambda>st. st \<noteq> StatusProcessing"
  by unfold_locales
    (simp_all add: calms_table calms_updates get_table pending_table StatusPending_def StatusCompleted_def
      StatusFailed_def StatusProcessing_def,
     rule calms_trans)

section \<open>What an operation on another job leaves alone\<close>

text \<open>\<open>same_at\<close>: the job at one ID is as before.\<close>

definition same_at :: "(world \<Rightarrow> jobmap) \<Rightarrow> (world \<Rightarrow> bool) \<Rightarrow> string \<Rightarrow> world \<Rightarrow> world \<Rightarrow> bool" where
  "same_at view I i w w' \<longleftrightarrow> (I w \<longrightarrow> I w' \<and> view w' i = view w i)"

lemma same_at_trans: "same_at view I i w w1 \<Longrightarrow> same_at view I i w1 w2 \<Longrightarrow> same_at view I i w w2"
  by (simp add: same_at_def)

context storage_contract
begin

lemma same_at_table: "table w' = table w \<Longrightarrow> same_at view inv i w w'"
  using view_table [of w' w] inv_table [of w' w] by (simp add: same_at_def)

lemma same_at_op:
  assumes "\<And>e. fst x = Inl e \<Longrightarrow> table (snd x) = table w" "inv w \<Longrightarrow> inv (snd x)"
    "\<And>w'. inv w \<Longrightarrow> x = (Inr (), w') \<Longrightarrow> view w' i = view w i"
  shows "same_at view inv i w (snd (x :: unit result \<times> world))"
proof (cases "fst x")
  case (Inl e)
  with assms(1) show ?thesis by (intro same_at_table)
next
  case (Inr u)
  then have "x = (Inr (), snd x)" by (cases x) simp
  with assms(2,3) show ?thesis by (auto simp: same_at_def)
qed

lemma same_at_updates:
  "k \<noteq> i \<Longrightarrow> same_at view inv i w (snd (UpdateJobStatus S k st msg w))"
  "k \<noteq> i \<Longrightarrow> same_at view inv i w (snd (UpdateJobRetry S k st n msg w))"
  "k \<noteq> i \<Longrightarrow> same_at view inv i w (snd (Requeue S k w))"
  "k \<noteq> i \<Longrightarrow> same_at view inv i w (snd (ResetForRetry S k n w))"
  by (rule same_at_op; simp add: fail_atomic inv_kept spec_status_def spec_retry_def spec_requeue_def spec_reset_def
      status_effect retry_effect requeue_effect reset_effect)+

lemma same_at_save:
  assumes "view w i \<noteq> None"
  shows "same_at view inv i w (snd (SaveJob S j w))"
proof (rule same_at_op)
  fix w' assume a: "inv w" "SaveJob S j w = (Inr (), w')"
  from save_fresh [OF a] assms have "i \<noteq> ID j" by auto
  with save_effect [OF a] show "view w' i = view w i" by (simp add: spec_save_def)
qed (simp_all add: fail_atomic inv_kept)

lemma same_at_eqs:
  "UpdateJobStatus S k st msg w = (z, w') \<Longrightarrow> k \<noteq> i \<Longrightarrow> same_at view inv i w w'"
  "UpdateJobRetry S k st n msg w = (z, w') \<Longrightarrow> k \<noteq> i \<Longrightarrow> same_at view inv i w w'"
  "Requeue S k w = (z, w') \<Longrightarrow> k \<noteq> i \<Longrightarrow> same_at view inv i w w'"
  "ResetForRetry S k n w = (z, w') \<Longrightarrow> k \<noteq> i \<Longrightarrow> same_at view inv i w w'"
  "SaveJob S j w = (z, w') \<Longrightarrow> view w i \<noteq> None \<Longrightarrow> same_at view inv i w w'"
  "GetJob S k w = (y, w') \<Longrightarrow> same_at view inv i w w'"
  "ListPendingJobs S w = (l, w') \<Longrightarrow> same_at view inv i w w'"
  using same_at_updates(1) [of k i w st msg] same_at_updates(2) [of k i w st n msg] same_at_updates(3) [of k i w]
    same_at_updates(4) [of k i w n] same_at_save [of w i j] get_table [of k w] pending_table [of w]
  by (simp_all add: same_at_table)

end

end
