(* ===== verification/Storage_SQLite.thy ===== *)
theory Storage_SQLite
  imports Storage_Interface
begin

text \<open>
  The SQLite backend, \<open>internal/storage/sqlite.go\<close>: one definition per method, in the order of the
  file, the method table \<open>SQLiteStorage\<close>, and the proof that it meets \<open>storage_contract\<close>.
  SQLite's \<open>INTEGER\<close> columns hold every Go \<open>int\<close>; the sum \<open>max_retries + ?\<close> is an integer sum.
\<close>

section \<open>Definitions\<close>

text \<open>The \<open>CHECK\<close> of the schema in \<open>migrate\<close>.\<close>

definition sqlite_check :: "row \<Rightarrow> bool" where
  "sqlite_check r = valid_status (c_status r)"

definition marshalPayload :: "payload \<Rightarrow> json_text result" where
  "marshalPayload p =
     (case p of
        None \<Rightarrow> Inr (JDoc (GObj []))
      | Some kvs \<Rightarrow>
          (case json_Marshal (GObj kvs) of
             Inl e \<Rightarrow> Inl (Wrap ''failed to marshal payload'' e)
           | Inr t \<Rightarrow> Inr t))"

definition unmarshalPayload :: "json_text \<Rightarrow> payload result" where
  "unmarshalPayload t =
     (if t = JEmpty then Inr (Some [])
      else case json_Unmarshal_map t of
             Inl e \<Rightarrow> Inl (Wrap ''failed to unmarshal payload'' e)
           | Inr m \<Rightarrow> Inr m)"

definition scanJob :: "row \<Rightarrow> job result" where
  "scanJob r = (case unmarshalPayload (c_payload r) of Inl e \<Rightarrow> Inl e | Inr p \<Rightarrow> Inr (job_of p r))"

definition SQLite_SaveJob :: "job \<Rightarrow> world \<Rightarrow> unit result \<times> world" where
  "SQLite_SaveJob j w =
     (case marshalPayload (Payload j) of
        Inl e \<Rightarrow> (Inl e, w)
      | Inr t \<Rightarrow>
          (case sql_insert sqlite_check
              \<lparr>c_id = ID j, c_job_type = JobType j, c_payload = t, c_queue_type = QueueType j,
               c_priority = Priority j, c_status = Status j, c_retry_count = RetryCount j,
               c_max_retries = MaxRetries j, c_created_at = CreatedAt j, c_updated_at = UpdatedAt j,
               c_processed_at = None, c_error_message = None\<rparr> w of
             (Inl e, w1) \<Rightarrow> (Inl (Wrap ''failed to save job'' e), w1)
           | (Inr _, w1) \<Rightarrow> (Inr (), w1)))"

definition SQLite_GetJob :: "string \<Rightarrow> world \<Rightarrow> job option result \<times> world" where
  "SQLite_GetJob i w =
     (case query_row scanJob i w of
        (Inl e, w1) \<Rightarrow> (Inl (Wrap ''failed to get job'' e), w1)
      | (Inr oj, w1) \<Rightarrow> (Inr oj, w1))"

definition SQLite_UpdateJobStatus :: "string \<Rightarrow> string \<Rightarrow> string \<Rightarrow> world \<Rightarrow> unit result \<times> world" where
  "SQLite_UpdateJobStatus i status errMsg w =
     (case SQLite_GetJob i w of
        (Inl e, w1) \<Rightarrow> (Inl (Wrap ''failed to load job for status update'' e), w1)
      | (Inr None, w1) \<Rightarrow> (Inl (Err (''job '' @ i @ '' not found'')), w1)
      | (Inr (Some j), w1) \<Rightarrow>
          let now = clock w1 in
          (case sql_update sqlite_check (\<lambda>r. c_id r = i)
              (set_status now status errMsg) w1 of
             (Inl e, w2) \<Rightarrow> (Inl (Wrap ''failed to update job status'' e), w2)
           | (Inr _, w2) \<Rightarrow> (Inr (), w2\<lparr>metrics := count_status status (QueueType j) (metrics w2)\<rparr>)))"

definition SQLite_queryJobs :: "(row list \<Rightarrow> row list) \<Rightarrow> world \<Rightarrow> (job list \<times> error option) \<times> world" where
  "SQLite_queryJobs = query_jobs scanJob"

definition SQLite_ListPendingJobs :: "world \<Rightarrow> (job list \<times> error option) \<times> world" where
  "SQLite_ListPendingJobs =
     SQLite_queryJobs (\<lambda>rs. by_priority (filter (\<lambda>r. c_status r = ''pending'' \<or> c_status r = ''processing'') rs))"

definition SQLite_Close :: "world \<Rightarrow> unit result \<times> world" where
  "SQLite_Close w = (Inr (), w\<lparr>db_closed := True\<rparr>)"

text \<open>In SQLite a negative \<open>LIMIT\<close> is no limit.\<close>

definition SQLite_ListRecentJobs :: "int \<Rightarrow> world \<Rightarrow> (job list \<times> error option) \<times> world" where
  "SQLite_ListRecentJobs limit =
     SQLite_queryJobs (\<lambda>rs. (if limit < 0 then by_created_desc rs else take (nat limit) (by_created_desc rs)))"

definition SQLite_GetProcessingJobs :: "world \<Rightarrow> (job list \<times> error option) \<times> world" where
  "SQLite_GetProcessingJobs = SQLite_queryJobs (\<lambda>rs. by_created (filter (\<lambda>r. c_status r = ''processing'') rs))"

definition SQLite_ListAllPendingJobs :: "world \<Rightarrow> (job list \<times> error option) \<times> world" where
  "SQLite_ListAllPendingJobs = SQLite_queryJobs (\<lambda>rs. by_priority (filter (\<lambda>r. c_status r = ''pending'') rs))"

definition SQLite_ListPendingByQueue :: "string \<Rightarrow> world \<Rightarrow> (job list \<times> error option) \<times> world" where
  "SQLite_ListPendingByQueue queueType =
     SQLite_queryJobs (\<lambda>rs. by_priority (filter (\<lambda>r. c_status r = ''pending'' \<and> c_queue_type r = queueType) rs))"

definition SQLite_ListProcessingByQueue :: "string \<Rightarrow> world \<Rightarrow> (job list \<times> error option) \<times> world" where
  "SQLite_ListProcessingByQueue queueType =
     SQLite_queryJobs (\<lambda>rs. by_created (filter (\<lambda>r. c_status r = ''processing'' \<and> c_queue_type r = queueType) rs))"

definition SQLite_UpdateJobRetry ::
  "string \<Rightarrow> string \<Rightarrow> int \<Rightarrow> string \<Rightarrow> world \<Rightarrow> unit result \<times> world" where
  "SQLite_UpdateJobRetry i status retryCount errMsg w =
     (case SQLite_GetJob i w of
        (Inl e, w1) \<Rightarrow> (Inl (Wrap ''failed to load job for retry update'' e), w1)
      | (Inr None, w1) \<Rightarrow> (Inl (Err (''job '' @ i @ '' not found'')), w1)
      | (Inr (Some j), w1) \<Rightarrow>
          let now = clock w1 in
          (case sql_update sqlite_check (\<lambda>r. c_id r = i)
              (set_retry now status retryCount errMsg) w1 of
             (Inl e, w2) \<Rightarrow> (Inl (Wrap ''failed to update job retry'' e), w2)
           | (Inr _, w2) \<Rightarrow> (Inr (), w2\<lparr>metrics := count_retry status (QueueType j) (metrics w2)\<rparr>)))"

definition SQLite_Requeue :: "string \<Rightarrow> world \<Rightarrow> unit result \<times> world" where
  "SQLite_Requeue i w =
     (let now = clock w in
      case sql_update sqlite_check (\<lambda>r. c_id r = i)
          (set_requeue now) w of
        (Inl e, w1) \<Rightarrow> (Inl (Wrap ''failed to requeue job'' e), w1)
      | (Inr _, w1) \<Rightarrow> (Inr (), w1))"

definition sqlite_set_reset :: "int \<Rightarrow> int \<Rightarrow> row \<Rightarrow> row" where
  "sqlite_set_reset now extraRetries r = r\<lparr>c_status := ''pending'', c_retry_count := 0,
     c_max_retries := c_max_retries r + extraRetries, c_error_message := Some '''', c_updated_at := now\<rparr>"

definition SQLite_ResetForRetry :: "string \<Rightarrow> int \<Rightarrow> world \<Rightarrow> unit result \<times> world" where
  "SQLite_ResetForRetry i extraRetries w =
     (let now = clock w in
      case sql_update sqlite_check (\<lambda>r. c_id r = i \<and> c_status r = ''failed'')
          (sqlite_set_reset now extraRetries) w of
        (Inl e, w1) \<Rightarrow> (Inl (Wrap ''failed to reset job for retry'' e), w1)
      | (Inr n, w1) \<Rightarrow>
          if n = 0 then (Inl (Err ''job not found or not in failed state''), w1) else (Inr (), w1))"

text \<open>The grouped count, delivered row by row; \<open>rows.Err()\<close> reports an early end, and a nil map is empty.\<close>

definition SQLite_CountByQueueAndStatus ::
  "world \<Rightarrow> (counts \<times> error option) \<times> world" where
  "SQLite_CountByQueueAndStatus w =
     (case stmt w of
        (Fail e, w1) \<Rightarrow> ((Map.empty, Some (Wrap ''failed to count jobs'' e)), w1)
      | (Cut n e, w1) \<Rightarrow>
          ((collect_counts (take n (group_count (\<lambda>r. (c_queue_type r, c_status r)) (table w1))) Map.empty, Some e), w1)
      | (Ok, w1) \<Rightarrow>
          ((collect_counts (group_count (\<lambda>r. (c_queue_type r, c_status r)) (table w1)) Map.empty, None), w1))"

definition SQLiteStorage :: storage where
  "SQLiteStorage = \<lparr>SaveJob = SQLite_SaveJob, GetJob = SQLite_GetJob,
     UpdateJobStatus = SQLite_UpdateJobStatus, ListPendingJobs = SQLite_ListPendingJobs,
     CloseStorage = SQLite_Close, ListRecentJobs = SQLite_ListRecentJobs,
     GetProcessingJobs = SQLite_GetProcessingJobs, ListAllPendingJobs = SQLite_ListAllPendingJobs,
     UpdateJobRetry = SQLite_UpdateJobRetry, Requeue = SQLite_Requeue,
     ListPendingByQueue = SQLite_ListPendingByQueue,
     ListProcessingByQueue = SQLite_ListProcessingByQueue, ResetForRetry = SQLite_ResetForRetry,
     CountByQueueAndStatus = SQLite_CountByQueueAndStatus\<rparr>"

lemma SQLiteStorage_simps [simp]:
  "SaveJob SQLiteStorage = SQLite_SaveJob" "GetJob SQLiteStorage = SQLite_GetJob"
  "UpdateJobStatus SQLiteStorage = SQLite_UpdateJobStatus"
  "ListPendingJobs SQLiteStorage = SQLite_ListPendingJobs"
  "UpdateJobRetry SQLiteStorage = SQLite_UpdateJobRetry" "Requeue SQLiteStorage = SQLite_Requeue"
  "ResetForRetry SQLiteStorage = SQLite_ResetForRetry"
  by (simp_all add: SQLiteStorage_def)

section \<open>Scanning and the view\<close>

interpretation sqlite_scan: row_scanner scanJob unmarshalPayload
  by unfold_locales (simp_all add: scanJob_def unmarshalPayload_def)

definition sqlite_view :: "world \<Rightarrow> jobmap" where
  "sqlite_view = view_of scanJob"

definition sqlite_inv :: "world \<Rightarrow> bool" where
  "sqlite_inv w = table_inv sqlite_check (table w)"

text \<open>A nil payload is written as the empty object.\<close>

definition sqlite_norm :: "payload \<Rightarrow> payload" where
  "sqlite_norm p = (case p of None \<Rightarrow> Some [] | Some kvs \<Rightarrow> Some kvs)"

lemma marshalPayload_decodes: "marshalPayload p = Inr t \<Longrightarrow> decodes (r\<lparr>c_payload := t\<rparr>)"
  by (auto simp: marshalPayload_def json_Marshal_def decodes_def split: option.splits if_splits)

lemma unmarshal_marshalPayload: "marshalPayload p = Inr t \<Longrightarrow> unmarshalPayload t = Inr (sqlite_norm p)"
  by (auto simp: marshalPayload_def json_Marshal_def unmarshalPayload_def sqlite_norm_def
      split: option.splits if_splits)

lemma marshalPayload_ok: "jsonable (payload_val p) \<Longrightarrow> \<exists>t. marshalPayload p = Inr t"
  by (cases p) (auto simp: marshalPayload_def json_Marshal_def payload_val_def)

section \<open>Laws\<close>

lemma sqlite_get_ok: "healthy w \<Longrightarrow> sqlite_inv w \<Longrightarrow> SQLite_GetJob i w = (Inr (sqlite_view w i), w)"
  by (simp add: SQLite_GetJob_def sqlite_inv_def sqlite_view_def sqlite_scan.query_row_ok)

lemma SQLite_GetJob_frame [frame]:
  "table (snd (SQLite_GetJob i w)) = table w" "clock (snd (SQLite_GetJob i w)) = clock w"
  using sql_select_frame [of "filter (\<lambda>r. c_id r = i)" w]
  by (auto simp: SQLite_GetJob_def query_row_def split: prod.splits sum.splits option.splits list.splits)

lemma sqlite_pending_ok:
  assumes "healthy w" "sqlite_inv w"
  shows "\<exists>js. SQLite_ListPendingJobs w = ((js, None), w) \<and>
    set js = {j. (\<exists>i. sqlite_view w i = Some j) \<and> active j} \<and> distinct (map ID js) \<and>
    sorted_wrt job_before js"
proof -
  let ?P = "\<lambda>r. c_status r = ''pending'' \<or> c_status r = ''processing''"
  let ?js = "map (projr \<circ> scanJob) (by_priority (filter ?P (table w)))"
  from assms(2) have inv: "table_inv sqlite_check (table w)" by (simp add: sqlite_inv_def)
  have "SQLite_ListPendingJobs w = ((?js, None), w)"
    unfolding SQLite_ListPendingJobs_def SQLite_queryJobs_def
    by (rule sqlite_scan.query_jobs_ok [OF assms(1) inv]) (auto simp: by_priority_def)
  moreover have "set ?js = {j. (\<exists>i. sqlite_view w i = Some j) \<and> active j}"
    unfolding by_priority_def sqlite_view_def
    by (rule sqlite_scan.listed_set [OF inv]) (auto simp: active_def status_defs)
  moreover have "distinct (map ID ?js)"
    unfolding by_priority_def by (rule sqlite_scan.listed_ids [OF inv])
  moreover have "sorted_wrt job_before ?js" by (rule sqlite_scan.listed_sorted [OF inv])
  ultimately show ?thesis by blast
qed

lemma sqlite_save_ok:
  assumes "healthy w" "sqlite_inv w" "sqlite_view w (ID j) = None" "valid_status (Status j)"
    "jsonable (payload_val (Payload j))"
  shows "\<exists>w'. SQLite_SaveJob j w = (Inr (), w') \<and> healthy w' \<and> clock w' = clock w \<and>
    metrics w' = metrics w \<and> sqlite_view w' = spec_save sqlite_norm j (sqlite_view w)"
proof -
  obtain t where t: "marshalPayload (Payload j) = Inr t" using marshalPayload_ok [OF assms(5)] by blast
  define r where "r = \<lparr>c_id = ID j, c_job_type = JobType j, c_payload = t, c_queue_type = QueueType j,
    c_priority = Priority j, c_status = Status j, c_retry_count = RetryCount j,
    c_max_retries = MaxRetries j, c_created_at = CreatedAt j, c_updated_at = UpdatedAt j,
    c_processed_at = None, c_error_message = None\<rparr>"
  from assms(2,3) have n: "find_row (c_id r) (table w) = None"
    by (simp add: r_def sqlite_inv_def sqlite_view_def sqlite_scan.view_None_iff)
  have ins: "sql_insert sqlite_check r w = (Inr (), w\<lparr>table := table w @ [r]\<rparr>)"
    by (rule sql_insert_ok) (use assms n in \<open>auto simp: r_def sqlite_check_def\<close>)
  have sc: "scanJob r = Inr (stored sqlite_norm j)"
    by (simp add: scanJob_def r_def job_of_def stored_def unmarshal_marshalPayload [OF t])
  have "SQLite_SaveJob j w = (Inr (), w\<lparr>table := table w @ [r]\<rparr>)"
    using ins by (simp add: SQLite_SaveJob_def t r_def)
  moreover have "sqlite_view (w\<lparr>table := table w @ [r]\<rparr>) = spec_save sqlite_norm j (sqlite_view w)"
    unfolding sqlite_view_def sqlite_scan.view_insert [OF n] spec_save_def by (simp add: sc) (simp add: r_def)
  ultimately show ?thesis using assms(1) by simp
qed

lemma sqlite_save_dup:
  assumes "healthy w" "sqlite_inv w" "sqlite_view w (ID j) \<noteq> None"
  shows "\<exists>e. SQLite_SaveJob j w = (Inl e, w)"
proof (cases "marshalPayload (Payload j)")
  case (Inr t)
  from assms(2,3) have "find_row (ID j) (table w) \<noteq> None"
    by (simp add: sqlite_inv_def sqlite_view_def sqlite_scan.view_None_iff)
  with assms(1) Inr show ?thesis by (simp add: SQLite_SaveJob_def sql_insert_dup)
qed (simp add: SQLite_SaveJob_def)

lemma sqlite_set_reset [simp]:
  "keeps (sqlite_set_reset now n)"
  "job_of p (sqlite_set_reset now n r) = (job_of p r)\<lparr>Status := StatusPending,
     RetryCount := (\<lambda>_. 0) (RetryCount (job_of p r)), MaxRetries := MaxRetries (job_of p r) + n,
     ErrorMessage := '''', UpdatedAt := now\<rparr>"
  by (simp_all add: keeps_def sqlite_set_reset_def job_of_def status_defs)

lemma sqlite_status_ok:
  assumes "healthy w" "sqlite_inv w" "sqlite_view w i = Some j" "valid_status st"
  shows "\<exists>w'. SQLite_UpdateJobStatus i st msg w = (Inr (), w') \<and> healthy w' \<and> clock w' = clock w \<and>
    metrics w' = count_status st (QueueType j) (metrics w) \<and>
    sqlite_view w' = spec_status (clock w) i st msg (sqlite_view w)"
  by (rule sqlite_scan.update_by_id [where ok = sqlite_check and w = w and i = i and
        g = "with_status (clock w) st msg" and f = "set_status (clock w) st msg"])
    (use assms in \<open>auto simp: SQLite_UpdateJobStatus_def sqlite_get_ok Let_def sqlite_view_def spec_status_def
      sqlite_inv_def sqlite_check_def job_of_set\<close>)

lemma sqlite_retry_ok:
  assumes "healthy w" "sqlite_inv w" "sqlite_view w i = Some j" "valid_status st"
  shows "\<exists>w'. SQLite_UpdateJobRetry i st n msg w = (Inr (), w') \<and> healthy w' \<and> clock w' = clock w \<and>
    metrics w' = count_retry st (QueueType j) (metrics w) \<and>
    sqlite_view w' = spec_retry (clock w) i st n msg (sqlite_view w)"
  by (rule sqlite_scan.update_by_id [where ok = sqlite_check and w = w and i = i and
        g = "\<lambda>j. (with_status (clock w) st msg j)\<lparr>RetryCount := n\<rparr>" and f = "set_retry (clock w) st n msg"])
    (use assms in \<open>auto simp: SQLite_UpdateJobRetry_def sqlite_get_ok Let_def sqlite_view_def spec_retry_def
      sqlite_inv_def sqlite_check_def job_of_set\<close>)

lemma sqlite_requeue_ok:
  assumes "healthy w" "sqlite_inv w"
  shows "\<exists>w'. SQLite_Requeue i w = (Inr (), w') \<and> healthy w' \<and> clock w' = clock w \<and>
    metrics w' = metrics w \<and> sqlite_view w' = spec_requeue (clock w) i (sqlite_view w)"
  by (rule sqlite_scan.update_by_id [where ok = sqlite_check and w = w and i = i and
        g = "\<lambda>j. j\<lparr>Status := StatusPending, UpdatedAt := clock w\<rparr>" and f = "set_requeue (clock w)"])
    (use assms in \<open>auto simp: SQLite_Requeue_def Let_def sqlite_view_def spec_requeue_def
      sqlite_inv_def sqlite_check_def valid_status_def job_of_set\<close>)

lemma sqlite_reset_ok:
  assumes h: "healthy w" and inv: "sqlite_inv w" and v: "sqlite_view w i = Some j"
    and st: "Status j = StatusFailed"
  shows "\<exists>w'. SQLite_ResetForRetry i n w = (Inr (), w') \<and> healthy w' \<and> clock w' = clock w \<and>
    metrics w' = metrics w \<and> sqlite_view w' = spec_reset (\<lambda>_. 0) (clock w) i n (sqlite_view w)"
  by (rule sqlite_scan.update_guarded [where ok = sqlite_check and w = w and i = i and s = "''failed''" and
        g = "\<lambda>j. j\<lparr>Status := StatusPending, RetryCount := (\<lambda>_. 0) (RetryCount j), MaxRetries := MaxRetries j + n,
          ErrorMessage := '''', UpdatedAt := clock w\<rparr>" and f = "sqlite_set_reset (clock w) n",
        OF h inv [unfolded sqlite_inv_def] v [unfolded sqlite_view_def] st [unfolded status_defs]])
    (use assms in \<open>auto simp: SQLite_ResetForRetry_def Let_def sqlite_view_def spec_reset_def
      sqlite_check_def valid_status_def sqlite_set_reset_def job_of_def status_defs\<close>)

lemma sqlite_reset_refused:
  assumes "healthy w" "sqlite_inv w" "\<And>j. sqlite_view w i = Some j \<Longrightarrow> Status j \<noteq> StatusFailed"
  shows "SQLite_ResetForRetry i n w = (Inl (Err ''job not found or not in failed state''), w)"
  using assms by (simp add: SQLite_ResetForRetry_def sqlite_inv_def sqlite_view_def status_defs
      sqlite_scan.update_guarded_none)

lemma SQLite_GetJob_eq: "SQLite_GetJob i w = (x, w1) \<Longrightarrow> table w1 = table w \<and> clock w1 = clock w"
  using SQLite_GetJob_frame [of i w] by simp

lemma sqlite_missing:
  assumes "healthy w" "sqlite_inv w" "sqlite_view w i = None"
  shows "SQLite_UpdateJobStatus i st msg w = (Inl (Err (''job '' @ i @ '' not found'')), w)"
    and "SQLite_UpdateJobRetry i st n msg w = (Inl (Err (''job '' @ i @ '' not found'')), w)"
  using assms by (simp_all add: SQLite_UpdateJobStatus_def SQLite_UpdateJobRetry_def sqlite_get_ok)

lemma sqlite_save_effect:
  assumes "SQLite_SaveJob j w = (Inr (), w')"
  shows "sqlite_view w' = spec_save sqlite_norm j (sqlite_view w)"
proof -
  from assms obtain t r where t: "marshalPayload (Payload j) = Inr t" and
    r: "r = \<lparr>c_id = ID j, c_job_type = JobType j, c_payload = t, c_queue_type = QueueType j,
      c_priority = Priority j, c_status = Status j, c_retry_count = RetryCount j,
      c_max_retries = MaxRetries j, c_created_at = CreatedAt j, c_updated_at = UpdatedAt j,
      c_processed_at = None, c_error_message = None\<rparr>" and i: "sql_insert sqlite_check r w = (Inr (), w')"
    by (auto simp: SQLite_SaveJob_def split: sum.splits prod.splits)
  have "scanJob r = Inr (stored sqlite_norm j)"
    by (simp add: scanJob_def r job_of_def stored_def unmarshal_marshalPayload [OF t])
  with sqlite_scan.effect_insert [OF i] show ?thesis
    by (simp add: sqlite_view_def spec_save_def r)
qed

lemma sqlite_save_fresh:
  assumes "sqlite_inv w" "SQLite_SaveJob j w = (Inr (), w')"
  shows "sqlite_view w (ID j) = None"
proof -
  from assms(2) have "find_row (ID j) (table w) = None"
    by (auto simp: SQLite_SaveJob_def split: sum.splits prod.splits dest!: sql_Inr_table(2))
  with assms(1) show ?thesis by (simp add: sqlite_inv_def sqlite_view_def sqlite_scan.view_None_iff)
qed

lemma sqlite_get_sound: "sqlite_inv w \<Longrightarrow> SQLite_GetJob i w = (Inr (Some j), w') \<Longrightarrow> sqlite_view w i = Some j"
  unfolding SQLite_GetJob_def sqlite_inv_def sqlite_view_def
  by (auto split: prod.splits sum.splits dest: sqlite_scan.query_row_sound)

lemma sqlite_pending_sound:
  "sqlite_inv w \<Longrightarrow> SQLite_ListPendingJobs w = ((js, None), w') \<Longrightarrow> j \<in> set js \<Longrightarrow>
   sqlite_view w (ID j) = Some j \<and> active j"
  unfolding SQLite_ListPendingJobs_def SQLite_queryJobs_def by_priority_def sqlite_inv_def sqlite_view_def
  by (drule (2) sqlite_scan.query_jobs_sound) (auto simp: active_def status_defs)

lemma sqlite_view_GetJob: "SQLite_GetJob i w = (x, w1) \<Longrightarrow> sqlite_view w1 = sqlite_view w \<and> clock w1 = clock w"
  unfolding sqlite_view_def using view_of_cong [of w1 w] SQLite_GetJob_eq [of i w x w1] by simp

lemma sqlite_status_effect:
  assumes "SQLite_UpdateJobStatus i st msg w = (Inr (), w')"
  shows "sqlite_view w' = spec_status (clock w) i st msg (sqlite_view w)"
proof -
  from assms obtain j w1 n w2 where g: "SQLite_GetJob i w = (Inr (Some j), w1)"
    and u: "sql_update sqlite_check (\<lambda>r. c_id r = i) (set_status (clock w1) st msg) w1 = (Inr n, w2)"
    and w': "w' = w2\<lparr>metrics := count_status st (QueueType j) (metrics w2)\<rparr>"
    by (auto simp: SQLite_UpdateJobStatus_def Let_def split: sum.splits prod.splits option.splits)
  show ?thesis
    using sqlite_scan.effect_by_id [OF u keeps_set(1) job_of_set(1)] sqlite_view_GetJob [OF g]
    by (simp add: w' sqlite_view_def spec_status_def)
qed

lemma sqlite_retry_effect:
  assumes "SQLite_UpdateJobRetry i st k msg w = (Inr (), w')"
  shows "sqlite_view w' = spec_retry (clock w) i st k msg (sqlite_view w)"
proof -
  from assms obtain j w1 n w2 where g: "SQLite_GetJob i w = (Inr (Some j), w1)"
    and u: "sql_update sqlite_check (\<lambda>r. c_id r = i) (set_retry (clock w1) st k msg) w1 = (Inr n, w2)"
    and w': "w' = w2\<lparr>metrics := count_retry st (QueueType j) (metrics w2)\<rparr>"
    by (auto simp: SQLite_UpdateJobRetry_def Let_def split: sum.splits prod.splits option.splits)
  show ?thesis
    using sqlite_scan.effect_by_id [OF u keeps_set(2) job_of_set(2)] sqlite_view_GetJob [OF g]
    by (simp add: w' sqlite_view_def spec_retry_def)
qed

lemma sqlite_requeue_effect:
  assumes "SQLite_Requeue i w = (Inr (), w')"
  shows "sqlite_view w' = spec_requeue (clock w) i (sqlite_view w)"
proof -
  from assms obtain n where
    u: "sql_update sqlite_check (\<lambda>r. c_id r = i) (set_requeue (clock w)) w = (Inr n, w')"
    by (auto simp: SQLite_Requeue_def Let_def split: sum.splits prod.splits)
  show ?thesis
    using sqlite_scan.effect_by_id [OF u keeps_set(3) job_of_set(3)] by (simp add: sqlite_view_def spec_requeue_def)
qed

lemma sqlite_reset_effect:
  assumes "sqlite_inv w" "SQLite_ResetForRetry i k w = (Inr (), w')"
  shows "sqlite_view w' = spec_reset (\<lambda>_. 0) (clock w) i k (sqlite_view w)"
proof -
  from assms(2) obtain n where "n \<noteq> 0"
    "sql_update sqlite_check (\<lambda>r. c_id r = i \<and> c_status r = ''failed'') (sqlite_set_reset (clock w) k) w = (Inr n, w')"
    by (auto simp: SQLite_ResetForRetry_def Let_def split: sum.splits prod.splits if_splits)
  from sqlite_scan.effect_guarded [OF this(2,1) assms(1) [unfolded sqlite_inv_def] sqlite_set_reset] show ?thesis
    by (simp add: sqlite_view_def spec_reset_def)
qed

lemma sqlite_inv_kept:
  assumes "sqlite_inv w"
  shows "sqlite_inv (snd (SQLite_SaveJob j w))" "sqlite_inv (snd (SQLite_UpdateJobStatus i st msg w))"
    "sqlite_inv (snd (SQLite_UpdateJobRetry i st n msg w))" "sqlite_inv (snd (SQLite_Requeue i w))"
    "sqlite_inv (snd (SQLite_ResetForRetry i n w))"
proof -
  have "decodes \<lparr>c_id = a, c_job_type = b, c_payload = t, c_queue_type = c, c_priority = d, c_status = e,
      c_retry_count = f, c_max_retries = g, c_created_at = h, c_updated_at = k, c_processed_at = l,
      c_error_message = m\<rparr>" if "marshalPayload p = Inr t" for p t a b c d e f g h k l m
    using marshalPayload_decodes [OF that] by (simp add: decodes_def)
  then show "sqlite_inv (snd (SQLite_SaveJob j w))"
    using assms by (auto simp: SQLite_SaveJob_def sqlite_inv_def split: sum.splits prod.splits
        dest!: sql_insert_eq(4))
  show "sqlite_inv (snd (SQLite_UpdateJobStatus i st msg w))"
    using assms by (auto simp: SQLite_UpdateJobStatus_def sqlite_inv_def Let_def
        split: sum.splits prod.splits option.splits dest!: SQLite_GetJob_eq sql_update_eq(4))
  show "sqlite_inv (snd (SQLite_UpdateJobRetry i st n msg w))"
    using assms by (auto simp: SQLite_UpdateJobRetry_def sqlite_inv_def Let_def
        split: sum.splits prod.splits option.splits dest!: SQLite_GetJob_eq sql_update_eq(4))
  show "sqlite_inv (snd (SQLite_Requeue i w))"
    using assms by (auto simp: SQLite_Requeue_def sqlite_inv_def
        split: sum.splits prod.splits dest!: sql_update_eq(4))
  show "sqlite_inv (snd (SQLite_ResetForRetry i n w))"
    using assms by (auto simp: SQLite_ResetForRetry_def sqlite_inv_def
        split: sum.splits prod.splits dest!: sql_update_eq(4))
qed

lemma sqlite_fail_atomic:
  "fst (SQLite_SaveJob j w) = Inl e \<Longrightarrow> table (snd (SQLite_SaveJob j w)) = table w"
  "fst (SQLite_UpdateJobStatus i st msg w) = Inl e \<Longrightarrow> table (snd (SQLite_UpdateJobStatus i st msg w)) = table w"
  "fst (SQLite_UpdateJobRetry i st n msg w) = Inl e \<Longrightarrow> table (snd (SQLite_UpdateJobRetry i st n msg w)) = table w"
  "fst (SQLite_Requeue i w) = Inl e \<Longrightarrow> table (snd (SQLite_Requeue i w)) = table w"
  by (auto simp: SQLite_SaveJob_def SQLite_UpdateJobStatus_def SQLite_UpdateJobRetry_def
      SQLite_Requeue_def Let_def split: sum.splits prod.splits option.splits
      dest!: SQLite_GetJob_eq sql_Inl_frame)

lemma sqlite_clock_kept:
  "clock (snd (SQLite_SaveJob j w)) = clock w"
  "clock (snd (SQLite_UpdateJobStatus i st msg w)) = clock w"
  "clock (snd (SQLite_UpdateJobRetry i st n msg w)) = clock w"
  "clock (snd (SQLite_Requeue i w)) = clock w"
  "clock (snd (SQLite_ResetForRetry i n w)) = clock w"
  by (auto simp: SQLite_SaveJob_def SQLite_UpdateJobStatus_def SQLite_UpdateJobRetry_def
      SQLite_Requeue_def SQLite_ResetForRetry_def Let_def split: sum.splits prod.splits option.splits
      dest!: SQLite_GetJob_eq sql_update_eq(1) sql_insert_eq(1))

lemma sqlite_reset_atomic:
  "fst (SQLite_ResetForRetry i n w) = Inl e \<Longrightarrow> table (snd (SQLite_ResetForRetry i n w)) = table w"
  by (auto simp: SQLite_ResetForRetry_def split: sum.splits prod.splits if_splits
      dest!: sql_Inl_frame sql_update_zero)

lemma SQLite_ListPendingJobs_frame [frame]:
  "table (snd (SQLite_ListPendingJobs w)) = table w" "clock (snd (SQLite_ListPendingJobs w)) = clock w"
  by (auto simp: SQLite_ListPendingJobs_def SQLite_queryJobs_def query_jobs_def sql_select_def
      dest!: stmt_eq_table split: sum.splits prod.splits answer.splits)

lemma sqlite_view_row:
  assumes "sqlite_inv w" "sqlite_view w i = Some j"
  shows "ID j = i" "valid_status (Status j)"
proof -
  obtain r p where "j = job_of p r" "c_id r = i" "sqlite_check r"
    using sqlite_scan.view_SomeD [OF assms [unfolded sqlite_inv_def sqlite_view_def]] by metis
  then show "ID j = i" "valid_status (Status j)" by (simp_all add: sqlite_check_def)
qed

interpretation sqlite: storage_contract sqlite_view sqlite_inv SQLiteStorage "\<lambda>_. True" sqlite_norm "\<lambda>_. 0"
proof (unfold_locales, unfold SQLiteStorage_simps, goal_cases)
  case (1 w' w) then show ?case unfolding sqlite_view_def by (rule view_of_cong)
next
  case (2 w' w) then show ?case by (simp add: sqlite_inv_def)
next
  case (6 w) then show ?case by (rule sqlite_pending_ok)
next
  case (11 w j)
  then show ?case using sqlite_save_ok [of w j] sqlite_inv_kept(1) [of w j] by auto
next
  case (12 w j) then show ?case by (rule sqlite_save_dup)
next
  case (13 w i j st msg)
  then show ?case using sqlite_status_ok [of w i j st msg] sqlite_inv_kept(2) [of w i st msg] by auto
next
  case (15 w i j st n msg)
  then show ?case using sqlite_retry_ok [of w i j st n msg] sqlite_inv_kept(3) [of w i st n msg] by auto
next
  case (17 w i)
  then show ?case using sqlite_requeue_ok [of w i] sqlite_inv_kept(4) [of w i] by auto
next
  case (18 w i j n)
  then show ?case using sqlite_reset_ok [of w i j n] sqlite_inv_kept(5) [of w i n] by auto
next
  case (19 w i n) then show ?case by (intro sqlite_reset_refused)
next
  case (20 w j w') then show ?case by (intro sqlite_save_effect)
next
  case (21 w i st msg w') then show ?case by (intro sqlite_status_effect)
next
  case (22 w i st n msg w') then show ?case by (intro sqlite_retry_effect)
next
  case (23 w i w') then show ?case by (intro sqlite_requeue_effect)
next
  case (24 w i n w') then show ?case by (intro sqlite_reset_effect)
next
  case (40 w j w') then show ?case by (intro sqlite_save_fresh)
next
  case (41 w i j w') then show ?case by (intro sqlite_get_sound)
next
  case (42 w js w' j) then show ?case by (intro sqlite_pending_sound)
qed (simp_all add: sqlite_view_row sqlite_get_ok sqlite_missing sqlite_inv_kept sqlite_fail_atomic
      sqlite_reset_atomic sqlite_clock_kept frame)

end
