(* ===== verification/Storage_Postgres.thy ===== *)
theory Storage_Postgres
  imports Storage_Interface
begin

text \<open>
  The PostgreSQL backend, \<open>internal/storage/postgres.go\<close>: one definition per method, the method
  table \<open>PostgresStorage\<close>, and the proof that it meets \<open>storage_contract\<close>. The differences from the
  SQLite backend are those of the source: the payload goes through \<open>json.Marshal\<close> even when it is
  nil, the \<open>INTEGER\<close> columns hold 32 bits, a negative \<open>LIMIT\<close> is an error, and \<open>ResetForRetry\<close>
  leaves \<open>retry_count\<close> as it is.
\<close>

section \<open>Definitions\<close>

text \<open>The \<open>CHECK\<close> and the integer columns of the schema in \<open>pgMigrate\<close>.\<close>

definition pg_check :: "row \<Rightarrow> bool" where
  "pg_check r \<longleftrightarrow> valid_status (c_status r) \<and> int32 (c_priority r) \<and> int32 (c_retry_count r) \<and>
     int32 (c_max_retries r)"

definition pgMarshal :: "payload \<Rightarrow> json_text result" where
  "pgMarshal p =
     (case json_Marshal (payload_val p) of
        Inl e \<Rightarrow> Inl (Wrap ''failed to marshal payload'' e)
      | Inr t \<Rightarrow> Inr t)"

definition pgUnmarshal :: "json_text \<Rightarrow> payload result" where
  "pgUnmarshal t =
     (if t = JEmpty then Inr None
      else case json_Unmarshal_map t of
             Inl e \<Rightarrow> Inl (Wrap ''failed to unmarshal payload'' e)
           | Inr m \<Rightarrow> Inr m)"

definition pgScanJob :: "row \<Rightarrow> job result" where
  "pgScanJob r = (case pgUnmarshal (c_payload r) of Inl e \<Rightarrow> Inl e | Inr p \<Rightarrow> Inr (job_of p r))"

definition Postgres_SaveJob :: "job \<Rightarrow> world \<Rightarrow> unit result \<times> world" where
  "Postgres_SaveJob j w =
     (case pgMarshal (Payload j) of
        Inl e \<Rightarrow> (Inl e, w)
      | Inr t \<Rightarrow>
          (case sql_insert pg_check
              \<lparr>c_id = ID j, c_job_type = JobType j, c_payload = t, c_queue_type = QueueType j,
               c_priority = Priority j, c_status = Status j, c_retry_count = RetryCount j,
               c_max_retries = MaxRetries j, c_created_at = CreatedAt j, c_updated_at = UpdatedAt j,
               c_processed_at = None, c_error_message = None\<rparr> w of
             (Inl e, w1) \<Rightarrow> (Inl (Wrap ''failed to save job'' e), w1)
           | (Inr _, w1) \<Rightarrow> (Inr (), w1)))"

definition Postgres_GetJob :: "string \<Rightarrow> world \<Rightarrow> job option result \<times> world" where
  "Postgres_GetJob i w =
     (case query_row pgScanJob i w of
        (Inl e, w1) \<Rightarrow> (Inl (Wrap ''failed to get job'' e), w1)
      | (Inr oj, w1) \<Rightarrow> (Inr oj, w1))"

definition Postgres_UpdateJobStatus :: "string \<Rightarrow> string \<Rightarrow> string \<Rightarrow> world \<Rightarrow> unit result \<times> world" where
  "Postgres_UpdateJobStatus i status errMsg w =
     (case Postgres_GetJob i w of
        (Inl e, w1) \<Rightarrow> (Inl (Wrap ''failed to load job for status update'' e), w1)
      | (Inr None, w1) \<Rightarrow> (Inl (Err (''job '' @ i @ '' not found'')), w1)
      | (Inr (Some j), w1) \<Rightarrow>
          let now = clock w1 in
          (case sql_update pg_check (\<lambda>r. c_id r = i)
              (set_status now status errMsg) w1 of
             (Inl e, w2) \<Rightarrow> (Inl (Wrap ''failed to update job status'' e), w2)
           | (Inr _, w2) \<Rightarrow> (Inr (), w2\<lparr>metrics := count_status status (QueueType j) (metrics w2)\<rparr>)))"

definition pgQueryJobs :: "(row list \<Rightarrow> row list) \<Rightarrow> world \<Rightarrow> (job list \<times> error option) \<times> world" where
  "pgQueryJobs = query_jobs pgScanJob"

definition Postgres_ListPendingJobs :: "world \<Rightarrow> (job list \<times> error option) \<times> world" where
  "Postgres_ListPendingJobs =
     pgQueryJobs (\<lambda>rs. by_priority (filter (\<lambda>r. c_status r = ''pending'' \<or> c_status r = ''processing'') rs))"

definition Postgres_Close :: "world \<Rightarrow> unit result \<times> world" where
  "Postgres_Close w = (Inr (), w\<lparr>db_closed := True\<rparr>)"

text \<open>PostgreSQL rejects a negative \<open>LIMIT\<close>.\<close>

definition Postgres_ListRecentJobs :: "int \<Rightarrow> world \<Rightarrow> (job list \<times> error option) \<times> world" where
  "Postgres_ListRecentJobs limit w =
     (if limit < 0 then
        (case stmt w of
           (Fail e, w1) \<Rightarrow> (([], Some (Wrap ''failed to query jobs'' e)), w1)
         | (_, w1) \<Rightarrow> (([], Some (Wrap ''failed to query jobs'' (Driver ''LIMIT must not be negative''))), w1))
      else pgQueryJobs (\<lambda>rs. take (nat limit) (by_created_desc rs)) w)"

definition Postgres_GetProcessingJobs :: "world \<Rightarrow> (job list \<times> error option) \<times> world" where
  "Postgres_GetProcessingJobs = pgQueryJobs (\<lambda>rs. by_created (filter (\<lambda>r. c_status r = ''processing'') rs))"

definition Postgres_ListAllPendingJobs :: "world \<Rightarrow> (job list \<times> error option) \<times> world" where
  "Postgres_ListAllPendingJobs = pgQueryJobs (\<lambda>rs. by_priority (filter (\<lambda>r. c_status r = ''pending'') rs))"

definition Postgres_ListPendingByQueue :: "string \<Rightarrow> world \<Rightarrow> (job list \<times> error option) \<times> world" where
  "Postgres_ListPendingByQueue queueType =
     pgQueryJobs (\<lambda>rs. by_priority (filter (\<lambda>r. c_status r = ''pending'' \<and> c_queue_type r = queueType) rs))"

definition Postgres_ListProcessingByQueue :: "string \<Rightarrow> world \<Rightarrow> (job list \<times> error option) \<times> world" where
  "Postgres_ListProcessingByQueue queueType =
     pgQueryJobs (\<lambda>rs. by_created (filter (\<lambda>r. c_status r = ''processing'' \<and> c_queue_type r = queueType) rs))"

definition Postgres_UpdateJobRetry ::
  "string \<Rightarrow> string \<Rightarrow> int \<Rightarrow> string \<Rightarrow> world \<Rightarrow> unit result \<times> world" where
  "Postgres_UpdateJobRetry i status retryCount errMsg w =
     (case Postgres_GetJob i w of
        (Inl e, w1) \<Rightarrow> (Inl (Wrap ''failed to load job for retry update'' e), w1)
      | (Inr None, w1) \<Rightarrow> (Inl (Err (''job '' @ i @ '' not found'')), w1)
      | (Inr (Some j), w1) \<Rightarrow>
          let now = clock w1 in
          (case sql_update pg_check (\<lambda>r. c_id r = i)
              (set_retry now status retryCount errMsg) w1 of
             (Inl e, w2) \<Rightarrow> (Inl (Wrap ''failed to update job retry'' e), w2)
           | (Inr _, w2) \<Rightarrow> (Inr (), w2\<lparr>metrics := count_retry status (QueueType j) (metrics w2)\<rparr>)))"

definition Postgres_Requeue :: "string \<Rightarrow> world \<Rightarrow> unit result \<times> world" where
  "Postgres_Requeue i w =
     (let now = clock w in
      case sql_update pg_check (\<lambda>r. c_id r = i)
          (set_requeue now) w of
        (Inl e, w1) \<Rightarrow> (Inl (Wrap ''failed to requeue job'' e), w1)
      | (Inr _, w1) \<Rightarrow> (Inr (), w1))"

definition pg_set_reset :: "int \<Rightarrow> int \<Rightarrow> row \<Rightarrow> row" where
  "pg_set_reset now extraRetries r = r\<lparr>c_status := ''pending'',
     c_max_retries := c_max_retries r + extraRetries, c_error_message := Some '''', c_updated_at := now\<rparr>"

definition Postgres_ResetForRetry :: "string \<Rightarrow> int \<Rightarrow> world \<Rightarrow> unit result \<times> world" where
  "Postgres_ResetForRetry i extraRetries w =
     (let now = clock w in
      case sql_update pg_check (\<lambda>r. c_id r = i \<and> c_status r = ''failed'')
          (pg_set_reset now extraRetries) w of
        (Inl e, w1) \<Rightarrow> (Inl (Wrap ''failed to reset job for retry'' e), w1)
      | (Inr n, w1) \<Rightarrow>
          if n = 0 then (Inl (Err ''job not found or not in failed state''), w1) else (Inr (), w1))"

text \<open>The grouped count, delivered row by row; \<open>rows.Err()\<close> reports an early end, and a nil map is empty.\<close>

definition Postgres_CountByQueueAndStatus ::
  "world \<Rightarrow> (counts \<times> error option) \<times> world" where
  "Postgres_CountByQueueAndStatus w =
     (case stmt w of
        (Fail e, w1) \<Rightarrow> ((Map.empty, Some (Wrap ''failed to count jobs'' e)), w1)
      | (Cut n e, w1) \<Rightarrow>
          ((collect_counts (take n (group_count (\<lambda>r. (c_queue_type r, c_status r)) (table w1))) Map.empty, Some e), w1)
      | (Ok, w1) \<Rightarrow>
          ((collect_counts (group_count (\<lambda>r. (c_queue_type r, c_status r)) (table w1)) Map.empty, None), w1))"

definition PostgresStorage :: storage where
  "PostgresStorage = \<lparr>SaveJob = Postgres_SaveJob, GetJob = Postgres_GetJob,
     UpdateJobStatus = Postgres_UpdateJobStatus, ListPendingJobs = Postgres_ListPendingJobs,
     CloseStorage = Postgres_Close, ListRecentJobs = Postgres_ListRecentJobs,
     GetProcessingJobs = Postgres_GetProcessingJobs, ListAllPendingJobs = Postgres_ListAllPendingJobs,
     UpdateJobRetry = Postgres_UpdateJobRetry, Requeue = Postgres_Requeue,
     ListPendingByQueue = Postgres_ListPendingByQueue,
     ListProcessingByQueue = Postgres_ListProcessingByQueue, ResetForRetry = Postgres_ResetForRetry,
     CountByQueueAndStatus = Postgres_CountByQueueAndStatus\<rparr>"

lemma PostgresStorage_simps [simp]:
  "SaveJob PostgresStorage = Postgres_SaveJob" "GetJob PostgresStorage = Postgres_GetJob"
  "UpdateJobStatus PostgresStorage = Postgres_UpdateJobStatus"
  "ListPendingJobs PostgresStorage = Postgres_ListPendingJobs"
  "UpdateJobRetry PostgresStorage = Postgres_UpdateJobRetry" "Requeue PostgresStorage = Postgres_Requeue"
  "ResetForRetry PostgresStorage = Postgres_ResetForRetry"
  by (simp_all add: PostgresStorage_def)

section \<open>Scanning and the view\<close>

interpretation pg_scan: row_scanner pgScanJob pgUnmarshal
  by unfold_locales (simp_all add: pgScanJob_def pgUnmarshal_def)

definition pg_view :: "world \<Rightarrow> jobmap" where
  "pg_view = view_of pgScanJob"

definition pg_inv :: "world \<Rightarrow> bool" where
  "pg_inv w = table_inv pg_check (table w)"

lemma pgMarshal_decodes: "pgMarshal p = Inr t \<Longrightarrow> decodes (r\<lparr>c_payload := t\<rparr>)"
  by (auto simp: pgMarshal_def json_Marshal_def payload_val_def decodes_def split: option.splits if_splits)

lemma unmarshal_pgMarshal: "pgMarshal p = Inr t \<Longrightarrow> pgUnmarshal t = Inr p"
  by (auto simp: pgMarshal_def pgUnmarshal_def json_Marshal_def payload_val_def
      split: option.splits if_splits)

lemma pgMarshal_ok: "jsonable (payload_val p) \<Longrightarrow> \<exists>t. pgMarshal p = Inr t"
  by (simp add: pgMarshal_def json_Marshal_def)

section \<open>Laws\<close>

lemma pg_get_ok: "healthy w \<Longrightarrow> pg_inv w \<Longrightarrow> Postgres_GetJob i w = (Inr (pg_view w i), w)"
  by (simp add: Postgres_GetJob_def pg_inv_def pg_view_def pg_scan.query_row_ok)

lemma Postgres_GetJob_frame [frame]:
  "table (snd (Postgres_GetJob i w)) = table w" "clock (snd (Postgres_GetJob i w)) = clock w"
  using sql_select_frame [of "filter (\<lambda>r. c_id r = i)" w]
  by (auto simp: Postgres_GetJob_def query_row_def split: prod.splits sum.splits option.splits list.splits)

lemma pg_pending_ok:
  assumes "healthy w" "pg_inv w"
  shows "\<exists>js. Postgres_ListPendingJobs w = ((js, None), w) \<and>
    set js = {j. (\<exists>i. pg_view w i = Some j) \<and> active j} \<and> distinct (map ID js) \<and>
    sorted_wrt job_before js"
proof -
  let ?P = "\<lambda>r. c_status r = ''pending'' \<or> c_status r = ''processing''"
  let ?js = "map (projr \<circ> pgScanJob) (by_priority (filter ?P (table w)))"
  from assms(2) have inv: "table_inv pg_check (table w)" by (simp add: pg_inv_def)
  have "Postgres_ListPendingJobs w = ((?js, None), w)"
    unfolding Postgres_ListPendingJobs_def pgQueryJobs_def
    by (rule pg_scan.query_jobs_ok [OF assms(1) inv]) (auto simp: by_priority_def)
  moreover have "set ?js = {j. (\<exists>i. pg_view w i = Some j) \<and> active j}"
    unfolding by_priority_def pg_view_def
    by (rule pg_scan.listed_set [OF inv]) (auto simp: active_def status_defs)
  moreover have "distinct (map ID ?js)"
    unfolding by_priority_def by (rule pg_scan.listed_ids [OF inv])
  moreover have "sorted_wrt job_before ?js" by (rule pg_scan.listed_sorted [OF inv])
  ultimately show ?thesis by blast
qed

lemma pg_save_ok:
  assumes "healthy w" "pg_inv w" "pg_view w (ID j) = None" "valid_status (Status j)"
    "jsonable (payload_val (Payload j))" "int32 (Priority j)" "int32 (RetryCount j)" "int32 (MaxRetries j)"
  shows "\<exists>w'. Postgres_SaveJob j w = (Inr (), w') \<and> healthy w' \<and> clock w' = clock w \<and>
    metrics w' = metrics w \<and> pg_view w' = spec_save (\<lambda>p. p) j (pg_view w)"
proof -
  obtain t where t: "pgMarshal (Payload j) = Inr t" using pgMarshal_ok [OF assms(5)] by blast
  define r where "r = \<lparr>c_id = ID j, c_job_type = JobType j, c_payload = t, c_queue_type = QueueType j,
    c_priority = Priority j, c_status = Status j, c_retry_count = RetryCount j,
    c_max_retries = MaxRetries j, c_created_at = CreatedAt j, c_updated_at = UpdatedAt j,
    c_processed_at = None, c_error_message = None\<rparr>"
  from assms(2,3) have n: "find_row (c_id r) (table w) = None"
    by (simp add: r_def pg_inv_def pg_view_def pg_scan.view_None_iff)
  have ins: "sql_insert pg_check r w = (Inr (), w\<lparr>table := table w @ [r]\<rparr>)"
    by (rule sql_insert_ok) (use assms n in \<open>auto simp: r_def pg_check_def\<close>)
  have sc: "pgScanJob r = Inr (stored (\<lambda>p. p) j)"
    by (simp add: pgScanJob_def r_def job_of_def stored_def unmarshal_pgMarshal [OF t])
  have "Postgres_SaveJob j w = (Inr (), w\<lparr>table := table w @ [r]\<rparr>)"
    using ins by (simp add: Postgres_SaveJob_def t r_def)
  moreover have "pg_view (w\<lparr>table := table w @ [r]\<rparr>) = spec_save (\<lambda>p. p) j (pg_view w)"
    unfolding pg_view_def pg_scan.view_insert [OF n] spec_save_def by (simp add: sc) (simp add: r_def)
  ultimately show ?thesis using assms(1) by simp
qed

lemma pg_save_dup:
  assumes "healthy w" "pg_inv w" "pg_view w (ID j) \<noteq> None"
  shows "\<exists>e. Postgres_SaveJob j w = (Inl e, w)"
proof (cases "pgMarshal (Payload j)")
  case (Inr t)
  from assms(2,3) have "find_row (ID j) (table w) \<noteq> None"
    by (simp add: pg_inv_def pg_view_def pg_scan.view_None_iff)
  with assms(1) Inr show ?thesis by (simp add: Postgres_SaveJob_def sql_insert_dup)
qed (simp add: Postgres_SaveJob_def)

lemma pg_set_reset [simp]:
  "keeps (pg_set_reset now n)"
  "job_of p (pg_set_reset now n r) = (job_of p r)\<lparr>Status := StatusPending,
     RetryCount := (\<lambda>n. n) (RetryCount (job_of p r)), MaxRetries := MaxRetries (job_of p r) + n,
     ErrorMessage := '''', UpdatedAt := now\<rparr>"
  by (simp_all add: keeps_def pg_set_reset_def job_of_def status_defs)

lemma pg_status_ok:
  assumes "healthy w" "pg_inv w" "pg_view w i = Some j" "valid_status st"
  shows "\<exists>w'. Postgres_UpdateJobStatus i st msg w = (Inr (), w') \<and> healthy w' \<and> clock w' = clock w \<and>
    metrics w' = count_status st (QueueType j) (metrics w) \<and>
    pg_view w' = spec_status (clock w) i st msg (pg_view w)"
  by (rule pg_scan.update_by_id [where ok = pg_check and w = w and i = i and
        g = "with_status (clock w) st msg" and f = "set_status (clock w) st msg"])
    (use assms in \<open>auto simp: Postgres_UpdateJobStatus_def pg_get_ok Let_def pg_view_def spec_status_def
      pg_inv_def pg_check_def job_of_set\<close>)

lemma pg_retry_ok:
  assumes "healthy w" "pg_inv w" "pg_view w i = Some j" "valid_status st" "int32 n"
  shows "\<exists>w'. Postgres_UpdateJobRetry i st n msg w = (Inr (), w') \<and> healthy w' \<and> clock w' = clock w \<and>
    metrics w' = count_retry st (QueueType j) (metrics w) \<and>
    pg_view w' = spec_retry (clock w) i st n msg (pg_view w)"
  by (rule pg_scan.update_by_id [where ok = pg_check and w = w and i = i and
        g = "\<lambda>j. (with_status (clock w) st msg j)\<lparr>RetryCount := n\<rparr>" and f = "set_retry (clock w) st n msg"])
    (use assms in \<open>auto simp: Postgres_UpdateJobRetry_def pg_get_ok Let_def pg_view_def spec_retry_def
      pg_inv_def pg_check_def job_of_set\<close>)

lemma pg_requeue_ok:
  assumes "healthy w" "pg_inv w"
  shows "\<exists>w'. Postgres_Requeue i w = (Inr (), w') \<and> healthy w' \<and> clock w' = clock w \<and>
    metrics w' = metrics w \<and> pg_view w' = spec_requeue (clock w) i (pg_view w)"
  by (rule pg_scan.update_by_id [where ok = pg_check and w = w and i = i and
        g = "\<lambda>j. j\<lparr>Status := StatusPending, UpdatedAt := clock w\<rparr>" and f = "set_requeue (clock w)"])
    (use assms in \<open>auto simp: Postgres_Requeue_def Let_def pg_view_def spec_requeue_def
      pg_inv_def pg_check_def valid_status_def job_of_set\<close>)

lemma pg_reset_ok:
  assumes h: "healthy w" and inv: "pg_inv w" and v: "pg_view w i = Some j"
    and st: "Status j = StatusFailed" and fits: "int32 (MaxRetries j + n)"
  shows "\<exists>w'. Postgres_ResetForRetry i n w = (Inr (), w') \<and> healthy w' \<and> clock w' = clock w \<and>
    metrics w' = metrics w \<and> pg_view w' = spec_reset (\<lambda>n. n) (clock w) i n (pg_view w)"
  by (rule pg_scan.update_guarded [where ok = pg_check and w = w and i = i and s = "''failed''" and
        g = "\<lambda>j. j\<lparr>Status := StatusPending, RetryCount := (\<lambda>n. n) (RetryCount j), MaxRetries := MaxRetries j + n,
          ErrorMessage := '''', UpdatedAt := clock w\<rparr>" and f = "pg_set_reset (clock w) n",
        OF h inv [unfolded pg_inv_def] v [unfolded pg_view_def] st [unfolded status_defs]])
    (use fits in \<open>auto simp: Postgres_ResetForRetry_def Let_def pg_view_def spec_reset_def
      pg_check_def valid_status_def pg_set_reset_def job_of_def status_defs\<close>)

lemma pg_reset_refused:
  assumes "healthy w" "pg_inv w" "\<And>j. pg_view w i = Some j \<Longrightarrow> Status j \<noteq> StatusFailed"
  shows "Postgres_ResetForRetry i n w = (Inl (Err ''job not found or not in failed state''), w)"
  using assms by (simp add: Postgres_ResetForRetry_def pg_inv_def pg_view_def status_defs
      pg_scan.update_guarded_none)

lemma Postgres_GetJob_eq: "Postgres_GetJob i w = (x, w1) \<Longrightarrow> table w1 = table w \<and> clock w1 = clock w"
  using Postgres_GetJob_frame [of i w] by simp

lemma pg_missing:
  assumes "healthy w" "pg_inv w" "pg_view w i = None"
  shows "Postgres_UpdateJobStatus i st msg w = (Inl (Err (''job '' @ i @ '' not found'')), w)"
    and "Postgres_UpdateJobRetry i st n msg w = (Inl (Err (''job '' @ i @ '' not found'')), w)"
  using assms by (simp_all add: Postgres_UpdateJobStatus_def Postgres_UpdateJobRetry_def pg_get_ok)

lemma pg_save_effect:
  assumes "Postgres_SaveJob j w = (Inr (), w')"
  shows "pg_view w' = spec_save (\<lambda>p. p) j (pg_view w)"
proof -
  from assms obtain t r where t: "pgMarshal (Payload j) = Inr t" and
    r: "r = \<lparr>c_id = ID j, c_job_type = JobType j, c_payload = t, c_queue_type = QueueType j,
      c_priority = Priority j, c_status = Status j, c_retry_count = RetryCount j,
      c_max_retries = MaxRetries j, c_created_at = CreatedAt j, c_updated_at = UpdatedAt j,
      c_processed_at = None, c_error_message = None\<rparr>" and i: "sql_insert pg_check r w = (Inr (), w')"
    by (auto simp: Postgres_SaveJob_def split: sum.splits prod.splits)
  have "pgScanJob r = Inr (stored (\<lambda>p. p) j)"
    by (simp add: pgScanJob_def r job_of_def stored_def unmarshal_pgMarshal [OF t])
  with pg_scan.effect_insert [OF i] show ?thesis
    by (simp add: pg_view_def spec_save_def r)
qed

lemma pg_save_fresh:
  assumes "pg_inv w" "Postgres_SaveJob j w = (Inr (), w')"
  shows "pg_view w (ID j) = None"
proof -
  from assms(2) have "find_row (ID j) (table w) = None"
    by (auto simp: Postgres_SaveJob_def split: sum.splits prod.splits dest!: sql_Inr_table(2))
  with assms(1) show ?thesis by (simp add: pg_inv_def pg_view_def pg_scan.view_None_iff)
qed

lemma pg_get_sound: "pg_inv w \<Longrightarrow> Postgres_GetJob i w = (Inr (Some j), w') \<Longrightarrow> pg_view w i = Some j"
  unfolding Postgres_GetJob_def pg_inv_def pg_view_def
  by (auto split: prod.splits sum.splits dest: pg_scan.query_row_sound)

lemma pg_pending_sound:
  "pg_inv w \<Longrightarrow> Postgres_ListPendingJobs w = ((js, None), w') \<Longrightarrow> j \<in> set js \<Longrightarrow>
   pg_view w (ID j) = Some j \<and> active j"
  unfolding Postgres_ListPendingJobs_def pgQueryJobs_def by_priority_def pg_inv_def pg_view_def
  by (drule (2) pg_scan.query_jobs_sound) (auto simp: active_def status_defs)

lemma pg_view_GetJob: "Postgres_GetJob i w = (x, w1) \<Longrightarrow> pg_view w1 = pg_view w \<and> clock w1 = clock w"
  unfolding pg_view_def using view_of_cong [of w1 w] Postgres_GetJob_eq [of i w x w1] by simp

lemma pg_status_effect:
  assumes "Postgres_UpdateJobStatus i st msg w = (Inr (), w')"
  shows "pg_view w' = spec_status (clock w) i st msg (pg_view w)"
proof -
  from assms obtain j w1 n w2 where g: "Postgres_GetJob i w = (Inr (Some j), w1)"
    and u: "sql_update pg_check (\<lambda>r. c_id r = i) (set_status (clock w1) st msg) w1 = (Inr n, w2)"
    and w': "w' = w2\<lparr>metrics := count_status st (QueueType j) (metrics w2)\<rparr>"
    by (auto simp: Postgres_UpdateJobStatus_def Let_def split: sum.splits prod.splits option.splits)
  show ?thesis
    using pg_scan.effect_by_id [OF u keeps_set(1) job_of_set(1)] pg_view_GetJob [OF g]
    by (simp add: w' pg_view_def spec_status_def)
qed

lemma pg_retry_effect:
  assumes "Postgres_UpdateJobRetry i st k msg w = (Inr (), w')"
  shows "pg_view w' = spec_retry (clock w) i st k msg (pg_view w)"
proof -
  from assms obtain j w1 n w2 where g: "Postgres_GetJob i w = (Inr (Some j), w1)"
    and u: "sql_update pg_check (\<lambda>r. c_id r = i) (set_retry (clock w1) st k msg) w1 = (Inr n, w2)"
    and w': "w' = w2\<lparr>metrics := count_retry st (QueueType j) (metrics w2)\<rparr>"
    by (auto simp: Postgres_UpdateJobRetry_def Let_def split: sum.splits prod.splits option.splits)
  show ?thesis
    using pg_scan.effect_by_id [OF u keeps_set(2) job_of_set(2)] pg_view_GetJob [OF g]
    by (simp add: w' pg_view_def spec_retry_def)
qed

lemma pg_requeue_effect:
  assumes "Postgres_Requeue i w = (Inr (), w')"
  shows "pg_view w' = spec_requeue (clock w) i (pg_view w)"
proof -
  from assms obtain n where
    u: "sql_update pg_check (\<lambda>r. c_id r = i) (set_requeue (clock w)) w = (Inr n, w')"
    by (auto simp: Postgres_Requeue_def Let_def split: sum.splits prod.splits)
  show ?thesis
    using pg_scan.effect_by_id [OF u keeps_set(3) job_of_set(3)] by (simp add: pg_view_def spec_requeue_def)
qed

lemma pg_reset_effect:
  assumes "pg_inv w" "Postgres_ResetForRetry i k w = (Inr (), w')"
  shows "pg_view w' = spec_reset (\<lambda>n. n) (clock w) i k (pg_view w)"
proof -
  from assms(2) obtain n where "n \<noteq> 0"
    "sql_update pg_check (\<lambda>r. c_id r = i \<and> c_status r = ''failed'') (pg_set_reset (clock w) k) w = (Inr n, w')"
    by (auto simp: Postgres_ResetForRetry_def Let_def split: sum.splits prod.splits if_splits)
  from pg_scan.effect_guarded [OF this(2,1) assms(1) [unfolded pg_inv_def] pg_set_reset] show ?thesis
    by (simp add: pg_view_def spec_reset_def)
qed

lemma pg_inv_kept:
  assumes "pg_inv w"
  shows "pg_inv (snd (Postgres_SaveJob j w))" "pg_inv (snd (Postgres_UpdateJobStatus i st msg w))"
    "pg_inv (snd (Postgres_UpdateJobRetry i st n msg w))" "pg_inv (snd (Postgres_Requeue i w))"
    "pg_inv (snd (Postgres_ResetForRetry i n w))"
proof -
  have "decodes \<lparr>c_id = a, c_job_type = b, c_payload = t, c_queue_type = c, c_priority = d, c_status = e,
      c_retry_count = f, c_max_retries = g, c_created_at = h, c_updated_at = k, c_processed_at = l,
      c_error_message = m\<rparr>" if "pgMarshal p = Inr t" for p t a b c d e f g h k l m
    using pgMarshal_decodes [OF that] by (simp add: decodes_def)
  then show "pg_inv (snd (Postgres_SaveJob j w))"
    using assms by (auto simp: Postgres_SaveJob_def pg_inv_def split: sum.splits prod.splits
        dest!: sql_insert_eq(4))
  show "pg_inv (snd (Postgres_UpdateJobStatus i st msg w))"
    using assms by (auto simp: Postgres_UpdateJobStatus_def pg_inv_def Let_def
        split: sum.splits prod.splits option.splits dest!: Postgres_GetJob_eq sql_update_eq(4))
  show "pg_inv (snd (Postgres_UpdateJobRetry i st n msg w))"
    using assms by (auto simp: Postgres_UpdateJobRetry_def pg_inv_def Let_def
        split: sum.splits prod.splits option.splits dest!: Postgres_GetJob_eq sql_update_eq(4))
  show "pg_inv (snd (Postgres_Requeue i w))"
    using assms by (auto simp: Postgres_Requeue_def pg_inv_def
        split: sum.splits prod.splits dest!: sql_update_eq(4))
  show "pg_inv (snd (Postgres_ResetForRetry i n w))"
    using assms by (auto simp: Postgres_ResetForRetry_def pg_inv_def
        split: sum.splits prod.splits dest!: sql_update_eq(4))
qed

lemma pg_fail_atomic:
  "fst (Postgres_SaveJob j w) = Inl e \<Longrightarrow> table (snd (Postgres_SaveJob j w)) = table w"
  "fst (Postgres_UpdateJobStatus i st msg w) = Inl e \<Longrightarrow> table (snd (Postgres_UpdateJobStatus i st msg w)) = table w"
  "fst (Postgres_UpdateJobRetry i st n msg w) = Inl e \<Longrightarrow> table (snd (Postgres_UpdateJobRetry i st n msg w)) = table w"
  "fst (Postgres_Requeue i w) = Inl e \<Longrightarrow> table (snd (Postgres_Requeue i w)) = table w"
  by (auto simp: Postgres_SaveJob_def Postgres_UpdateJobStatus_def Postgres_UpdateJobRetry_def
      Postgres_Requeue_def Let_def split: sum.splits prod.splits option.splits
      dest!: Postgres_GetJob_eq sql_Inl_frame)

lemma pg_clock_kept:
  "clock (snd (Postgres_SaveJob j w)) = clock w"
  "clock (snd (Postgres_UpdateJobStatus i st msg w)) = clock w"
  "clock (snd (Postgres_UpdateJobRetry i st n msg w)) = clock w"
  "clock (snd (Postgres_Requeue i w)) = clock w"
  "clock (snd (Postgres_ResetForRetry i n w)) = clock w"
  by (auto simp: Postgres_SaveJob_def Postgres_UpdateJobStatus_def Postgres_UpdateJobRetry_def
      Postgres_Requeue_def Postgres_ResetForRetry_def Let_def split: sum.splits prod.splits option.splits
      dest!: Postgres_GetJob_eq sql_update_eq(1) sql_insert_eq(1))

lemma pg_reset_atomic:
  "fst (Postgres_ResetForRetry i n w) = Inl e \<Longrightarrow> table (snd (Postgres_ResetForRetry i n w)) = table w"
  by (auto simp: Postgres_ResetForRetry_def split: sum.splits prod.splits if_splits
      dest!: sql_Inl_frame sql_update_zero)

lemma Postgres_ListPendingJobs_frame [frame]:
  "table (snd (Postgres_ListPendingJobs w)) = table w" "clock (snd (Postgres_ListPendingJobs w)) = clock w"
  by (auto simp: Postgres_ListPendingJobs_def pgQueryJobs_def query_jobs_def sql_select_def
      dest!: stmt_eq_table split: sum.splits prod.splits answer.splits)

lemma pg_view_row:
  assumes "pg_inv w" "pg_view w i = Some j"
  shows "ID j = i" "valid_status (Status j)"
proof -
  obtain r p where "j = job_of p r" "c_id r = i" "pg_check r"
    using pg_scan.view_SomeD [OF assms [unfolded pg_inv_def pg_view_def]] by metis
  then show "ID j = i" "valid_status (Status j)" by (simp_all add: pg_check_def)
qed

interpretation postgres: storage_contract pg_view pg_inv PostgresStorage int32 "\<lambda>p. p" "\<lambda>n. n"
proof (unfold_locales, unfold PostgresStorage_simps, goal_cases)
  case (1 w' w) then show ?case unfolding pg_view_def by (rule view_of_cong)
next
  case (2 w' w) then show ?case by (simp add: pg_inv_def)
next
  case (6 w) then show ?case by (rule pg_pending_ok)
next
  case (11 w j)
  then show ?case using pg_save_ok [of w j] pg_inv_kept(1) [of w j] by auto
next
  case (12 w j) then show ?case by (rule pg_save_dup)
next
  case (13 w i j st msg)
  then show ?case using pg_status_ok [of w i j st msg] pg_inv_kept(2) [of w i st msg] by auto
next
  case (15 w i j st n msg)
  then show ?case using pg_retry_ok [of w i j st n msg] pg_inv_kept(3) [of w i st n msg] by auto
next
  case (17 w i)
  then show ?case using pg_requeue_ok [of w i] pg_inv_kept(4) [of w i] by auto
next
  case (18 w i j n)
  then show ?case using pg_reset_ok [of w i j n] pg_inv_kept(5) [of w i n] by auto
next
  case (19 w i n) then show ?case by (intro pg_reset_refused)
next
  case (20 w j w') then show ?case by (intro pg_save_effect)
next
  case (21 w i st msg w') then show ?case by (intro pg_status_effect)
next
  case (22 w i st n msg w') then show ?case by (intro pg_retry_effect)
next
  case (23 w i w') then show ?case by (intro pg_requeue_effect)
next
  case (24 w i n w') then show ?case by (intro pg_reset_effect)
next
  case (40 w j w') then show ?case by (intro pg_save_fresh)
next
  case (41 w i j w') then show ?case by (intro pg_get_sound)
next
  case (42 w js w' j) then show ?case by (intro pg_pending_sound)
qed (simp_all add: pg_view_row pg_get_ok pg_missing pg_inv_kept pg_fail_atomic
      pg_reset_atomic pg_clock_kept frame)

end
