(* ===== verification/Storage_Select.thy ===== *)
theory Storage_Select
  imports Storage_SQLite Storage_Postgres
begin

text \<open>
  The choice of the backend in \<open>cmd/server/main.go\<close>, and the contract for whichever backend the
  configuration names. Every statement about the queues below is made for \<open>main_store b\<close> with an
  arbitrary \<open>b\<close>, so it holds for both backends.
\<close>

definition main_store :: "string \<Rightarrow> storage" where
  "main_store backend = (if backend = ''postgres'' then PostgresStorage else SQLiteStorage)"

definition store_view :: "string \<Rightarrow> world \<Rightarrow> jobmap" where
  "store_view backend = (if backend = ''postgres'' then pg_view else sqlite_view)"

definition store_inv :: "string \<Rightarrow> world \<Rightarrow> bool" where
  "store_inv backend = (if backend = ''postgres'' then pg_inv else sqlite_inv)"

text \<open>The integers the backend's columns hold, how a payload reads back, the counter after a reset.\<close>

definition store_fits :: "string \<Rightarrow> int \<Rightarrow> bool" where
  "store_fits backend = (if backend = ''postgres'' then int32 else (\<lambda>_. True))"

definition store_norm :: "string \<Rightarrow> payload \<Rightarrow> payload" where
  "store_norm backend = (if backend = ''postgres'' then (\<lambda>p. p) else sqlite_norm)"

definition store_reset :: "string \<Rightarrow> int \<Rightarrow> int" where
  "store_reset backend = (if backend = ''postgres'' then (\<lambda>n. n) else (\<lambda>_. 0))"

lemmas store_defs = main_store_def store_view_def store_inv_def store_fits_def store_norm_def store_reset_def

interpretation cfg: storage_contract "store_view b" "store_inv b" "main_store b" "store_fits b" "store_norm b"
  "store_reset b" for b :: string
  using sqlite.storage_contract_axioms postgres.storage_contract_axioms
  by (cases "b = ''postgres''") (simp_all add: store_defs)

lemma int32_store_fits: "int32 n \<Longrightarrow> store_fits b n"
  by (simp add: store_fits_def)

end
