(* ===== verification/Samples.thy ===== *)
theory Samples
  imports Storage_Select
begin

text \<open>
  Concrete inputs on which the witnesses evaluate the definitions: three jobs, the empty store and a
  store that holds the three jobs, with the facts that make them legal inputs of both backends.
\<close>

definition sample_pending :: job where
  "sample_pending = \<lparr>ID = ''a'', JobType = ''email'', Payload = Some [(''to'', GStr ''x'')], QueueType = ''fifo'',
     Priority = 1, Status = ''pending'', RetryCount = 0, MaxRetries = 3, CreatedAt = 10, UpdatedAt = 10,
     ProcessedAt = None, ErrorMessage = ''''\<rparr>"

definition sample_processing :: job where
  "sample_processing = \<lparr>ID = ''b'', JobType = ''email'', Payload = Some [], QueueType = ''priority'',
     Priority = 2, Status = ''processing'', RetryCount = 2, MaxRetries = 3, CreatedAt = 20, UpdatedAt = 30,
     ProcessedAt = None, ErrorMessage = ''''\<rparr>"

definition sample_failed :: job where
  "sample_failed = \<lparr>ID = ''c'', JobType = ''email'', Payload = Some [], QueueType = ''rate-limited'',
     Priority = 1, Status = ''failed'', RetryCount = 3, MaxRetries = 3, CreatedAt = 40, UpdatedAt = 50,
     ProcessedAt = Some 50, ErrorMessage = ''exhausted 3 retries''\<rparr>"

definition sample_row :: "job \<Rightarrow> row" where
  "sample_row j = \<lparr>c_id = ID j, c_job_type = JobType j, c_payload = JDoc (payload_val (Payload j)),
     c_queue_type = QueueType j, c_priority = Priority j, c_status = Status j,
     c_retry_count = RetryCount j, c_max_retries = MaxRetries j, c_created_at = CreatedAt j,
     c_updated_at = UpdatedAt j, c_processed_at = ProcessedAt j, c_error_message = Some (ErrorMessage j)\<rparr>"

definition empty_world :: world where
  "empty_world = \<lparr>table = [], db_closed = False, driver = [], clock = 100, metrics = metrics0\<rparr>"

definition sample_world :: world where
  "sample_world = empty_world\<lparr>table := map sample_row [sample_pending, sample_processing, sample_failed]\<rparr>"

lemmas sample_defs = sample_pending_def sample_processing_def sample_failed_def

lemma sample_healthy [simp]: "healthy empty_world" "healthy sample_world"
  by (simp_all add: healthy_def empty_world_def sample_world_def)

lemma sample_clock [simp]: "clock empty_world = 100" "clock sample_world = 100"
  by (simp_all add: empty_world_def sample_world_def)

lemma sample_inv [simp]: "store_inv b empty_world" "store_inv b sample_world"
  by (simp_all add: store_inv_def sqlite_inv_def pg_inv_def table_inv_def empty_world_def sample_world_def
      sample_row_def sample_defs sqlite_check_def pg_check_def valid_status_def status_defs decodes_def
      payload_val_def int32_def)

lemma scan_sample_row [simp]:
  "Payload j = Some kvs \<Longrightarrow> scanJob (sample_row j) = Inr j"
  "Payload j = Some kvs \<Longrightarrow> pgScanJob (sample_row j) = Inr j"
  by (simp_all add: scanJob_def unmarshalPayload_def pgScanJob_def pgUnmarshal_def sample_row_def
      payload_val_def job_of_def)

lemma sample_view:
  "store_view b empty_world i = None"
  "store_view b sample_world i = (if i = ''a'' then Some sample_pending else if i = ''b'' then Some sample_processing
     else if i = ''c'' then Some sample_failed else None)"
proof -
  show "store_view b empty_world i = None"
    by (simp add: store_view_def pg_view_def sqlite_view_def view_of_def find_row_def empty_world_def)
  have p: "\<exists>kvs. Payload sample_pending = Some kvs" "\<exists>kvs. Payload sample_processing = Some kvs"
    "\<exists>kvs. Payload sample_failed = Some kvs"
    by (simp_all add: sample_defs)
  have "find_row i (table sample_world) = (if i = ''a'' then Some (sample_row sample_pending)
      else if i = ''b'' then Some (sample_row sample_processing)
      else if i = ''c'' then Some (sample_row sample_failed) else None)"
    by (simp add: find_row_def sample_world_def sample_row_def sample_defs)
  then show "store_view b sample_world i = (if i = ''a'' then Some sample_pending
      else if i = ''b'' then Some sample_processing else if i = ''c'' then Some sample_failed else None)"
    using p by (auto simp: store_view_def pg_view_def sqlite_view_def view_of_def)
qed

lemma sample_fields [simp]:
  "ID sample_pending = ''a''" "ID sample_processing = ''b''" "ID sample_failed = ''c''"
  "Status sample_pending = StatusPending" "Status sample_processing = StatusProcessing"
  "Status sample_failed = StatusFailed"
  "QueueType sample_pending = QueueTypeFIFO" "QueueType sample_processing = QueueTypePriority"
  "QueueType sample_failed = QueueTypeRateLimited"
  "RetryCount sample_pending = 0" "RetryCount sample_processing = 2" "RetryCount sample_failed = 3"
  "MaxRetries sample_pending = 3" "MaxRetries sample_processing = 3" "MaxRetries sample_failed = 3"
  by (simp_all add: sample_defs status_defs queue_type_defs)

lemma sample_active [simp]: "active sample_pending" "active sample_processing" "\<not> active sample_failed"
  by (simp_all add: active_def)

end
