(* ===== verification/Storage_Properties.thy ===== *)
theory Storage_Properties
  imports Samples
begin

text \<open>
  What the storage interface guarantees with whichever backend is configured: sequences of write
  operations against a driver that may fail at any statement, reads after writes, listings, counts,
  and the one point where the two backends disagree.
\<close>

section \<open>Sequences of writes\<close>

text \<open>The five methods of the interface that write, as data, with their execution and specification.\<close>

datatype write_op =
    OpSave job
  | OpStatus string string string
  | OpRetry string string int string
  | OpRequeue string
  | OpReset string int

fun exec_op :: "storage \<Rightarrow> write_op \<Rightarrow> world \<Rightarrow> unit result \<times> world" where
  "exec_op S (OpSave j) w = SaveJob S j w"
| "exec_op S (OpStatus i st msg) w = UpdateJobStatus S i st msg w"
| "exec_op S (OpRetry i st n msg) w = UpdateJobRetry S i st n msg w"
| "exec_op S (OpRequeue i) w = Requeue S i w"
| "exec_op S (OpReset i n) w = ResetForRetry S i n w"

fun spec_op :: "(payload \<Rightarrow> payload) \<Rightarrow> (int \<Rightarrow> int) \<Rightarrow> int \<Rightarrow> write_op \<Rightarrow> jobmap \<Rightarrow> jobmap" where
  "spec_op norm rc now (OpSave j) m = spec_save norm j m"
| "spec_op norm rc now (OpStatus i st msg) m = spec_status now i st msg m"
| "spec_op norm rc now (OpRetry i st n msg) m = spec_retry now i st n msg m"
| "spec_op norm rc now (OpRequeue i) m = spec_requeue now i m"
| "spec_op norm rc now (OpReset i n) m = spec_reset rc now i n m"

text \<open>Each operation comes with the time that passes before it; the results are collected.\<close>

fun run_ops :: "storage \<Rightarrow> (nat \<times> write_op) list \<Rightarrow> world \<Rightarrow> unit result list \<times> world" where
  "run_ops S [] w = ([], w)"
| "run_ops S ((d, op) # ops) w =
     (case exec_op S op (w\<lparr>clock := clock w + int d\<rparr>) of
        (x, w1) \<Rightarrow> (case run_ops S ops w1 of (xs, w2) \<Rightarrow> (x # xs, w2)))"

text \<open>The specification skips the operations that reported an error.\<close>

fun spec_ops ::
  "(payload \<Rightarrow> payload) \<Rightarrow> (int \<Rightarrow> int) \<Rightarrow> int \<Rightarrow> (nat \<times> write_op) list \<Rightarrow> unit result list \<Rightarrow> jobmap \<Rightarrow> jobmap" where
  "spec_ops norm rc now ((d, op) # ops) (x # xs) m =
     spec_ops norm rc (now + int d) ops xs
       (case x of Inl _ \<Rightarrow> m | Inr _ \<Rightarrow> spec_op norm rc (now + int d) op m)"
| "spec_ops norm rc now _ _ m = m"

context storage_contract
begin

lemma exec_op_table: "fst (exec_op S op w) = Inl e \<Longrightarrow> table (snd (exec_op S op w)) = table w"
  by (cases op) (simp_all add: fail_atomic)

lemma exec_op_inv: "inv w \<Longrightarrow> inv (snd (exec_op S op w))"
  by (cases op) (simp_all add: inv_kept)

lemma exec_op_clock: "clock (snd (exec_op S op w)) = clock w"
  by (cases op) (simp_all add: clock_kept)

lemma exec_op_effect:
  "inv w \<Longrightarrow> exec_op S op w = (Inr (), w') \<Longrightarrow> view w' = spec_op norm reset_count (clock w) op (view w)"
  by (cases op)
    (simp_all only: exec_op.simps spec_op.simps save_effect status_effect retry_effect requeue_effect reset_effect)

lemma exec_op_refines:
  assumes "inv w" "exec_op S op w = (x, w')"
  shows "view w' = (case x of Inl _ \<Rightarrow> view w | Inr _ \<Rightarrow> spec_op norm reset_count (clock w) op (view w))"
proof (cases x)
  case (Inl e)
  with assms(2) exec_op_table [of op w e] view_table [of w' w] show ?thesis by simp
next
  case (Inr u)
  with exec_op_effect [OF assms(1), of op w'] assms(2) show ?thesis by simp
qed

lemma run_ops_refines:
  assumes "inv w" "run_ops S ops w = (xs, w')"
  shows "inv w' \<and> length xs = length ops \<and> view w' = spec_ops norm reset_count (clock w) ops xs (view w)"
  using assms
proof (induction ops arbitrary: w xs)
  case Nil
  then show ?case by simp
next
  case (Cons p ops)
  obtain d op where p: "p = (d, op)" by (cases p)
  let ?w = "w\<lparr>clock := clock w + int d\<rparr>"
  obtain x w1 where e: "exec_op S op ?w = (x, w1)" by (cases "exec_op S op ?w")
  obtain ys where ys: "run_ops S ops w1 = (ys, w')" "xs = x # ys"
    using Cons.prems(2) e p by (auto split: prod.splits)
  have i: "inv ?w" "view ?w = view w" using Cons.prems(1) inv_table [of ?w w] view_table [of ?w w] by simp_all
  have "inv w1" "clock w1 = clock w + int d" using exec_op_inv [OF i(1), of op] exec_op_clock [of op ?w] e by simp_all
  moreover have "view w1 = (case x of Inl _ \<Rightarrow> view w
      | Inr _ \<Rightarrow> spec_op norm reset_count (clock w + int d) op (view w))"
    using exec_op_refines [OF i(1) e] i(2) by (cases x) simp_all
  ultimately show ?case using Cons.IH [OF _ ys(1)] by (simp add: p ys(2))
qed

end

text \<open>
  C1. Refinement of the storage interface. Whatever the database driver answers to each statement,
  after any sequence of writes the table is well formed and the stored jobs are exactly those the
  specification of the interface gives for the operations that reported success; an operation that
  reported an error had no effect.
\<close>

theorem storage_refines:
  assumes "store_inv b w" "run_ops (main_store b) ops w = (xs, w')"
  shows "store_inv b w' \<and> length xs = length ops \<and>
    store_view b w' = spec_ops (store_norm b) (store_reset b) (clock w) ops xs (store_view b w)"
  using assms by (rule cfg.run_ops_refines)

theorem storage_refines_witness:
  "\<exists>xs w'. run_ops (main_store ''postgres'') [(5, OpStatus ''a'' ''completed'' ''''), (1, OpReset ''c'' 3)]
      (sample_world\<lparr>driver := [Ok, Fail (Driver ''lost'')]\<rparr>) = (xs, w') \<and> length xs = 2 \<and>
    store_view ''postgres'' w' = spec_ops (store_norm ''postgres'') (store_reset ''postgres'') 100
      [(5, OpStatus ''a'' ''completed'' ''''), (1, OpReset ''c'' 3)] xs (store_view ''postgres'' sample_world)"
proof -
  let ?w = "sample_world\<lparr>driver := [Ok, Fail (Driver ''lost'')]\<rparr>"
  obtain xs w' where r: "run_ops (main_store ''postgres'')
      [(5, OpStatus ''a'' ''completed'' ''''), (1, OpReset ''c'' 3)] ?w = (xs, w')"
    by (metis surj_pair)
  have "store_inv ''postgres'' ?w" "store_view ''postgres'' ?w = store_view ''postgres'' sample_world"
    using cfg.inv_table [of ?w sample_world "''postgres''"] cfg.view_table [of ?w sample_world "''postgres''"]
    by simp_all
  with storage_refines [OF _ r] r show ?thesis by simp
qed

section \<open>Reads\<close>

text \<open>
  Save/get round trip. A job with a fresh ID, a legal status, a payload JSON can represent and
  counters that fit the columns is saved; reading it back gives the same job up to the payload's
  normal form, with no processing time and no error message yet, and every other ID reads as before.
\<close>

lemma save_then_get:
  assumes "healthy w" "store_inv b w" "store_view b w (ID j) = None" "valid_status (Status j)"
    "jsonable (payload_val (Payload j))" "store_fits b (Priority j)" "store_fits b (RetryCount j)"
    "store_fits b (MaxRetries j)"
  shows "\<exists>w'. SaveJob (main_store b) j w = (Inr (), w') \<and>
    GetJob (main_store b) (ID j) w' = (Inr (Some (stored (store_norm b) j)), w') \<and>
    (\<forall>i. i \<noteq> ID j \<longrightarrow> fst (GetJob (main_store b) i w') = fst (GetJob (main_store b) i w))"
proof -
  from cfg.save_ok [OF assms] obtain w' where
    w': "SaveJob (main_store b) j w = (Inr (), w')" "healthy w'" "store_inv b w'"
    "store_view b w' = spec_save (store_norm b) j (store_view b w)" by blast
  then show ?thesis using assms(1,2) by (simp add: cfg.get_ok spec_save_def)
qed

text \<open>
  Job IDs are unique. Saving a job whose ID is taken reports an error and changes nothing, so the
  job stored under that ID cannot be overwritten by a second submission.
\<close>

lemma save_duplicate_refused:
  assumes "healthy w" "store_inv b w" "store_view b w (ID j) = Some k"
  shows "\<exists>e. SaveJob (main_store b) j w = (Inl e, w)"
  by (rule cfg.save_dup [OF assms(1,2)]) (simp add: assms(3))

text \<open>
  The listing that recovery and the sweep work from: it contains the jobs that are pending or
  being processed, all of them and nothing else, each once, by priority and then by age.
\<close>

lemma pending_jobs_exact:
  assumes "healthy w" "store_inv b w"
  shows "\<exists>js. ListPendingJobs (main_store b) w = ((js, None), w) \<and>
    set js = {j. (\<exists>i. store_view b w i = Some j) \<and> active j} \<and> distinct (map ID js) \<and>
    sorted_wrt job_before js"
  using assms by (rule cfg.pending_ok)

section \<open>Counts\<close>

definition count_of :: "counts \<Rightarrow> string \<Rightarrow> string \<Rightarrow> int option" where
  "count_of m q s = (case m q of None \<Rightarrow> None | Some c \<Rightarrow> c s)"

lemma count_of_upd:
  "count_of (m(q \<mapsto> (case m q of None \<Rightarrow> Map.empty | Some c \<Rightarrow> c)(s \<mapsto> n))) q' s' =
     (if q' = q \<and> s' = s then Some n else count_of m q' s')"
  by (simp add: count_of_def split: option.splits)

lemma collect_counts_of:
  "count_of (collect_counts rs m) q s =
     (case map_of (rev rs) (q, s) of Some n \<Rightarrow> Some (int n) | None \<Rightarrow> count_of m q s)"
proof (induction rs m rule: collect_counts.induct)
  case (2 q' s' n rs m)
  from 2 [OF refl] show ?case
    by (cases "map_of (rev rs) (q, s)")
      (simp_all add: Let_def count_of_upd map_add_def fun_upd_apply [of Map.empty] del: fun_upd_apply)
qed simp

lemma distinct_group_count: "distinct (map fst (group_count k xs))"
  by (simp add: group_count_def comp_def)

lemma card_rows:
  assumes "distinct (map c_id rs)"
  shows "card (c_id ` {r \<in> set rs. P r}) = length (filter P rs)"
proof -
  have d: "distinct (map c_id (filter P rs))" using assms by (rule distinct_map_filter)
  have "c_id ` {r \<in> set rs. P r} = set (map c_id (filter P rs))" by auto
  then show ?thesis by (simp only: distinct_card [OF d] length_map)
qed

context row_scanner
begin

lemma card_view:
  assumes inv: "table_inv ok (table w)" and P: "\<And>p r. P r = P' (job_of p r)"
  shows "card {i. \<exists>j. view_of scan w i = Some j \<and> P' j} = length (filter P (table w))"
proof -
  have "{i. \<exists>j. view_of scan w i = Some j \<and> P' j} = c_id ` {r \<in> set (table w). P r}" (is "?L = ?R")
  proof (intro set_eqI iffI)
    fix i assume "i \<in> ?L"
    then obtain j where j: "view_of scan w i = Some j" "P' j" by blast
    from inv j(1) obtain r p where "j = job_of p r" "r \<in> set (table w)" "c_id r = i" by (rule view_SomeD)
    with \<open>P' j\<close> P [of r p] show "i \<in> ?R" by auto
  next
    fix i assume "i \<in> ?R"
    then obtain r where r: "r \<in> set (table w)" "P r" "c_id r = i" by auto
    with inv have "find_row i (table w) = Some r" using find_row_mem by blast
    with inv obtain p where "view_of scan w i = Some (job_of p r)" by (rule view_find)
    with r(2) P [of r p] show "i \<in> ?L" by auto
  qed
  with card_rows [of "table w" P] inv show ?thesis by (simp add: table_inv_def)
qed

end

lemma count_of_groups:
  "count_of (collect_counts (group_count (\<lambda>r. (c_queue_type r, c_status r)) rs) Map.empty) q s =
     (let n = length (filter (\<lambda>r. c_queue_type r = q \<and> c_status r = s) rs) in
      if n = 0 then None else Some (int n))"
proof -
  let ?k = "\<lambda>r. (c_queue_type r, c_status r)"
  have "map_of (rev (group_count ?k rs)) = map_of (group_count ?k rs)"
    by (subst map_of_inject_set) (simp_all add: distinct_group_count flip: rev_map)
  then have "count_of (collect_counts (group_count ?k rs) Map.empty) q s =
      (case map_of (group_count ?k rs) (q, s) of Some n \<Rightarrow> Some (int n) | None \<Rightarrow> None)"
    by (simp add: collect_counts_of count_of_def [of Map.empty] split: option.splits)
  then show ?thesis
    by (auto simp: map_of_group_count Let_def filter_empty_conv image_iff)
qed

text \<open>
  The counts behind the dashboard and the queue-depth gauge: for every queue and status the map
  holds the number of stored jobs of that queue in that status, and no entry where there is none.
\<close>

lemma counts_listed:
  assumes "healthy w" "store_inv b w"
  shows "\<exists>m. CountByQueueAndStatus (main_store b) w = ((m, None), w) \<and>
    (\<forall>q s. count_of m q s =
       (let n = card {i. \<exists>j. store_view b w i = Some j \<and> QueueType j = q \<and> Status j = s} in
        if n = 0 then None else Some (int n)))"
proof -
  let ?m = "collect_counts (group_count (\<lambda>r. (c_queue_type r, c_status r)) (table w)) Map.empty"
  have "CountByQueueAndStatus (main_store b) w = ((?m, None), w)"
    using assms(1) by (simp add: main_store_def SQLiteStorage_def PostgresStorage_def
        SQLite_CountByQueueAndStatus_def Postgres_CountByQueueAndStatus_def)
  moreover have "card {i. \<exists>j. store_view b w i = Some j \<and> QueueType j = q \<and> Status j = s} =
      length (filter (\<lambda>r. c_queue_type r = q \<and> c_status r = s) (table w))" for q s
    using assms(2) sqlite_scan.card_view [where P' = "\<lambda>j. QueueType j = q \<and> Status j = s"]
      pg_scan.card_view [where P' = "\<lambda>j. QueueType j = q \<and> Status j = s"]
    by (auto simp: store_inv_def store_view_def sqlite_inv_def pg_inv_def sqlite_view_def pg_view_def
        split: if_splits)
  ultimately show ?thesis by (simp add: count_of_groups)
qed

section \<open>Manual retry\<close>

text \<open>
  C38. The two backends disagree on a manual retry. Both put a failed job back to pending with
  \<open>n\<close> more allowed attempts and no error message; SQLite sets the retry counter to zero, PostgreSQL
  keeps it. A job that is not failed is refused by both.
\<close>

theorem reset_for_retry_backends:
  assumes "healthy w" "store_inv b w" "store_view b w i = Some j" "store_fits b (MaxRetries j + n)"
  shows "if Status j = StatusFailed then
      \<exists>w'. ResetForRetry (main_store b) i n w = (Inr (), w') \<and> store_view b w' = (store_view b w)(i \<mapsto>
        j\<lparr>Status := StatusPending, RetryCount := (if b = ''postgres'' then RetryCount j else 0),
          MaxRetries := MaxRetries j + n, ErrorMessage := '''', UpdatedAt := clock w\<rparr>)
    else ResetForRetry (main_store b) i n w = (Inl (Err ''job not found or not in failed state''), w)"
proof (cases "Status j = StatusFailed")
  case True
  from cfg.reset_ok [OF assms(1-3) True assms(4)] True assms(3) show ?thesis
    by (auto simp: spec_reset_def store_reset_def)
next
  case False
  then show ?thesis using cfg.reset_refused [OF assms(1,2), of i n] assms(3) by simp
qed

theorem reset_for_retry_backends_witness:
  "\<exists>w'. ResetForRetry (main_store ''postgres'') ''c'' 3 sample_world = (Inr (), w') \<and>
     store_view ''postgres'' w' ''c'' = Some (sample_failed\<lparr>Status := ''pending'', MaxRetries := 6,
       ErrorMessage := '''', UpdatedAt := 100\<rparr>)"
proof -
  have "Status sample_failed = StatusFailed" "MaxRetries sample_failed = 3"
    by (simp_all add: sample_failed_def StatusFailed_def)
  with reset_for_retry_backends [of sample_world "''postgres''" "''c''" sample_failed 3] show ?thesis
    by (auto simp: sample_view store_fits_def int32_def StatusPending_def)
qed

end
