(* ===== verification/Queue_Interface.thy ===== *)
theory Queue_Interface
  imports Storage_Interface
begin

text \<open>
  The parts of \<open>internal/queue\<close> that \<open>MemoryQueue\<close> and \<open>SortedQueue\<close> have in common. Their methods
  \<open>Ack\<close>, \<open>Nack\<close>, \<open>SetProcessing\<close>, \<open>Requeue\<close>, \<open>Retry\<close>, \<open>Recover\<close> and \<open>sweep\<close> read the same in
  \<open>memory_queue.go\<close> and \<open>sorted_que.go\<close> up to the \<open>Enqueue\<close> they call, the jobs they select and the
  recovery counter; they are defined here once, with those three as arguments, and instantiated in
  \<open>Queue_Memory\<close> and \<open>Queue_Sorted\<close>.

  The locale \<open>job_queue\<close> is what these methods need of \<open>Enqueue\<close>; the locale \<open>stored_queue\<close> puts it
  on top of a storage contract, and the behaviour of each method is derived in it.
\<close>

section \<open>Methods shared by the queues\<close>

type_synonym 'q enqueue = "job \<Rightarrow> 'q \<Rightarrow> world \<Rightarrow> unit result \<times> 'q \<times> world"

definition ack :: "storage \<Rightarrow> string \<Rightarrow> world \<Rightarrow> unit result \<times> world" where
  "ack S jobID w = UpdateJobStatus S jobID StatusCompleted '''' w"

definition set_processing :: "storage \<Rightarrow> string \<Rightarrow> world \<Rightarrow> unit result \<times> world" where
  "set_processing S jobID w = UpdateJobStatus S jobID StatusProcessing '''' w"

definition nack_with :: "'q enqueue \<Rightarrow> storage \<Rightarrow> string \<Rightarrow> 'q \<Rightarrow> world \<Rightarrow> unit result \<times> 'q \<times> world" where
  "nack_with enq S jobID q w =
     (case GetJob S jobID w of
        (Inl e, w1) \<Rightarrow> (Inl (Wrap ''nack: failed to get job'' e), q, w1)
      | (Inr None, w1) \<Rightarrow> (Inl (Err (''nack: job '' @ jobID @ '' not found'')), q, w1)
      | (Inr (Some job), w1) \<Rightarrow>
          let n = wrap64 (RetryCount job + 1) in
          if MaxRetries job \<le> n then
            (case UpdateJobRetry S jobID StatusFailed n (''exhausted '' @ itoa n @ '' retries'') w1 of
               (r, w2) \<Rightarrow> (r, q, w2))
          else
            (case UpdateJobRetry S jobID StatusPending n '''' w1 of
               (Inl e, w2) \<Rightarrow> (Inl e, q, w2)
             | (Inr _, w2) \<Rightarrow> enq (job\<lparr>RetryCount := n, Status := StatusPending\<rparr>) q w2))"

definition requeue_with :: "'q enqueue \<Rightarrow> storage \<Rightarrow> string \<Rightarrow> 'q \<Rightarrow> world \<Rightarrow> unit result \<times> 'q \<times> world" where
  "requeue_with enq S jobID q w =
     (case Requeue S jobID w of
        (Inl e, w1) \<Rightarrow> (Inl e, q, w1)
      | (Inr _, w1) \<Rightarrow>
          (case GetJob S jobID w1 of
             (Inr (Some job), w2) \<Rightarrow> enq (job\<lparr>Status := StatusPending\<rparr>) q w2
           | (_, w2) \<Rightarrow> (Inl (Err (''requeue: job '' @ jobID @ '' not found'')), q, w2)))"

definition retry_with ::
  "'q enqueue \<Rightarrow> storage \<Rightarrow> string \<Rightarrow> int \<Rightarrow> 'q \<Rightarrow> world \<Rightarrow> unit result \<times> 'q \<times> world" where
  "retry_with enq S jobID extraRetries q w =
     (case ResetForRetry S jobID extraRetries w of
        (Inl e, w1) \<Rightarrow> (Inl e, q, w1)
      | (Inr _, w1) \<Rightarrow>
          (case GetJob S jobID w1 of
             (Inr (Some job), w2) \<Rightarrow> enq (job\<lparr>Status := StatusPending\<rparr>) q w2
           | (_, w2) \<Rightarrow> (Inl (Err (''retry: job '' @ jobID @ '' not found'')), q, w2)))"

text \<open>
  \<open>Recover\<close>: the loop over the listed jobs. \<open>sel\<close> is the test that skips a job (none in
  \<open>MemoryQueue\<close>), \<open>cnt\<close> what is counted for a job that was enqueued (nothing in \<open>SortedQueue\<close>).
\<close>

fun recover_loop ::
  "'q enqueue \<Rightarrow> (job \<Rightarrow> bool) \<Rightarrow> (metrics \<Rightarrow> metrics) \<Rightarrow> storage \<Rightarrow> job list \<Rightarrow> 'q \<Rightarrow> world \<Rightarrow>
   unit result \<times> 'q \<times> world" where
  "recover_loop enq sel cnt S [] q w = (Inr (), q, w)"
| "recover_loop enq sel cnt S (job # js) q w =
     (if \<not> sel job then recover_loop enq sel cnt S js q w
      else
        (case (if Status job = StatusProcessing
               then UpdateJobStatus S (ID job) StatusPending '''' w else (Inr (), w)) of
           (Inl e, w1) \<Rightarrow> (Inl (Wrap (''recover: failed to reset job '' @ ID job) e), q, w1)
         | (Inr _, w1) \<Rightarrow>
             (case enq (if Status job = StatusProcessing then job\<lparr>Status := StatusPending\<rparr> else job) q w1 of
                (Inl e, q2, w2) \<Rightarrow> (Inl (Wrap (''recover: failed to enqueue job '' @ ID job) e), q2, w2)
              | (Inr _, q2, w2) \<Rightarrow>
                  recover_loop enq sel cnt S js q2 (w2\<lparr>metrics := cnt (metrics w2)\<rparr>))))"

definition recover_with ::
  "'q enqueue \<Rightarrow> (job \<Rightarrow> bool) \<Rightarrow> (metrics \<Rightarrow> metrics) \<Rightarrow> storage \<Rightarrow> 'q \<Rightarrow> world \<Rightarrow>
   unit result \<times> 'q \<times> world" where
  "recover_with enq sel cnt S q w =
     (case ListPendingJobs S w of
        ((_, Some e), w1) \<Rightarrow> (Inl (Wrap ''recover: failed to list pending jobs'' e), q, w1)
      | ((js, None), w1) \<Rightarrow> recover_loop enq sel cnt S js q w1)"

text \<open>\<open>sweep\<close>: one pass; errors are logged and the pass goes on.\<close>

fun sweep_loop ::
  "'q enqueue \<Rightarrow> (job \<Rightarrow> bool) \<Rightarrow> storage \<Rightarrow> job list \<Rightarrow> 'q \<Rightarrow> world \<Rightarrow> 'q \<times> world" where
  "sweep_loop enq sel S [] q w = (q, w)"
| "sweep_loop enq sel S (job # js) q w =
     (if \<not> sel job then sweep_loop enq sel S js q w
      else if Status job = StatusPending then
        (case enq job q w of (_, q1, w1) \<Rightarrow> sweep_loop enq sel S js q1 w1)
      else if Status job = StatusProcessing \<and> 10 * Minute < clock w - UpdatedAt job then
        (case UpdateJobStatus S (ID job) StatusPending '''' w of
           (Inl e, w1) \<Rightarrow> sweep_loop enq sel S js q w1
         | (Inr _, w1) \<Rightarrow>
             (case enq (job\<lparr>Status := StatusPending\<rparr>) q w1 of
                (_, q2, w2) \<Rightarrow> sweep_loop enq sel S js q2 w2))
      else sweep_loop enq sel S js q w)"

definition sweep_with ::
  "'q enqueue \<Rightarrow> (job \<Rightarrow> bool) \<Rightarrow> storage \<Rightarrow> 'q \<Rightarrow> world \<Rightarrow> 'q \<times> world" where
  "sweep_with enq sel S q w =
     (case ListPendingJobs S w of
        ((_, Some e), w1) \<Rightarrow> (q, w1)
      | ((js, None), w1) \<Rightarrow> sweep_loop enq sel S js q w1)"

section \<open>What the methods need of \<open>Enqueue\<close>\<close>

text \<open>
  \<open>room q n\<close>: the queue takes \<open>n\<close> more jobs without waiting. \<open>Enqueue\<close> touches neither the table
  nor the driver; when it refuses, the queue is as before and time may have passed.
\<close>

locale job_queue =
  fixes enq :: "'q enqueue"
    and waiting :: "'q \<Rightarrow> job multiset"
    and room :: "'q \<Rightarrow> nat \<Rightarrow> bool"
  assumes enq_room: "room q (Suc n) \<Longrightarrow>
      \<exists>q'. enq j q w = (Inr (), q', w) \<and> waiting q' = add_mset j (waiting q) \<and> room q' n"
    and enq_full: "\<not> room q 1 \<Longrightarrow>
      \<exists>e w'. enq j q w = (Inl e, q, w') \<and> table w' = table w \<and> healthy w' = healthy w \<and>
        metrics w' = metrics w \<and> clock w \<le> clock w'"
begin

lemma enq_cases:
  obtains (accepted) q' where "enq j q w = (Inr (), q', w)" "waiting q' = add_mset j (waiting q)"
  | (refused) e w' where "enq j q w = (Inl e, q, w')" "table w' = table w" "healthy w' = healthy w"
      "metrics w' = metrics w" "clock w \<le> clock w'"
  using enq_room [of q 0 j w] enq_full [of q j w] by (cases "room q 1") auto

lemma enq_world:
  assumes "enq j q w = (x, q', w')"
  shows "table w' = table w" "healthy w' = healthy w" "metrics w' = metrics w" "clock w \<le> clock w'"
  using enq_cases [of j q w] assms by auto

lemma enq_waiting:
  assumes "enq j q w = (x, q', w')"
  shows "waiting q' = (if x = Inr () then add_mset j (waiting q) else waiting q)"
  using enq_cases [of j q w] assms by auto

end

section \<open>The methods on a storage that keeps its contract\<close>

text \<open>The job after a failed attempt that may be retried, and after the last one.\<close>

definition next_count :: "job \<Rightarrow> int" where
  "next_count j = wrap64 (RetryCount j + 1)"

definition after_retry :: "int \<Rightarrow> job \<Rightarrow> job" where
  "after_retry now j = (with_status now StatusPending '''' j)\<lparr>RetryCount := next_count j\<rparr>"

definition after_failure :: "int \<Rightarrow> job \<Rightarrow> job" where
  "after_failure now j = (with_status now StatusFailed (''exhausted '' @ itoa (next_count j) @ '' retries'') j)
     \<lparr>RetryCount := next_count j\<rparr>"

lemma after_simps [simp]:
  "Status (after_retry now j) = StatusPending" "Status (after_failure now j) = StatusFailed"
  "RetryCount (after_retry now j) = next_count j" "RetryCount (after_failure now j) = next_count j"
  "MaxRetries (after_retry now j) = MaxRetries j" "MaxRetries (after_failure now j) = MaxRetries j"
  "ID (after_retry now j) = ID j" "ID (after_failure now j) = ID j"
  "ProcessedAt (after_failure now j) = Some now"
  by (simp_all add: after_retry_def after_failure_def with_status_def)

locale stored_queue =
  storage_contract view inv S fits norm reset_count + job_queue enq waiting room
  for view :: "world \<Rightarrow> jobmap" and inv and S :: storage and fits norm reset_count
    and enq :: "'q enqueue" and waiting and room
begin

lemma view_cong_world: "table w' = table w \<Longrightarrow> view w' = view w \<and> inv w' = inv w"
  using view_table [of w' w] inv_table [of w' w] by simp

lemma enq_view:
  assumes "enq j q w = (x, q', w')"
  shows "view w' = view w" "inv w' = inv w" "healthy w' = healthy w"
  using enq_world [OF assms] view_cong_world [of w' w] by simp_all

subsection \<open>Nack\<close>

lemma nack_exhausted:
  assumes "healthy w" "inv w" "view w i = Some j" "MaxRetries j \<le> next_count j" "fits (next_count j)"
  shows "\<exists>w'. nack_with enq S i q w = (Inr (), q, w') \<and> healthy w' \<and> inv w' \<and> clock w' = clock w \<and>
    view w' = (view w)(i \<mapsto> after_failure (clock w) j) \<and>
    metrics w' = (metrics w)\<lparr>JobsFailed := inc_label (QueueType j) (JobsFailed (metrics w))\<rparr>"
proof -
  from retry_ok [OF assms(1-3) valid_status_consts(4) assms(5),
      of "''exhausted '' @ itoa (next_count j) @ '' retries''"]
  obtain w' where "UpdateJobRetry S i StatusFailed (next_count j)
      (''exhausted '' @ itoa (next_count j) @ '' retries'') w = (Inr (), w')" "healthy w'" "inv w'"
    "clock w' = clock w" "metrics w' = count_retry StatusFailed (QueueType j) (metrics w)"
    "view w' = spec_retry (clock w) i StatusFailed (next_count j)
      (''exhausted '' @ itoa (next_count j) @ '' retries'') (view w)"
    by blast
  with assms show ?thesis
    by (simp add: nack_with_def get_ok spec_retry_def after_failure_def count_retry_def next_count_def Let_def)
qed

lemma nack_pending:
  assumes "healthy w" "inv w" "view w i = Some j" "next_count j < MaxRetries j" "fits (next_count j)"
  obtains w1 where "nack_with enq S i q w = enq (j\<lparr>RetryCount := next_count j, Status := StatusPending\<rparr>) q w1"
    "healthy w1" "inv w1" "clock w1 = clock w" "view w1 = (view w)(i \<mapsto> after_retry (clock w) j)"
    "metrics w1 = (metrics w)\<lparr>JobsRetried := inc_label (QueueType j) (JobsRetried (metrics w))\<rparr>"
proof -
  from retry_ok [OF assms(1-3) valid_status_consts(1) assms(5), of "''''"]
  obtain w1 where w1: "UpdateJobRetry S i StatusPending (next_count j) '''' w = (Inr (), w1)" "healthy w1"
    "inv w1" "clock w1 = clock w" "metrics w1 = count_retry StatusPending (QueueType j) (metrics w)"
    "view w1 = spec_retry (clock w) i StatusPending (next_count j) '''' (view w)"
    by blast
  with assms show ?thesis
    by (intro that [of w1])
      (simp_all add: nack_with_def get_ok spec_retry_def after_retry_def count_retry_def next_count_def Let_def)
qed

text \<open>The database outcome of a \<open>Nack\<close> does not depend on the queue having room.\<close>

lemma nack_store:
  assumes "healthy w" "inv w" "view w i = Some j" "fits (next_count j)"
    "nack_with enq S i q w = (x, q', w')"
  shows "healthy w'" "inv w'" "clock w \<le> clock w'"
    "view w' = (view w)(i \<mapsto> (if MaxRetries j \<le> next_count j then after_failure (clock w) j
       else after_retry (clock w) j))"
proof -
  have "healthy w' \<and> inv w' \<and> clock w \<le> clock w' \<and>
    view w' = (view w)(i \<mapsto> (if MaxRetries j \<le> next_count j then after_failure (clock w) j
       else after_retry (clock w) j))"
  proof (cases "MaxRetries j \<le> next_count j")
    case True
    from nack_exhausted [OF assms(1-3) True assms(4), of q] assms(5) True show ?thesis by auto
  next
    case False
    then have "next_count j < MaxRetries j" by simp
    from assms(1-3) this assms(4) obtain w1 where
      w1: "nack_with enq S i q w = enq (j\<lparr>RetryCount := next_count j, Status := StatusPending\<rparr>) q w1"
      "healthy w1" "inv w1" "clock w1 = clock w" "view w1 = (view w)(i \<mapsto> after_retry (clock w) j)"
      by (rule nack_pending)
    with assms(5) have e: "enq (j\<lparr>RetryCount := next_count j, Status := StatusPending\<rparr>) q w1 = (x, q', w')"
      by simp
    from w1 enq_view [OF e] enq_world(4) [OF e] False show ?thesis by simp
  qed
  then show "healthy w'" "inv w'" "clock w \<le> clock w'"
    "view w' = (view w)(i \<mapsto> (if MaxRetries j \<le> next_count j then after_failure (clock w) j
       else after_retry (clock w) j))"
    by simp_all
qed

lemma nack_enqueues:
  assumes "healthy w" "inv w" "view w i = Some j" "next_count j < MaxRetries j" "fits (next_count j)" "room q 1"
  shows "\<exists>q' w'. nack_with enq S i q w = (Inr (), q', w') \<and>
    waiting q' = add_mset (j\<lparr>RetryCount := next_count j, Status := StatusPending\<rparr>) (waiting q)"
proof -
  from assms(1-5) obtain w1 where
    "nack_with enq S i q w = enq (j\<lparr>RetryCount := next_count j, Status := StatusPending\<rparr>) q w1"
    by (rule nack_pending)
  with enq_room [of q 0 "j\<lparr>RetryCount := next_count j, Status := StatusPending\<rparr>" w1] assms(6) show ?thesis
    by auto
qed

lemma nack_missing:
  assumes "healthy w" "inv w" "view w i = None"
  shows "nack_with enq S i q w = (Inl (Err (''nack: job '' @ i @ '' not found'')), q, w)"
  using assms by (simp add: nack_with_def get_ok)

end

section \<open>Recovery\<close>

text \<open>
  What recovery makes of a job it selects: a job left in processing goes back to pending. \<open>mark P\<close>
  is the effect on the store, \<open>pend\<close> the job that is put in the queue.
\<close>

definition pend :: "job \<Rightarrow> job" where
  "pend j = (if Status j = StatusProcessing then j\<lparr>Status := StatusPending\<rparr> else j)"

definition mark :: "(job \<Rightarrow> bool) \<Rightarrow> int \<Rightarrow> jobmap \<Rightarrow> jobmap" where
  "mark P now m = (\<lambda>i. map_option
     (\<lambda>j. if P j \<and> Status j = StatusProcessing then with_status now StatusPending '''' j else j) (m i))"

lemma mark_False [simp]: "mark (\<lambda>j. False) now m = m"
  by (simp add: mark_def option.map_ident)

lemma mark_cong: "(\<And>x. Status x = StatusProcessing \<Longrightarrow> P x = Q x) \<Longrightarrow> mark P now m = mark Q now m"
  unfolding mark_def by (rule ext, rule option.map_cong0) metis

lemma mark_step:
  assumes "m (ID j) = Some j" "sel j" "\<forall>x \<in> set js. ID x \<noteq> ID j" "\<And>i x. m i = Some x \<Longrightarrow> ID x = i"
  shows "mark (\<lambda>x. x \<in> set js \<and> sel x) now
      (m(ID j \<mapsto> (if Status j = StatusProcessing then with_status now StatusPending '''' j else j))) =
    mark (\<lambda>x. x \<in> set (j # js) \<and> sel x) now m"
proof
  fix i
  show "mark (\<lambda>x. x \<in> set js \<and> sel x) now
      (m(ID j \<mapsto> (if Status j = StatusProcessing then with_status now StatusPending '''' j else j))) i =
    mark (\<lambda>x. x \<in> set (j # js) \<and> sel x) now m i"
  proof (cases "i = ID j")
    case True
    then show ?thesis using assms(1-3) by (auto simp: mark_def with_status_def)
  next
    case False
    then show ?thesis using assms(4) [of i] by (cases "m i") (auto simp: mark_def)
  qed
qed

text \<open>
  Whatever the driver answers, none of these methods drops a job, takes an active job out of the
  active states, or breaks the table: \<open>keeps_active\<close> relates the store before and after.
\<close>

definition keeps_active :: "(world \<Rightarrow> jobmap) \<Rightarrow> (world \<Rightarrow> bool) \<Rightarrow> world \<Rightarrow> world \<Rightarrow> bool" where
  "keeps_active view I w w' \<longleftrightarrow> I w' \<and> dom (view w') = dom (view w) \<and>
     (\<forall>i j. view w i = Some j \<and> active j \<longrightarrow> (\<exists>j'. view w' i = Some j' \<and> active j'))"

lemma keeps_active_trans:
  "keeps_active view I w w1 \<Longrightarrow> keeps_active view I w1 w2 \<Longrightarrow> keeps_active view I w w2"
  by (auto simp: keeps_active_def)

lemma keeps_active_inv: "keeps_active view I w w' \<Longrightarrow> I w'"
  by (simp add: keeps_active_def)

context stored_queue
begin

lemma recover_step:
  assumes "healthy w" "inv w" "view w (ID j) = Some j"
  obtains w1 where "(if Status j = StatusProcessing then UpdateJobStatus S (ID j) StatusPending '''' w
      else (Inr (), w)) = (Inr (), w1)" "healthy w1" "inv w1" "clock w1 = clock w"
    "view w1 = (view w)(ID j \<mapsto>
       (if Status j = StatusProcessing then with_status (clock w) StatusPending '''' j else j))"
proof (cases "Status j = StatusProcessing")
  case True
  from status_ok [OF assms valid_status_consts(1), of "''''"] obtain w1 where
    "UpdateJobStatus S (ID j) StatusPending '''' w = (Inr (), w1)" "healthy w1" "inv w1"
    "clock w1 = clock w" "view w1 = spec_status (clock w) (ID j) StatusPending '''' (view w)" by blast
  then show ?thesis using assms(3) True by (intro that [of w1]) (simp_all add: spec_status_def)
next
  case False
  then show ?thesis using assms by (intro that [of w]) (simp_all add: fun_upd_idem)
qed

lemma recover_loop_ok:
  assumes "healthy w" "inv w" "\<forall>j \<in> set js. view w (ID j) = Some j" "distinct (map ID js)"
    "room q (length (filter sel js))"
  shows "\<exists>q' w'. recover_loop enq sel cnt S js q w = (Inr (), q', w') \<and> healthy w' \<and> inv w' \<and>
    clock w' = clock w \<and> waiting q' = waiting q + mset (map pend (filter sel js)) \<and>
    view w' = mark (\<lambda>j. j \<in> set js \<and> sel j) (clock w) (view w)"
  using assms
proof (induction js arbitrary: q w)
  case Nil
  then show ?case by simp
next
  case (Cons j js)
  let ?P = "\<lambda>x. x \<in> set js \<and> sel x" and ?Q = "\<lambda>x. x \<in> set (j # js) \<and> sel x"
  have "ID j \<notin> ID ` set js" using Cons.prems(4) by simp
  then have ne: "\<forall>x \<in> set js. ID x \<noteq> ID j" by (metis imageI)
  show ?case
  proof (cases "sel j")
    case False
    then have "mark ?Q (clock w) (view w) = mark ?P (clock w) (view w)" by (intro mark_cong) auto
    with Cons.IH [of w q] Cons.prems False show ?thesis by simp
  next
    case True
    define v where "v = (if Status j = StatusProcessing then with_status (clock w) StatusPending '''' j else j)"
    from Cons.prems(3) have "view w (ID j) = Some j" by simp
    with Cons.prems(1,2) obtain w1 where
      step: "(if Status j = StatusProcessing then UpdateJobStatus S (ID j) StatusPending '''' w
        else (Inr (), w)) = (Inr (), w1)" and
      w1: "healthy w1" "inv w1" "clock w1 = clock w" "view w1 = (view w)(ID j \<mapsto> v)"
      unfolding v_def by (rule recover_step)
    from True Cons.prems(5) have "room q (Suc (length (filter sel js)))" by simp
    from enq_room [OF this, of "pend j" w1] obtain q1 where
      q1: "enq (pend j) q w1 = (Inr (), q1, w1)" "waiting q1 = add_mset (pend j) (waiting q)"
      "room q1 (length (filter sel js))" by auto
    define w2 where "w2 = w1\<lparr>metrics := cnt (metrics w1)\<rparr>"
    have w2: "healthy w2" "inv w2" "clock w2 = clock w" "view w2 = (view w)(ID j \<mapsto> v)"
      using w1 view_cong_world [of w2 w1] by (simp_all add: w2_def)
    have "\<forall>x \<in> set js. view w2 (ID x) = Some x"
      using Cons.prems(3) ne by (simp add: w2)
    with Cons.IH [OF w2(1,2), of q1] Cons.prems(4) q1(3) obtain q' w' where
      r: "recover_loop enq sel cnt S js q1 w2 = (Inr (), q', w')" "healthy w'" "inv w'" "clock w' = clock w"
      "waiting q' = waiting q1 + mset (map pend (filter sel js))" "view w' = mark ?P (clock w) (view w2)"
      using w2(3) by auto
    have "mark ?P (clock w) (view w2) = mark ?Q (clock w) (view w)"
      unfolding w2 v_def using Cons.prems(3) True ne view_ID [OF Cons.prems(2)] by (intro mark_step) simp_all
    moreover have "recover_loop enq sel cnt S (j # js) q w = recover_loop enq sel cnt S js q1 w2"
      using True by (simp add: step q1(1) w2_def flip: pend_def)
    ultimately show ?thesis using r q1(2) True by auto
  qed
qed

lemma recover_ok:
  assumes h: "healthy w" and inv: "inv w"
    and room: "room q (card {i. \<exists>j. view w i = Some j \<and> active j \<and> sel j})"
  shows "\<exists>js q' w'. recover_with enq sel cnt S q w = (Inr (), q', w') \<and> healthy w' \<and> inv w' \<and>
    clock w' = clock w \<and> view w' = mark sel (clock w) (view w) \<and>
    set js = {j. (\<exists>i. view w i = Some j) \<and> active j \<and> sel j} \<and> distinct (map ID js) \<and>
    waiting q' = waiting q + mset (map pend js)"
proof -
  from pending_ok [OF h inv] obtain js where
    js: "ListPendingJobs S w = ((js, None), w)" "set js = {j. (\<exists>i. view w i = Some j) \<and> active j}"
    "distinct (map ID js)" by blast
  let ?fs = "filter sel js"
  have at: "\<forall>j \<in> set js. view w (ID j) = Some j"
    using js(2) view_ID [OF inv] by fastforce
  have d: "distinct (map ID ?fs)" using js(3) by (rule distinct_map_filter)
  have ids: "set (map ID ?fs) = {i. \<exists>j. view w i = Some j \<and> active j \<and> sel j}"
    using js(2) view_ID [OF inv] by (fastforce simp: image_iff)
  have "length ?fs = card {i. \<exists>j. view w i = Some j \<and> active j \<and> sel j}"
    using distinct_card [OF d] by (simp add: ids [symmetric])
  with room have "room q (length ?fs)" by simp
  from recover_loop_ok [OF h inv at js(3) this, of cnt] obtain q' w' where
    r: "recover_loop enq sel cnt S js q w = (Inr (), q', w')" "healthy w'" "inv w'" "clock w' = clock w"
    "waiting q' = waiting q + mset (map pend ?fs)" "view w' = mark (\<lambda>j. j \<in> set js \<and> sel j) (clock w) (view w)"
    by blast
  have "mark (\<lambda>j. j \<in> set js \<and> sel j) (clock w) (view w) = mark sel (clock w) (view w)"
  proof
    fix i
    show "mark (\<lambda>j. j \<in> set js \<and> sel j) (clock w) (view w) i = mark sel (clock w) (view w) i"
      using js(2) by (cases "view w i") (auto simp: mark_def active_def)
  qed
  moreover have "set ?fs = {j. (\<exists>i. view w i = Some j) \<and> active j \<and> sel j}" using js(2) by auto
  ultimately show ?thesis using js(1) r d by (intro exI [of _ ?fs]) (simp add: recover_with_def)
qed

lemma keeps_active_refl: "inv w \<Longrightarrow> table w' = table w \<Longrightarrow> keeps_active view inv w w'"
  using view_cong_world [of w' w] by (simp add: keeps_active_def)

lemma keeps_active_then: "keeps_active view inv w w1 \<Longrightarrow> table w' = table w1 \<Longrightarrow> keeps_active view inv w w'"
  using view_cong_world [of w' w1] by (simp add: keeps_active_def)

lemma status_keeps_active:
  assumes "inv w" "UpdateJobStatus S i st msg w = (x, w')" "st = StatusPending \<or> st = StatusProcessing"
  shows "keeps_active view inv w w'"
proof (cases x)
  case (Inl e)
  with assms(2) fail_atomic(2) [of i st msg w e] have "table w' = table w" by simp
  with assms(1) show ?thesis by (rule keeps_active_refl)
next
  case (Inr u)
  with assms status_effect [of w i st msg w'] inv_kept(2) [of w i st msg] show ?thesis
    by (auto simp: keeps_active_def spec_status_def active_def with_status_def dom_def)
qed

lemma enq_keeps_active: "keeps_active view inv w w1 \<Longrightarrow> enq j q w1 = (x, q', w') \<Longrightarrow> keeps_active view inv w w'"
  using enq_world(1) keeps_active_then by blast

lemma recover_loop_safe:
  "inv w \<Longrightarrow> recover_loop enq sel cnt S js q w = (x, q', w') \<Longrightarrow> keeps_active view inv w w'"
proof (induction js arbitrary: q w)
  case Nil
  then show ?case by (auto intro: keeps_active_refl)
next
  case (Cons j js)
  show ?case
  proof (cases "sel j")
    case False
    with Cons show ?thesis by simp
  next
    case True
    obtain y w1 where s: "(if Status j = StatusProcessing then UpdateJobStatus S (ID j) StatusPending '''' w
        else (Inr (), w)) = (y, w1)" by (metis surj_pair)
    then have k1: "keeps_active view inv w w1"
      using Cons.prems(1) status_keeps_active [of w "ID j" StatusPending "''''" y w1]
      by (auto split: if_splits intro: keeps_active_refl)
    show ?thesis
    proof (cases y)
      case (Inl e)
      with s True Cons.prems(2) k1 show ?thesis by simp
    next
      case (Inr u)
      obtain z q2 w2 where e: "enq (pend j) q w1 = (z, q2, w2)" by (metis surj_pair)
      with k1 have k2: "keeps_active view inv w w2" by (rule enq_keeps_active)
      show ?thesis
      proof (cases z)
        case (Inl e')
        with s e True Inr Cons.prems(2) k2 show ?thesis by (simp add: pend_def)
      next
        case (Inr u')
        let ?w3 = "w2\<lparr>metrics := cnt (metrics w2)\<rparr>"
        from k2 have k3: "keeps_active view inv w ?w3" by (rule keeps_active_then) simp
        have "recover_loop enq sel cnt S js q2 ?w3 = (x, q', w')"
          using Cons.prems(2) s e True Inr \<open>y = Inr u\<close> by (simp add: pend_def)
        from Cons.IH [OF keeps_active_inv [OF k3] this] k3 show ?thesis by (blast intro: keeps_active_trans)
      qed
    qed
  qed
qed

lemma recover_safe:
  assumes "inv w" "recover_with enq sel cnt S q w = (x, q', w')"
  shows "keeps_active view inv w w'"
proof -
  obtain js oe w1 where l: "ListPendingJobs S w = ((js, oe), w1)" by (metis surj_pair)
  with pending_table [of w] have k: "keeps_active view inv w w1" using assms(1) by (intro keeps_active_refl) simp_all
  show ?thesis
  proof (cases oe)
    case None
    with assms(2) l have "recover_loop enq sel cnt S js q w1 = (x, q', w')" by (simp add: recover_with_def)
    with k keeps_active_inv [OF k] show ?thesis by (blast intro: keeps_active_trans recover_loop_safe)
  next
    case (Some e)
    with assms(2) l k show ?thesis by (simp add: recover_with_def)
  qed
qed

end

section \<open>Sweeping, requeueing, retrying\<close>

text \<open>The jobs a sweep at time \<open>now\<close> picks up: pending ones, and ones stuck in processing.\<close>

definition stale :: "int \<Rightarrow> job \<Rightarrow> bool" where
  "stale now j \<longleftrightarrow> Status j = StatusPending \<or> 10 * Minute < now - UpdatedAt j"

context stored_queue
begin

text \<open>A sweep that finds room does what a recovery of the stale jobs does.\<close>

lemma sweep_loop_recover:
  "\<forall>j \<in> set js. active j \<Longrightarrow> clock w = now \<Longrightarrow>
   recover_loop enq (\<lambda>j. sel j \<and> stale now j) (\<lambda>m. m) S js q w = (Inr (), q', w') \<Longrightarrow>
   sweep_loop enq sel S js q w = (q', w')"
proof (induction js arbitrary: q w)
  case Nil
  then show ?case by simp
next
  case (Cons j js)
  show ?case
  proof (cases "sel j \<and> stale now j")
    case False
    with Cons show ?thesis by (auto simp: stale_def active_def)
  next
    case True
    with Cons.prems(3) obtain w1 q2 w2 where
      s: "(if Status j = StatusProcessing then UpdateJobStatus S (ID j) StatusPending '''' w else (Inr (), w)) =
        (Inr (), w1)" and
      e: "enq (pend j) q w1 = (Inr (), q2, w2)" and
      r: "recover_loop enq (\<lambda>j. sel j \<and> stale now j) (\<lambda>m. m) S js q2 w2 = (Inr (), q', w')"
      by (auto simp: pend_def split: prod.splits sum.splits if_splits)
    from s have "clock w1 = clock w"
      using clock_kept(2) [of "ID j" StatusPending "''''" w] by (auto split: if_splits)
    moreover from e have "w2 = w1" by (cases rule: enq_cases [of "pend j" q w1]) auto
    ultimately have "sweep_loop enq sel S js q2 w2 = (q', w')"
      using Cons.IH [OF _ _ r] Cons.prems(1,2) by simp
    with s e True Cons.prems(1,2) show ?thesis
      by (cases "Status j = StatusProcessing") (auto simp: pend_def stale_def active_def)
  qed
qed

lemma sweep_ok:
  assumes h: "healthy w" and inv: "inv w"
    and room: "room q (card {i. \<exists>j. view w i = Some j \<and> active j \<and> sel j \<and> stale (clock w) j})"
  shows "\<exists>js q' w'. sweep_with enq sel S q w = (q', w') \<and> healthy w' \<and> inv w' \<and>
    view w' = mark (\<lambda>j. sel j \<and> stale (clock w) j) (clock w) (view w) \<and>
    set js = {j. (\<exists>i. view w i = Some j) \<and> active j \<and> sel j \<and> stale (clock w) j} \<and>
    distinct (map ID js) \<and> waiting q' = waiting q + mset (map pend js)"
proof -
  from recover_ok [OF h inv room, of "\<lambda>m. m"] obtain js q' w' where
    r: "recover_with enq (\<lambda>j. sel j \<and> stale (clock w) j) (\<lambda>m. m) S q w = (Inr (), q', w')"
    "healthy w'" "inv w'" "view w' = mark (\<lambda>j. sel j \<and> stale (clock w) j) (clock w) (view w)"
    "set js = {j. (\<exists>i. view w i = Some j) \<and> active j \<and> sel j \<and> stale (clock w) j}"
    "distinct (map ID js)" "waiting q' = waiting q + mset (map pend js)"
    by blast
  from pending_ok [OF h inv] obtain ls where
    ls: "ListPendingJobs S w = ((ls, None), w)" "set ls = {j. (\<exists>i. view w i = Some j) \<and> active j}" by blast
  with r(1) have "recover_loop enq (\<lambda>j. sel j \<and> stale (clock w) j) (\<lambda>m. m) S ls q w = (Inr (), q', w')"
    by (simp add: recover_with_def)
  from sweep_loop_recover [OF _ _ this] ls have "sweep_with enq sel S q w = (q', w')"
    by (simp add: sweep_with_def)
  with r show ?thesis by blast
qed

lemma sweep_loop_safe:
  "inv w \<Longrightarrow> sweep_loop enq sel S js q w = (q', w') \<Longrightarrow> keeps_active view inv w w'"
proof (induction js arbitrary: q w)
  case Nil
  then show ?case by (auto intro: keeps_active_refl)
next
  case (Cons j js)
  have nxt: "keeps_active view inv w w'"
    if "keeps_active view inv w w1" "sweep_loop enq sel S js q1 w1 = (q', w')" for q1 w1
    by (rule keeps_active_trans [OF that(1) Cons.IH [OF keeps_active_inv [OF that(1)] that(2)]])
  have enqd: "keeps_active view inv w w'"
    if k: "keeps_active view inv w w1"
      and s: "(case enq k q w1 of (_, q2, w2) \<Rightarrow> sweep_loop enq sel S js q2 w2) = (q', w')" for k w1
    using s by (auto split: prod.splits intro: nxt enq_keeps_active [OF k])
  obtain x w1 where u: "UpdateJobStatus S (ID j) StatusPending '''' w = (x, w1)" by (metis surj_pair)
  have k1: "keeps_active view inv w w1" using status_keeps_active [OF Cons.prems(1) u] by simp
  have k0: "keeps_active view inv w w" using Cons.prems(1) by (simp add: keeps_active_refl)
  from Cons.prems(2) show ?case
    by (auto simp: u split: if_splits sum.splits intro: nxt [OF k0] enqd [OF k0] nxt [OF k1] enqd [OF k1])
qed

lemma requeue_ok_queue:
  assumes "healthy w" "inv w" "view w i = Some j" "room q 1"
  shows "\<exists>q' w'. requeue_with enq S i q w = (Inr (), q', w') \<and> healthy w' \<and> inv w' \<and>
    view w' = (view w)(i \<mapsto> j\<lparr>Status := StatusPending, UpdatedAt := clock w\<rparr>) \<and>
    waiting q' = add_mset (j\<lparr>Status := StatusPending, UpdatedAt := clock w\<rparr>) (waiting q)"
proof -
  let ?j = "j\<lparr>Status := StatusPending, UpdatedAt := clock w\<rparr>"
  from requeue_ok [OF assms(1,2), of i] obtain w1 where
    w1: "Requeue S i w = (Inr (), w1)" "healthy w1" "inv w1" "view w1 = spec_requeue (clock w) i (view w)" by blast
  with assms(3) have g: "GetJob S i w1 = (Inr (Some ?j), w1)" by (simp add: get_ok spec_requeue_def)
  from enq_room [of q 0 "?j\<lparr>Status := StatusPending\<rparr>" w1] assms(4) obtain q' where
    "enq (?j\<lparr>Status := StatusPending\<rparr>) q w1 = (Inr (), q', w1)"
    "waiting q' = add_mset (?j\<lparr>Status := StatusPending\<rparr>) (waiting q)" by auto
  with w1 g assms(3) show ?thesis by (simp add: requeue_with_def spec_requeue_def)
qed

lemma requeue_unknown:
  assumes "healthy w" "inv w" "view w i = None"
  shows "\<exists>w'. requeue_with enq S i q w = (Inl (Err (''requeue: job '' @ i @ '' not found'')), q, w') \<and>
    view w' = view w"
proof -
  from requeue_ok [OF assms(1,2), of i] obtain w1 where
    w1: "Requeue S i w = (Inr (), w1)" "healthy w1" "inv w1" "view w1 = spec_requeue (clock w) i (view w)" by blast
  with assms(3) have "view w1 = view w" by (auto simp: spec_requeue_def)
  with w1 assms(3) show ?thesis by (simp add: requeue_with_def get_ok)
qed

lemma retry_ok_queue:
  assumes "healthy w" "inv w" "view w i = Some j" "Status j = StatusFailed" "fits (MaxRetries j + n)" "room q 1"
  shows "\<exists>q' w' j'. retry_with enq S i n q w = (Inr (), q', w') \<and> healthy w' \<and> inv w' \<and>
    j' = j\<lparr>Status := StatusPending, RetryCount := reset_count (RetryCount j), MaxRetries := MaxRetries j + n,
      ErrorMessage := '''', UpdatedAt := clock w\<rparr> \<and>
    view w' = (view w)(i \<mapsto> j') \<and> waiting q' = add_mset j' (waiting q)"
proof -
  let ?j = "j\<lparr>Status := StatusPending, RetryCount := reset_count (RetryCount j), MaxRetries := MaxRetries j + n,
      ErrorMessage := '''', UpdatedAt := clock w\<rparr>"
  from reset_ok [OF assms(1-5)] obtain w1 where
    w1: "ResetForRetry S i n w = (Inr (), w1)" "healthy w1" "inv w1"
    "view w1 = spec_reset reset_count (clock w) i n (view w)" by blast
  with assms(3) have g: "GetJob S i w1 = (Inr (Some ?j), w1)" by (simp add: get_ok spec_reset_def)
  from enq_room [of q 0 "?j\<lparr>Status := StatusPending\<rparr>" w1] assms(6) obtain q' where
    "enq (?j\<lparr>Status := StatusPending\<rparr>) q w1 = (Inr (), q', w1)"
    "waiting q' = add_mset (?j\<lparr>Status := StatusPending\<rparr>) (waiting q)" by auto
  with w1 g assms(3) show ?thesis by (simp add: retry_with_def spec_reset_def)
qed

lemma retry_refused_queue:
  assumes "healthy w" "inv w" "\<And>j. view w i = Some j \<Longrightarrow> Status j \<noteq> StatusFailed"
  shows "retry_with enq S i n q w = (Inl (Err ''job not found or not in failed state''), q, w)"
  using reset_refused [OF assms] by (simp add: retry_with_def)

end

section \<open>Repeated failure\<close>

text \<open>\<open>k\<close> failures of the same job in a row.\<close>

fun nack_times :: "'q enqueue \<Rightarrow> storage \<Rightarrow> string \<Rightarrow> nat \<Rightarrow> 'q \<Rightarrow> world \<Rightarrow> 'q \<times> world" where
  "nack_times enq S i 0 q w = (q, w)"
| "nack_times enq S i (Suc k) q w =
     (case nack_with enq S i q w of (_, q1, w1) \<Rightarrow> nack_times enq S i k q1 w1)"

context stored_queue
begin

lemma nack_times_store:
  assumes "healthy w" "inv w" "view w i = Some j" "int64 (RetryCount j)" "int64 (MaxRetries j)"
    "\<And>n. RetryCount j \<le> n \<Longrightarrow> n \<le> MaxRetries j \<Longrightarrow> fits n"
    "RetryCount j + int k \<le> MaxRetries j" "nack_times enq S i k q w = (q', w')" "k \<noteq> 0"
  shows "\<exists>j'. view w' = (view w)(i \<mapsto> j') \<and> RetryCount j' = RetryCount j + int k \<and>
    MaxRetries j' = MaxRetries j \<and>
    Status j' = (if RetryCount j + int k = MaxRetries j then StatusFailed else StatusPending)"
  using assms
proof (induction k arbitrary: q w j)
  case 0
  then show ?case by simp
next
  case (Suc k)
  obtain x q1 w1 where n: "nack_with enq S i q w = (x, q1, w1)" by (metis surj_pair)
  have nc: "next_count j = RetryCount j + 1"
    using Suc.prems(4,5,7) wrap64_Suc [of "RetryCount j" "MaxRetries j"] by (simp add: next_count_def)
  have fit: "fits (next_count j)" unfolding nc by (rule Suc.prems(6)) (use Suc.prems(7) in simp_all)
  define j1 where "j1 = (if MaxRetries j \<le> next_count j then after_failure (clock w) j else after_retry (clock w) j)"
  note s = nack_store [OF Suc.prems(1-3) fit n]
  have v1: "view w1 = (view w)(i \<mapsto> j1)" using s(4) by (simp add: j1_def)
  have j1: "RetryCount j1 = RetryCount j + 1" "MaxRetries j1 = MaxRetries j"
    "Status j1 = (if RetryCount j + 1 = MaxRetries j then StatusFailed else StatusPending)"
    using Suc.prems(7) by (auto simp: j1_def nc)
  have rest: "nack_times enq S i k q1 w1 = (q', w')" using Suc.prems(8) n by simp
  show ?case
  proof (cases k)
    case 0
    with rest v1 j1 show ?thesis by auto
  next
    case (Suc m)
    have "int64 (RetryCount j1)" using Suc.prems(4,5,7) Suc by (simp add: j1 int64_def)
    moreover have "view w1 i = Some j1" by (simp add: v1)
    ultimately have "\<exists>j'. view w' = (view w1)(i \<mapsto> j') \<and> RetryCount j' = RetryCount j1 + int k \<and>
      MaxRetries j' = MaxRetries j1 \<and>
      Status j' = (if RetryCount j1 + int k = MaxRetries j1 then StatusFailed else StatusPending)"
      using Suc.prems(5-7) s(1,2) rest Suc by (intro Suc.IH [of w1 j1 q1]) (simp_all add: j1)
    then show ?thesis by (auto simp: v1 j1)
  qed
qed

end

section \<open>Invariants of the queue itself\<close>

text \<open>
  What \<open>Enqueue\<close> keeps of a queue when it is given selected jobs, \<open>Recover\<close> and \<open>sweep\<close> keep if they
  select no others, whatever the storage answers.
\<close>

locale selected_invariant =
  fixes enq :: "'q enqueue"
    and P :: "'q \<Rightarrow> bool"
    and chosen :: "job \<Rightarrow> bool"
  assumes enq_chosen: "chosen j \<Longrightarrow> P q \<Longrightarrow> P (fst (snd (enq j q w)))"
    and chosen_status: "chosen (j\<lparr>Status := s\<rparr>) = chosen j"
begin

lemma enq_chosen_eq: "enq j q w = (x, q', w') \<Longrightarrow> chosen j \<Longrightarrow> P q \<Longrightarrow> P q'"
  using enq_chosen [of j q w] by simp

lemma recover_loop_chosen:
  "P q \<Longrightarrow> \<forall>j. sel j \<longrightarrow> chosen j \<Longrightarrow> P (fst (snd (recover_loop enq sel cnt S js q w)))"
proof (induction js arbitrary: q w)
  case (Cons j js)
  then show ?case
    by (auto split: prod.splits sum.splits dest: enq_chosen_eq simp: chosen_status)
qed simp

lemma recover_chosen: "P q \<Longrightarrow> \<forall>j. sel j \<longrightarrow> chosen j \<Longrightarrow> P (fst (snd (recover_with enq sel cnt S q w)))"
  by (auto simp: recover_with_def recover_loop_chosen split: prod.splits option.splits)

lemma sweep_loop_chosen: "P q \<Longrightarrow> \<forall>j. sel j \<longrightarrow> chosen j \<Longrightarrow> P (fst (sweep_loop enq sel S js q w))"
proof (induction js arbitrary: q w)
  case (Cons j js)
  then show ?case
    by (auto split: prod.splits sum.splits dest: enq_chosen_eq simp: chosen_status)
qed simp

lemma sweep_chosen: "P q \<Longrightarrow> \<forall>j. sel j \<longrightarrow> chosen j \<Longrightarrow> P (fst (sweep_with enq sel S q w))"
  by (auto simp: sweep_with_def sweep_loop_chosen split: prod.splits option.splits)

end

text \<open>What \<open>Enqueue\<close> keeps of a queue with any job, every method built on it keeps.\<close>

locale enqueue_invariant =
  fixes enq :: "'q enqueue"
    and P :: "'q \<Rightarrow> bool"
  assumes enq_keeps: "P q \<Longrightarrow> P (fst (snd (enq j q w)))"

sublocale enqueue_invariant \<subseteq> selected_invariant enq P "\<lambda>j. True"
  by unfold_locales (simp_all add: enq_keeps)

context enqueue_invariant
begin

lemma nack_keeps: "P q \<Longrightarrow> P (fst (snd (nack_with enq S i q w)))"
  by (auto simp: nack_with_def Let_def enq_keeps split: prod.splits sum.splits option.splits)

lemma requeue_keeps: "P q \<Longrightarrow> P (fst (snd (requeue_with enq S i q w)))"
  by (auto simp: requeue_with_def enq_keeps split: prod.splits sum.splits option.splits)

lemma retry_keeps: "P q \<Longrightarrow> P (fst (snd (retry_with enq S i n q w)))"
  by (auto simp: retry_with_def enq_keeps split: prod.splits sum.splits option.splits)

lemma recover_keeps: "P q \<Longrightarrow> P (fst (snd (recover_with enq sel cnt S q w)))"
  by (simp add: recover_chosen)

lemma sweep_keeps: "P q \<Longrightarrow> P (fst (sweep_with enq sel S q w))"
  by (simp add: sweep_chosen)

lemmas all_keep = enq_keeps nack_keeps requeue_keeps retry_keeps recover_keeps sweep_keeps

end

end
