(* ===== verification/Queue_Frames.thy ===== *)
theory Queue_Frames
  imports Queue_Interface
begin

text \<open>
  What the shared methods of the queues leave alone, under any answers of the database driver: the
  identity of every stored job (the locale \<open>queue_preorder\<close>), and, for a method that deals with other
  jobs, a job as a whole (\<open>leaves\<close>, in the locale \<open>stored_queue\<close>).
\<close>

section \<open>What the methods keep of the store\<close>

text \<open>
  If every storage operation respects a preorder on worlds, and \<open>Enqueue\<close> leaves the table alone, every
  method does, whatever the driver answers.
\<close>

locale queue_preorder = storage_preorder S R admitted for S R admitted +
  fixes enq :: "'q enqueue"
  assumes enq_table: "enq j q w = (x, q', w') \<Longrightarrow> table w' = table w"
    and enq_metrics: "enq j q w = (x, q', w') \<Longrightarrow> metrics w' = metrics w"
begin

lemma R_enq: "R w w1 \<Longrightarrow> enq j q w1 = (x, q', w') \<Longrightarrow> R w w'"
  using R_then [of w w1 w'] by (simp add: enq_table enq_metrics)

lemma R_refl: "R w w"
  by (rule R_table; simp)

lemma ack_R: "ack S i w = (x, w') \<Longrightarrow> R w w'"
  by (simp add: ack_def R_eqs(4) [of StatusCompleted])

lemma set_processing_R: "admitted StatusProcessing \<Longrightarrow> set_processing S i w = (x, w') \<Longrightarrow> R w w'"
  by (simp add: set_processing_def R_eqs(4) [of StatusProcessing])

lemma nack_R: "nack_with enq S i q w = (x, q', w') \<Longrightarrow> R w w'"
  by (auto simp: nack_with_def Let_def split: prod.splits sum.splits option.splits if_splits
      dest: R_eqs(1) R_eqs(5) [OF settled_admitted(1)] R_eqs(5) [OF settled_admitted(3)] R_enq intro: R_trans)

lemma requeue_R: "requeue_with enq S i q w = (x, q', w') \<Longrightarrow> R w w'"
  by (auto simp: requeue_with_def split: prod.splits sum.splits option.splits
      dest: R_eqs(1,6) R_enq intro: R_trans)

lemma retry_R: "retry_with enq S i n q w = (x, q', w') \<Longrightarrow> 0 \<le> n \<Longrightarrow> R w w'"
  by (auto simp: retry_with_def split: prod.splits sum.splits option.splits
      dest: R_eqs(1,7) R_enq intro: R_trans)

lemma recover_loop_R:
  assumes "\<And>m. WorkersBusy (cnt m) = WorkersBusy m"
  shows "recover_loop enq sel cnt S js q w = (x, q', w') \<Longrightarrow> R w w'"
proof (induction js arbitrary: q w)
  case (Cons j js)
  have m: "R w2 (w2\<lparr>metrics := cnt (metrics w2)\<rparr>)" for w2 by (rule R_table) (simp_all add: assms)
  show ?case
  proof (cases "sel j")
    case True
    obtain y w1 where s: "(if Status j = StatusProcessing then UpdateJobStatus S (ID j) StatusPending '''' w
        else (Inr (), w)) = (y, w1)" by (metis surj_pair)
    then have r1: "R w w1" by (auto split: if_splits intro: R_eqs(4) [OF settled_admitted(1)] R_refl)
    obtain z q2 w2 where e: "enq (if Status j = StatusProcessing then j\<lparr>Status := StatusPending\<rparr> else j) q w1 =
      (z, q2, w2)" by (metis surj_pair)
    have r2: "R w w2" by (rule R_enq [OF r1 e])
    from Cons.prems True s e have "w' = w1 \<or> w' = w2 \<or>
        recover_loop enq sel cnt S js q2 (w2\<lparr>metrics := cnt (metrics w2)\<rparr>) = (x, q', w')"
      by (auto split: sum.splits)
    with r1 r2 Cons.IH m R_trans show ?thesis by blast
  qed (use Cons in simp)
qed (simp add: R_refl)

lemma recover_R:
  assumes "\<And>m. WorkersBusy (cnt m) = WorkersBusy m"
  shows "recover_with enq sel cnt S q w = (x, q', w') \<Longrightarrow> R w w'"
  by (auto simp: recover_with_def split: prod.splits option.splits
      dest: R_eqs(2) recover_loop_R [OF assms] intro: R_trans)

lemma sweep_loop_R: "sweep_loop enq sel S js q w = (q', w') \<Longrightarrow> R w w'"
proof (induction js arbitrary: q w)
  case (Cons j js)
  obtain x1 q1 w1 where e1: "enq j q w = (x1, q1, w1)" by (metis surj_pair)
  obtain y w2 where u: "UpdateJobStatus S (ID j) StatusPending '''' w = (y, w2)" by (metis surj_pair)
  obtain x3 q3 w3 where e3: "enq (j\<lparr>Status := StatusPending\<rparr>) q w2 = (x3, q3, w3)" by (metis surj_pair)
  have "R w w1" "R w w2" using R_enq [OF R_refl e1] R_eqs(4) [OF settled_admitted(1) u] .
  moreover have "R w w3" by (rule R_enq [OF calculation(2) e3])
  moreover have "\<exists>q0 w0. (w0 = w \<or> w0 = w1 \<or> w0 = w2 \<or> w0 = w3) \<and> sweep_loop enq sel S js q0 w0 = (q', w')"
    using Cons.prems e1 u e3 by (auto split: if_splits sum.splits)
  ultimately show ?case using Cons.IH R_trans by blast
qed (simp add: R_refl)

lemma sweep_R: "sweep_with enq sel S q w = (q', w') \<Longrightarrow> R w w'"
  by (auto simp: sweep_with_def split: prod.splits option.splits dest: R_eqs(2) sweep_loop_R intro: R_trans)

end

sublocale stored_queue \<subseteq> methods: queue_preorder S "keeps_jobs view inv" "\<lambda>_. True" enq
  by unfold_locales (rule enq_world(1,3), assumption)+

section \<open>Jobs a method does not deal with\<close>

text \<open>
  A method that deals with other jobs only leaves the job \<open>i\<close> as it is stored, and does not put it in the
  queue.
\<close>

definition leaves_job :: "(world \<Rightarrow> jobmap) \<Rightarrow> (world \<Rightarrow> bool) \<Rightarrow> ('q \<Rightarrow> job multiset) \<Rightarrow> string \<Rightarrow>
    'q \<Rightarrow> world \<Rightarrow> 'q \<Rightarrow> world \<Rightarrow> bool" where
  "leaves_job view I waiting i q w q' w' \<longleftrightarrow> (I w \<and> i \<notin> ID ` set_mset (waiting q) \<longrightarrow>
     I w' \<and> view w' i = view w i \<and> i \<notin> ID ` set_mset (waiting q'))"

context stored_queue
begin

abbreviation leaves :: "string \<Rightarrow> 'q \<Rightarrow> world \<Rightarrow> 'q \<Rightarrow> world \<Rightarrow> bool" where
  "leaves \<equiv> leaves_job view inv waiting"

lemmas leaves_def = leaves_job_def

lemma leaves_trans: "leaves i q w q1 w1 \<Longrightarrow> leaves i q1 w1 q2 w2 \<Longrightarrow> leaves i q w q2 w2"
  by (simp add: leaves_def)

lemma leaves_same: "same_at view inv i w w' \<Longrightarrow> leaves i q w q w'"
  by (simp add: same_at_def leaves_def)

lemma leaves_enq: "enq j q w = (x, q', w') \<Longrightarrow> ID j \<noteq> i \<Longrightarrow> leaves i q w q' w'"
  using enq_waiting [of j q w x q' w'] enq_view [of j q w x q' w'] by (auto simp: leaves_def split: if_splits)

text \<open>The end of \<open>Nack\<close>, \<open>Requeue\<close> and \<open>Retry\<close>: the job that was read is enqueued.\<close>

lemma got_ID: "GetJob S k w = (Inr (Some j), w1) \<Longrightarrow> inv w \<Longrightarrow> ID j = k"
  using get_sound view_ID by blast

lemma leaves_got:
  assumes "GetJob S k w = (Inr (Some j), w1)" "same_at view inv i w w2" "ID j' = ID j" "enq j' q w2 = (x, q', w')" "k \<noteq> i"
  shows "leaves i q w q' w'"
proof (cases "inv w")
  case True
  with got_ID [OF assms(1)] assms(3,5) have "ID j' \<noteq> i" by simp
  with leaves_enq [OF assms(4)] leaves_same [OF assms(2)] show ?thesis by (blast intro: leaves_trans)
qed (simp add: leaves_def)

lemma nack_leaves:
  assumes n: "nack_with enq S k q w = (x, q', w')" and k: "k \<noteq> i"
  shows "leaves i q w q' w'"
proof -
  obtain g w1 where g: "GetJob S k w = (g, w1)" by (metis surj_pair)
  have s1: "same_at view inv i w w1" by (rule same_at_eqs(6) [OF g])
  show ?thesis
  proof (cases "\<exists>j. g = Inr (Some j)")
    case False
    with n g have "q' = q" "w' = w1" by (auto simp: nack_with_def split: sum.splits option.splits)
    with s1 show ?thesis by (simp add: leaves_same)
  next
    case True
    then obtain j where j: "g = Inr (Some j)" by blast
    let ?st = "if MaxRetries j \<le> next_count j then StatusFailed else StatusPending"
    let ?msg = "if MaxRetries j \<le> next_count j then ''exhausted '' @ itoa (next_count j) @ '' retries'' else ''''"
    obtain y w2 where u: "UpdateJobRetry S k ?st (next_count j) ?msg w1 = (y, w2)" by (metis surj_pair)
    have s2: "same_at view inv i w w2" using s1 same_at_eqs(2) [OF u k] by (rule same_at_trans)
    from n g j u have "q' = q \<and> w' = w2 \<or> enq (j\<lparr>RetryCount := next_count j, Status := StatusPending\<rparr>) q w2 = (x, q', w')"
      by (auto simp: nack_with_def Let_def next_count_def split: if_splits sum.splits)
    then show ?thesis
    proof
      assume "q' = q \<and> w' = w2"
      with s2 show ?thesis by (simp add: leaves_same)
    next
      assume e: "enq (j\<lparr>RetryCount := next_count j, Status := StatusPending\<rparr>) q w2 = (x, q', w')"
      show ?thesis by (rule leaves_got [OF g [unfolded j] s2 _ e k]) simp
    qed
  qed
qed

text \<open>\<open>Requeue\<close> and \<open>Retry\<close> update the job, read it and enqueue it.\<close>

lemma update_get_leaves:
  assumes s: "same_at view inv i w w1" and g: "GetJob S k w1 = (g, w2)" and k: "k \<noteq> i"
    and r: "case g of Inr (Some j) \<Rightarrow> enq (j\<lparr>Status := StatusPending\<rparr>) q w2 = (x, q', w') | _ \<Rightarrow> q' = q \<and> w' = w2"
  shows "leaves i q w q' w'"
proof (cases "\<exists>j. g = Inr (Some j)")
  case True
  then obtain j where j: "g = Inr (Some j)" by blast
  with r have e: "enq (j\<lparr>Status := StatusPending\<rparr>) q w2 = (x, q', w')" by simp
  have "leaves i q w1 q' w'" by (rule leaves_got [OF g [unfolded j] same_at_eqs(6) [OF g] _ e k]) simp
  with leaves_same [OF s] show ?thesis by (rule leaves_trans)
next
  case False
  with r have "q' = q" "w' = w2" by (auto split: sum.splits option.splits)
  with same_at_trans [OF s same_at_eqs(6) [OF g]] show ?thesis by (simp add: leaves_same)
qed

lemma requeue_leaves:
  assumes "requeue_with enq S k q w = (x, q', w')" "k \<noteq> i"
  shows "leaves i q w q' w'"
proof -
  obtain y w1 where u: "Requeue S k w = (y, w1)" by (metis surj_pair)
  obtain g w2 where g: "GetJob S k w1 = (g, w2)" by (metis surj_pair)
  note s = same_at_eqs(3) [OF u assms(2)]
  show ?thesis
  proof (cases y)
    case (Inl e)
    with assms(1) u s show ?thesis by (simp add: requeue_with_def leaves_same)
  next
    case (Inr z)
    with assms(1) u g show ?thesis
      by (intro update_get_leaves [OF s g assms(2)]) (auto simp: requeue_with_def split: sum.splits option.splits)
  qed
qed

lemma retry_leaves:
  assumes "retry_with enq S k n q w = (x, q', w')" "k \<noteq> i"
  shows "leaves i q w q' w'"
proof -
  obtain y w1 where u: "ResetForRetry S k n w = (y, w1)" by (metis surj_pair)
  obtain g w2 where g: "GetJob S k w1 = (g, w2)" by (metis surj_pair)
  note s = same_at_eqs(4) [OF u assms(2)]
  show ?thesis
  proof (cases y)
    case (Inl e)
    with assms(1) u s show ?thesis by (simp add: retry_with_def leaves_same)
  next
    case (Inr z)
    with assms(1) u g show ?thesis
      by (intro update_get_leaves [OF s g assms(2)]) (auto simp: retry_with_def split: sum.splits option.splits)
  qed
qed

text \<open>Recovery and sweeping deal with active jobs, so they leave a finished one alone.\<close>

lemma leaves_refl: "table w' = table w \<Longrightarrow> leaves i q w q w'"
  by (rule leaves_same) (rule same_at_table)

lemma recover_loop_leaves:
  "recover_loop enq sel cnt S js q w = (x, q', w') \<Longrightarrow> \<forall>j \<in> set js. ID j \<noteq> i \<Longrightarrow> leaves i q w q' w'"
proof (induction js arbitrary: q w)
  case (Cons j js)
  show ?case
  proof (cases "sel j")
    case True
    obtain y w1 where s: "(if Status j = StatusProcessing then UpdateJobStatus S (ID j) StatusPending '''' w
        else (Inr (), w)) = (y, w1)" by (metis surj_pair)
    then have l1: "leaves i q w q w1"
      using Cons.prems(2) by (auto split: if_splits intro: leaves_refl leaves_same same_at_eqs(1))
    let ?j = "if Status j = StatusProcessing then j\<lparr>Status := StatusPending\<rparr> else j"
    obtain z q2 w2 where e: "enq ?j q w1 = (z, q2, w2)" by (metis surj_pair)
    have l2: "leaves i q w q2 w2" by (rule leaves_trans [OF l1 leaves_enq [OF e]]) (use Cons.prems(2) in simp)
    let ?w3 = "w2\<lparr>metrics := cnt (metrics w2)\<rparr>"
    have l3: "leaves i q w q2 ?w3" by (rule leaves_trans [OF l2 leaves_refl]) simp
    from Cons.prems(1) True s e have "q' = q \<and> w' = w1 \<or> q' = q2 \<and> w' = w2 \<or>
        recover_loop enq sel cnt S js q2 ?w3 = (x, q', w')"
      by (auto split: sum.splits)
    with l1 l2 l3 Cons.IH [of q2 ?w3] Cons.prems(2) show ?thesis
      using leaves_trans [OF l3, of q' w'] by auto
  qed (use Cons in simp)
qed (simp add: leaves_refl)

lemma recover_leaves:
  assumes r: "recover_with enq sel cnt S q w = (x, q', w')" and i: "\<And>j. view w i = Some j \<Longrightarrow> \<not> active j"
  shows "leaves i q w q' w'"
proof (cases "inv w")
  case True
  obtain js oe w1 where l: "ListPendingJobs S w = ((js, oe), w1)" by (metis surj_pair)
  have l1: "leaves i q w q w1" by (rule leaves_same [OF same_at_eqs(7) [OF l]])
  show ?thesis
  proof (cases oe)
    case None
    have "\<forall>j \<in> set js. ID j \<noteq> i" using pending_sound [OF True l [unfolded None]] i by blast
    moreover have "recover_loop enq sel cnt S js q w1 = (x, q', w')" using r l None by (simp add: recover_with_def)
    ultimately show ?thesis using recover_loop_leaves l1 leaves_trans by blast
  next
    case (Some e)
    with r l l1 show ?thesis by (simp add: recover_with_def)
  qed
qed (simp add: leaves_def)

lemma sweep_loop_leaves:
  "sweep_loop enq sel S js q w = (q', w') \<Longrightarrow> \<forall>j \<in> set js. ID j \<noteq> i \<Longrightarrow> leaves i q w q' w'"
proof (induction js arbitrary: q w)
  case (Cons j js)
  obtain x1 q1 w1 where e1: "enq j q w = (x1, q1, w1)" by (metis surj_pair)
  obtain y w2 where u: "UpdateJobStatus S (ID j) StatusPending '''' w = (y, w2)" by (metis surj_pair)
  obtain x3 q3 w3 where e3: "enq (j\<lparr>Status := StatusPending\<rparr>) q w2 = (x3, q3, w3)" by (metis surj_pair)
  have k: "ID j \<noteq> i" using Cons.prems(2) by simp
  have l1: "leaves i q w q1 w1" by (rule leaves_enq [OF e1 k])
  have l2: "leaves i q w q w2" by (rule leaves_same [OF same_at_eqs(1) [OF u k]])
  have l3: "leaves i q w q3 w3" by (rule leaves_trans [OF l2 leaves_enq [OF e3]]) (use k in simp)
  have "\<exists>q0 w0. (q0 = q \<and> w0 = w \<or> q0 = q1 \<and> w0 = w1 \<or> q0 = q \<and> w0 = w2 \<or> q0 = q3 \<and> w0 = w3) \<and>
      sweep_loop enq sel S js q0 w0 = (q', w')"
    using Cons.prems(1) e1 u e3 by (auto split: if_splits sum.splits)
  then obtain q0 w0 where "leaves i q w q0 w0" "sweep_loop enq sel S js q0 w0 = (q', w')"
    using l1 l2 l3 leaves_refl [OF refl] by blast
  with Cons.IH [of q0 w0] Cons.prems(2) show ?case using leaves_trans by auto
qed (simp add: leaves_refl)

lemma sweep_leaves:
  assumes r: "sweep_with enq sel S q w = (q', w')" and i: "\<And>j. view w i = Some j \<Longrightarrow> \<not> active j"
  shows "leaves i q w q' w'"
proof (cases "inv w")
  case True
  obtain js oe w1 where l: "ListPendingJobs S w = ((js, oe), w1)" by (metis surj_pair)
  have l1: "leaves i q w q w1" by (rule leaves_same [OF same_at_eqs(7) [OF l]])
  show ?thesis
  proof (cases oe)
    case None
    have "\<forall>j \<in> set js. ID j \<noteq> i" using pending_sound [OF True l [unfolded None]] i by blast
    moreover have "sweep_loop enq sel S js q w1 = (q', w')" using r l None by (simp add: sweep_with_def)
    ultimately show ?thesis using sweep_loop_leaves l1 leaves_trans by blast
  next
    case (Some e)
    with r l l1 show ?thesis by (simp add: sweep_with_def)
  qed
qed (simp add: leaves_def)

end

section \<open>Jobs a method puts into the queue\<close>

text \<open>\<open>Nack\<close>, \<open>Requeue\<close> and \<open>Retry\<close> put at most one job into the queue, the one they are called for.\<close>

definition adds :: "('q \<Rightarrow> job multiset) \<Rightarrow> string \<Rightarrow> 'q \<Rightarrow> 'q \<Rightarrow> bool" where
  "adds waiting k q q' \<longleftrightarrow> waiting q' = waiting q \<or> (\<exists>j. ID j = k \<and> waiting q' = add_mset j (waiting q))"

context stored_queue
begin

lemma adds_got:
  "enq j' q w2 = (x, q', w') \<Longrightarrow> GetJob S k w = (Inr (Some j), w1) \<Longrightarrow> inv w \<Longrightarrow> ID j' = ID j \<Longrightarrow> adds waiting k q q'"
  using got_ID [of k w j w1] enq_waiting [of j' q w2 x q' w'] by (auto simp: adds_def split: if_splits)

lemma adds_refl: "adds waiting k q q"
  by (simp add: adds_def)

lemma nack_adds: "inv w \<Longrightarrow> nack_with enq S k q w = (x, q', w') \<Longrightarrow> adds waiting k q q'"
  by (auto simp: nack_with_def Let_def adds_refl split: prod.splits sum.splits option.splits if_splits elim!: adds_got)

lemma requeue_adds: "inv w \<Longrightarrow> requeue_with enq S k q w = (x, q', w') \<Longrightarrow> adds waiting k q q'"
  using inv_kept(4) [of w k]
  by (auto simp: requeue_with_def adds_refl split: prod.splits sum.splits option.splits elim!: adds_got)

lemma retry_adds: "inv w \<Longrightarrow> retry_with enq S k n q w = (x, q', w') \<Longrightarrow> adds waiting k q q'"
  using inv_kept(5) [of w k n]
  by (auto simp: retry_with_def adds_refl split: prod.splits sum.splits option.splits elim!: adds_got)

text \<open>They keep the table well formed.\<close>

lemma keeps_inv:
  "inv w \<Longrightarrow> nack_with enq S k q w = (x, q', w') \<Longrightarrow> inv w'"
  "inv w \<Longrightarrow> requeue_with enq S k q w = (x, q', w') \<Longrightarrow> inv w'"
  "inv w \<Longrightarrow> retry_with enq S k n q w = (x, q', w') \<Longrightarrow> 0 \<le> n \<Longrightarrow> inv w'"
  "inv w \<Longrightarrow> ack S k w = (x, w') \<Longrightarrow> inv w'"
  "inv w \<Longrightarrow> set_processing S k w = (x, w') \<Longrightarrow> inv w'"
  using methods.nack_R [of k q w x q' w'] methods.requeue_R [of k q w x q' w'] methods.retry_R [of k n q w x q' w']
    methods.ack_R [of k w x w'] methods.set_processing_R [of k w x w'] by (auto simp: keeps_jobs_def)

end

end
