(* ===== verification/Queue_Memory.thy ===== *)
theory Queue_Memory
  imports Queue_Frames Storage_Select
begin

text \<open>
  \<open>internal/queue/memory_queue.go\<close>: a FIFO queue on a buffered channel. The operations are those of
  one goroutine running alone: a blocked \<open>Enqueue\<close> is released by its timer, a blocked \<open>Dequeue\<close>
  never (value \<open>None\<close>). What happens when calls overlap is the subject of \<open>Queue_Close_Protocol\<close>.
\<close>

section \<open>State and operations\<close>

text \<open>
  \<open>jobs\<close> is the buffer of the channel, \<open>cap\<close> its size and \<open>jobs_closed\<close> whether it was closed;
  \<open>done_closed\<close> is the state of the channel \<open>done\<close>. The mutex and the wait group have no state
  between calls.
\<close>

record memq =
  jobs :: "job list"
  cap :: nat
  closed :: bool
  done_closed :: bool
  jobs_closed :: bool

definition NewMemoryQueue :: "int \<Rightarrow> memq result" where
  "NewMemoryQueue bufferSize =
     (if bufferSize < 0 then Inl (Panic ''makechan: size out of range'')
      else Inr \<lparr>jobs = [], cap = nat bufferSize, closed = False, done_closed = False, jobs_closed = False\<rparr>)"

text \<open>The \<open>select\<close>: a send on a closed channel panics; a full buffer waits for the timer.\<close>

definition MemoryQueue_Enqueue :: "memq enqueue" where
  "MemoryQueue_Enqueue job q w =
     (if closed q then (Inl (Err ''queue is closed''), q, w)
      else if jobs_closed q then (Inl (Panic ''send on closed channel''), q, w)
      else if length (jobs q) < cap q then (Inr (), q\<lparr>jobs := jobs q @ [job]\<rparr>, w)
      else if done_closed q then (Inl (Err ''queue is closing''), q, w)
      else (Inl (Err ''queue is full, timed out waiting for space''), q, w\<lparr>clock := clock w + 5 * Second\<rparr>))"

text \<open>\<open>None\<close>: the receive blocks. \<open>Some (None, q)\<close>: the pair \<open>(nil, nil)\<close>.\<close>

definition MemoryQueue_Dequeue :: "memq \<Rightarrow> (job option \<times> memq) option" where
  "MemoryQueue_Dequeue q =
     (case jobs q of
        j # js \<Rightarrow> Some (Some j, q\<lparr>jobs := js\<rparr>)
      | [] \<Rightarrow> (if jobs_closed q then Some (None, q) else None))"

definition MemoryQueue_Ack :: "storage \<Rightarrow> string \<Rightarrow> world \<Rightarrow> unit result \<times> world" where
  "MemoryQueue_Ack = ack"

definition MemoryQueue_Nack :: "storage \<Rightarrow> string \<Rightarrow> memq \<Rightarrow> world \<Rightarrow> unit result \<times> memq \<times> world" where
  "MemoryQueue_Nack = nack_with MemoryQueue_Enqueue"

definition MemoryQueue_PendingCount :: "memq \<Rightarrow> int" where
  "MemoryQueue_PendingCount q = int (length (jobs q))"

definition MemoryQueue_Close :: "memq \<Rightarrow> unit result \<times> memq" where
  "MemoryQueue_Close q =
     (if closed q then (Inr (), q)
      else (Inr (), q\<lparr>closed := True, done_closed := True, jobs_closed := True\<rparr>))"

definition count_recovered :: "metrics \<Rightarrow> metrics" where
  "count_recovered m = m\<lparr>JobsRecovered := Suc (JobsRecovered m)\<rparr>"

definition MemoryQueue_Recover :: "storage \<Rightarrow> memq \<Rightarrow> world \<Rightarrow> unit result \<times> memq \<times> world" where
  "MemoryQueue_Recover = recover_with MemoryQueue_Enqueue (\<lambda>j. True) count_recovered"

definition MemoryQueue_SetProcessing :: "storage \<Rightarrow> string \<Rightarrow> world \<Rightarrow> unit result \<times> world" where
  "MemoryQueue_SetProcessing = set_processing"

definition MemoryQueue_Requeue :: "storage \<Rightarrow> string \<Rightarrow> memq \<Rightarrow> world \<Rightarrow> unit result \<times> memq \<times> world" where
  "MemoryQueue_Requeue = requeue_with MemoryQueue_Enqueue"

definition MemoryQueue_Retry :: "storage \<Rightarrow> string \<Rightarrow> int \<Rightarrow> memq \<Rightarrow> world \<Rightarrow> unit result \<times> memq \<times> world" where
  "MemoryQueue_Retry = retry_with MemoryQueue_Enqueue"

definition MemoryQueue_sweep :: "storage \<Rightarrow> memq \<Rightarrow> world \<Rightarrow> memq \<times> world" where
  "MemoryQueue_sweep = sweep_with MemoryQueue_Enqueue (\<lambda>j. True)"

text \<open>\<open>StartSweeper\<close>: what its goroutine does in the first \<open>n\<close> ticks.\<close>

fun MemoryQueue_StartSweeper :: "int \<Rightarrow> nat \<Rightarrow> storage \<Rightarrow> memq \<Rightarrow> world \<Rightarrow> memq \<times> world" where
  "MemoryQueue_StartSweeper interval 0 S q w = (q, w)"
| "MemoryQueue_StartSweeper interval (Suc n) S q w =
     (case MemoryQueue_sweep S q (w\<lparr>clock := clock w + interval\<rparr>) of
        (q1, w1) \<Rightarrow> MemoryQueue_StartSweeper interval n S q1 w1)"

text \<open>
  The timer of \<open>time.After(d)\<close> can already have fired at the first poll when \<open>d\<close> is not positive;
  \<open>select\<close> then picks an arm at random, and \<open>timer\<close> is that choice.
\<close>

definition MemoryQueue_DequeueOrWait :: "bool \<Rightarrow> int \<Rightarrow> memq \<Rightarrow> world \<Rightarrow> job option \<times> memq \<times> world" where
  "MemoryQueue_DequeueOrWait timer d q w =
     (if timer \<and> d \<le> 0 then (None, q, w)
      else case jobs q of
             j # js \<Rightarrow> (Some j, q\<lparr>jobs := js\<rparr>, w)
           | [] \<Rightarrow> (if jobs_closed q then (None, q, w) else (None, q, w\<lparr>clock := clock w + max 0 d\<rparr>)))"

section \<open>The queue contract\<close>

definition memq_room :: "memq \<Rightarrow> nat \<Rightarrow> bool" where
  "memq_room q n \<longleftrightarrow> \<not> closed q \<and> \<not> jobs_closed q \<and> length (jobs q) + n \<le> cap q"

lemma memq_room_Enqueue:
  "memq_room q (Suc n) \<Longrightarrow> MemoryQueue_Enqueue j q w = (Inr (), q\<lparr>jobs := jobs q @ [j]\<rparr>, w)"
  by (simp add: memq_room_def MemoryQueue_Enqueue_def)

interpretation mq: job_queue MemoryQueue_Enqueue "\<lambda>q. mset (jobs q)" memq_room
  by unfold_locales (auto simp: memq_room_def MemoryQueue_Enqueue_def Second_def Millisecond_def)

interpretation mqs: stored_queue "store_view b" "store_inv b" "main_store b" "store_fits b" "store_norm b"
  "store_reset b" MemoryQueue_Enqueue "\<lambda>q. mset (jobs q)" memq_room for b :: string
  by unfold_locales

section \<open>The channel is used within its bounds\<close>

text \<open>The three flags agree between calls, and the buffer never exceeds its capacity.\<close>

definition memq_inv :: "memq \<Rightarrow> bool" where
  "memq_inv q \<longleftrightarrow> (done_closed q \<longleftrightarrow> closed q) \<and> (jobs_closed q \<longleftrightarrow> closed q) \<and> length (jobs q) \<le> cap q"

interpretation memory: enqueue_invariant MemoryQueue_Enqueue memq_inv
  by unfold_locales (simp add: MemoryQueue_Enqueue_def memq_inv_def)

text \<open>Sequences of calls.\<close>

fun enqueue_all :: "job list \<Rightarrow> memq \<Rightarrow> world \<Rightarrow> unit result \<times> memq \<times> world" where
  "enqueue_all [] q w = (Inr (), q, w)"
| "enqueue_all (j # js) q w =
     (case MemoryQueue_Enqueue j q w of
        (Inl e, q1, w1) \<Rightarrow> (Inl e, q1, w1)
      | (Inr _, q1, w1) \<Rightarrow> enqueue_all js q1 w1)"

fun dequeue_times :: "nat \<Rightarrow> memq \<Rightarrow> (job option list \<times> memq) option" where
  "dequeue_times 0 q = Some ([], q)"
| "dequeue_times (Suc n) q =
     (case MemoryQueue_Dequeue q of
        None \<Rightarrow> None
      | Some (oj, q1) \<Rightarrow> (case dequeue_times n q1 of None \<Rightarrow> None | Some (ojs, q2) \<Rightarrow> Some (oj # ojs, q2)))"

lemma enqueue_all_room:
  "memq_room q (length js) \<Longrightarrow> enqueue_all js q w = (Inr (), q\<lparr>jobs := jobs q @ js\<rparr>, w)"
proof (induction js arbitrary: q)
  case (Cons j js)
  then have "memq_room q (Suc (length js))" by simp
  then have "MemoryQueue_Enqueue j q w = (Inr (), q\<lparr>jobs := jobs q @ [j]\<rparr>, w)" by (rule memq_room_Enqueue)
  moreover have "memq_room (q\<lparr>jobs := jobs q @ [j]\<rparr>) (length js)" using Cons.prems by (simp add: memq_room_def)
  ultimately show ?case using Cons.IH [of "q\<lparr>jobs := jobs q @ [j]\<rparr>"] by simp
qed simp

lemma dequeue_times_jobs:
  "n \<le> length (jobs q) \<Longrightarrow> dequeue_times n q = Some (map Some (take n (jobs q)), q\<lparr>jobs := drop n (jobs q)\<rparr>)"
proof (induction n arbitrary: q)
  case (Suc n)
  then obtain j js where "jobs q = j # js" by (cases "jobs q") auto
  with Suc.IH [of "q\<lparr>jobs := js\<rparr>"] Suc.prems show ?case by (simp add: MemoryQueue_Dequeue_def)
qed simp

lemma dequeue_times_closed:
  "jobs_closed q \<Longrightarrow> dequeue_times (length (jobs q) + n) q =
     Some (map Some (jobs q) @ replicate n None, q\<lparr>jobs := []\<rparr>)"
proof (induction "jobs q" arbitrary: q)
  case Nil
  have "jobs_closed q \<Longrightarrow> jobs q = [] \<Longrightarrow> dequeue_times n q = Some (replicate n None, q)" for q
    by (induction n) (simp_all add: MemoryQueue_Dequeue_def)
  with Nil show ?case by simp
next
  case (Cons j js)
  have "MemoryQueue_Dequeue q = Some (Some j, q\<lparr>jobs := js\<rparr>)"
    by (simp add: MemoryQueue_Dequeue_def flip: Cons.hyps(2))
  with Cons.hyps(1) [of "q\<lparr>jobs := js\<rparr>"] Cons.prems show ?case by (simp flip: Cons.hyps(2))
qed

end
