(* ===== verification/Queue_Sorted.thy ===== *)
theory Queue_Sorted
  imports Queue_Frames Storage_Select
begin

text \<open>
  \<open>internal/queue/sorted_que.go\<close>: a queue kept sorted by priority (descending) and creation time
  (ascending). As in \<open>Queue_Memory\<close> the operations are those of one goroutine running alone; the
  interleaving of waiters and producers on the channel \<open>signal\<close> is modelled in
  \<open>Queue_Signal_Protocol\<close>.
\<close>

section \<open>State and operations\<close>

text \<open>\<open>signal\<close> tells whether the one-slot channel of that name holds a token.\<close>

record sortedq =
  sjobs :: "job list"
  signal :: bool
  sclosed :: bool
  sdone_closed :: bool

definition NewSortedQueue :: "int \<Rightarrow> sortedq" where
  "NewSortedQueue bufferSize = \<lparr>sjobs = [], signal = False, sclosed = False, sdone_closed = False\<rparr>"

text \<open>Whether the scan of \<open>insertLocked\<close> stops in front of \<open>cur\<close>.\<close>

definition goes_before :: "job \<Rightarrow> job \<Rightarrow> bool" where
  "goes_before job cur \<longleftrightarrow>
     Priority cur < Priority job \<or> Priority job = Priority cur \<and> CreatedAt job < CreatedAt cur"

function insert_index :: "job \<Rightarrow> job list \<Rightarrow> nat \<Rightarrow> nat" where
  "insert_index job js i =
     (if i < length js then
        (let cur = js ! i in
         if Priority cur < Priority job then i
         else if Priority job = Priority cur \<and> CreatedAt job < CreatedAt cur then i
         else insert_index job js (Suc i))
      else i)"
  by pat_completeness auto
termination
  by (relation "measure (\<lambda>(job, js, i). length js - i)") auto

declare insert_index.simps [simp del]

text \<open>Go's \<open>copy(dst[off:], src)\<close>: as many elements as fit.\<close>

definition go_copy :: "'a list \<Rightarrow> nat \<Rightarrow> 'a list \<Rightarrow> 'a list" where
  "go_copy dst off src = take off dst @ take (length dst - off) src @ drop (off + length src) dst"

text \<open>
  \<open>insertLocked\<close>: the slice of pointers is extended by a nil, its tail shifted by one, and the free
  slot filled.
\<close>

definition insertLocked :: "job \<Rightarrow> sortedq \<Rightarrow> sortedq" where
  "insertLocked job q =
     (let i = insert_index job (sjobs q) 0;
          js1 = map Some (sjobs q) @ [None];
          js2 = go_copy js1 (i + 1) (drop i js1);
          js3 = js2[i := Some job]
      in q\<lparr>sjobs := map the js3\<rparr>)"

definition popLocked :: "sortedq \<Rightarrow> job option \<times> sortedq" where
  "popLocked q = (case sjobs q of [] \<Rightarrow> (None, q) | j # js \<Rightarrow> (Some j, q\<lparr>sjobs := js\<rparr>))"

definition SortedQueue_Enqueue :: "sortedq enqueue" where
  "SortedQueue_Enqueue job q w =
     (if sclosed q then (Inl (Err ''queue is closed''), q, w)
      else (Inr (), (insertLocked job q)\<lparr>signal := True\<rparr>, w))"

text \<open>\<open>None\<close>: the loop blocks in its \<open>select\<close>. A token that is left over costs one more round.\<close>

function SortedQueue_Dequeue :: "sortedq \<Rightarrow> (job option \<times> sortedq) option" where
  "SortedQueue_Dequeue q =
     (case popLocked q of
        (Some j, q1) \<Rightarrow> Some (Some j, q1)
      | (None, _) \<Rightarrow>
          (if sclosed q then Some (None, q)
           else if signal q then SortedQueue_Dequeue (q\<lparr>signal := False\<rparr>)
           else if sdone_closed q then Some (None, q)
           else None))"
  by pat_completeness auto
termination
  by (relation "measure (\<lambda>q. if signal q then 1 else 0)") auto

declare SortedQueue_Dequeue.simps [simp del]

definition SortedQueue_DequeueOrWait :: "bool \<Rightarrow> int \<Rightarrow> sortedq \<Rightarrow> world \<Rightarrow> job option \<times> sortedq \<times> world" where
  "SortedQueue_DequeueOrWait timer d q w =
     (case popLocked q of
        (Some j, q1) \<Rightarrow> (Some j, q1, w)
      | (None, _) \<Rightarrow>
          (if sclosed q then (None, q, w)
           else if signal q \<and> \<not> (timer \<and> d \<le> 0) then
             (case popLocked (q\<lparr>signal := False\<rparr>) of (oj, q1) \<Rightarrow> (oj, q1, w))
           else if sdone_closed q then (None, q, w)
           else (None, q, w\<lparr>clock := clock w + max 0 d\<rparr>)))"

definition SortedQueue_Ack :: "storage \<Rightarrow> string \<Rightarrow> world \<Rightarrow> unit result \<times> world" where
  "SortedQueue_Ack = ack"

definition SortedQueue_Nack :: "storage \<Rightarrow> string \<Rightarrow> sortedq \<Rightarrow> world \<Rightarrow> unit result \<times> sortedq \<times> world" where
  "SortedQueue_Nack = nack_with SortedQueue_Enqueue"

definition SortedQueue_PendingCount :: "sortedq \<Rightarrow> int" where
  "SortedQueue_PendingCount q = int (length (sjobs q))"

definition SortedQueue_Close :: "sortedq \<Rightarrow> unit result \<times> sortedq" where
  "SortedQueue_Close q =
     (if sclosed q then (Inr (), q) else (Inr (), q\<lparr>sclosed := True, sdone_closed := True\<rparr>))"

definition is_priority :: "job \<Rightarrow> bool" where
  "is_priority j \<longleftrightarrow> QueueType j = QueueTypePriority"

definition SortedQueue_Recover :: "storage \<Rightarrow> sortedq \<Rightarrow> world \<Rightarrow> unit result \<times> sortedq \<times> world" where
  "SortedQueue_Recover = recover_with SortedQueue_Enqueue is_priority (\<lambda>m. m)"

definition SortedQueue_SetProcessing :: "storage \<Rightarrow> string \<Rightarrow> world \<Rightarrow> unit result \<times> world" where
  "SortedQueue_SetProcessing = set_processing"

definition SortedQueue_Requeue :: "storage \<Rightarrow> string \<Rightarrow> sortedq \<Rightarrow> world \<Rightarrow> unit result \<times> sortedq \<times> world" where
  "SortedQueue_Requeue = requeue_with SortedQueue_Enqueue"

definition SortedQueue_Retry ::
  "storage \<Rightarrow> string \<Rightarrow> int \<Rightarrow> sortedq \<Rightarrow> world \<Rightarrow> unit result \<times> sortedq \<times> world" where
  "SortedQueue_Retry = retry_with SortedQueue_Enqueue"

definition SortedQueue_sweep :: "storage \<Rightarrow> sortedq \<Rightarrow> world \<Rightarrow> sortedq \<times> world" where
  "SortedQueue_sweep = sweep_with SortedQueue_Enqueue is_priority"

fun SortedQueue_StartSweeper :: "int \<Rightarrow> nat \<Rightarrow> storage \<Rightarrow> sortedq \<Rightarrow> world \<Rightarrow> sortedq \<times> world" where
  "SortedQueue_StartSweeper interval 0 S q w = (q, w)"
| "SortedQueue_StartSweeper interval (Suc n) S q w =
     (case SortedQueue_sweep S q (w\<lparr>clock := clock w + interval\<rparr>) of
        (q1, w1) \<Rightarrow> SortedQueue_StartSweeper interval n S q1 w1)"

section \<open>Insertion\<close>

text \<open>The reference: behind every job that is not to be overtaken.\<close>

definition insert_job :: "job \<Rightarrow> job list \<Rightarrow> job list" where
  "insert_job job js = takeWhile (\<lambda>c. \<not> goes_before job c) js @ job # dropWhile (\<lambda>c. \<not> goes_before job c) js"

definition queue_sorted :: "sortedq \<Rightarrow> bool" where
  "queue_sorted q = sorted_wrt job_before (sjobs q)"

lemma not_goes_before: "\<not> goes_before j k \<longleftrightarrow> job_before k j"
  by (auto simp: goes_before_def job_before_def)

lemma goes_before_imp: "goes_before j k \<Longrightarrow> job_before j k"
  by (auto simp: goes_before_def job_before_def)

lemma job_before_trans: "job_before i j \<Longrightarrow> job_before j k \<Longrightarrow> job_before i k"
  by (auto simp: job_before_def)

lemma insert_index_unfold:
  "insert_index job js i =
     (if i < length js \<and> \<not> goes_before job (js ! i) then insert_index job js (Suc i) else i)"
  by (subst insert_index.simps) (auto simp: goes_before_def Let_def)

lemma insert_index_eq:
  "i \<le> length js \<Longrightarrow> insert_index job js i = i + length (takeWhile (\<lambda>c. \<not> goes_before job c) (drop i js))"
proof (induction job js i rule: insert_index.induct)
  case (1 job js i)
  show ?case
  proof (cases "i < length js")
    case True
    then have d: "drop i js = js ! i # drop (Suc i) js" by (simp add: Cons_nth_drop_Suc)
    show ?thesis
    proof (cases "goes_before job (js ! i)")
      case True
      with \<open>i < length js\<close> d show ?thesis by (simp add: insert_index_unfold [of job js i])
    next
      case False
      then have "insert_index job js i = insert_index job js (Suc i)"
        using True by (simp add: insert_index_unfold [of job js i])
      moreover have "insert_index job js (Suc i) =
          Suc i + length (takeWhile (\<lambda>c. \<not> goes_before job c) (drop (Suc i) js))"
        using True False by (intro "1.IH") (auto simp: goes_before_def)
      ultimately show ?thesis using False d by simp
    qed
  next
    case False
    with "1.prems" show ?thesis by (subst insert_index_unfold) simp
  qed
qed

lemma go_copy_shift:
  assumes "i \<le> length xs"
  shows "(go_copy (map Some xs @ [None]) (Suc i) (drop i (map Some xs @ [None])))[i := Some x] =
    map Some (take i xs @ x # drop i xs)"
proof -
  let ?e = "map Some xs @ [None]"
  have "go_copy ?e (Suc i) (drop i ?e) = take (Suc i) ?e @ take (length xs - i) (drop i ?e)"
    using assms by (simp add: go_copy_def)
  also have "take (length xs - i) (drop i ?e) = map Some (drop i xs)"
    using assms by (simp add: take_map drop_map)
  also have "take (Suc i) ?e = map Some (take i xs) @ [?e ! i]"
    using assms by (subst take_Suc_conv_app_nth) (simp_all add: take_map)
  finally show ?thesis using assms by (simp add: list_update_append min_absorb2)
qed

lemma insertLocked_eq: "insertLocked job q = q\<lparr>sjobs := insert_job job (sjobs q)\<rparr>"
proof -
  let ?P = "\<lambda>c. \<not> goes_before job c"
  have i: "insert_index job (sjobs q) 0 = length (takeWhile ?P (sjobs q))"
    by (simp add: insert_index_eq)
  have l: "length (takeWhile ?P (sjobs q)) \<le> length (sjobs q)" by (rule length_takeWhile_le)
  have t: "take (length (takeWhile ?P (sjobs q))) (sjobs q) = takeWhile ?P (sjobs q)"
    by (rule takeWhile_eq_take [symmetric])
  have d: "drop (length (takeWhile ?P (sjobs q))) (sjobs q) = dropWhile ?P (sjobs q)"
    by (rule dropWhile_eq_drop [symmetric])
  have m: "map the (map Some ys) = ys" for ys :: "job list" by (induction ys) simp_all
  show ?thesis
    unfolding insertLocked_def Let_def i Suc_eq_plus1 [symmetric] go_copy_shift [OF l] m t d insert_job_def ..
qed

lemma mset_insert_job [simp]: "mset (insert_job j js) = add_mset j (mset js)"
  using takeWhile_dropWhile_mset [of "\<lambda>c. \<not> goes_before j c" js] by (simp add: insert_job_def)

lemma set_insert_job [simp]: "set (insert_job j js) = insert j (set js)"
  by (metis mset_insert_job set_mset_add_mset_insert set_mset_mset)

lemma length_insert_job [simp]: "length (insert_job j js) = Suc (length js)"
  by (metis mset_insert_job size_add_mset size_mset)

lemma sorted_insert_job: "sorted_wrt job_before js \<Longrightarrow> sorted_wrt job_before (insert_job j js)"
proof (induction js)
  case Nil
  then show ?case by (simp add: insert_job_def)
next
  case (Cons k js)
  show ?case
  proof (cases "goes_before j k")
    case True
    then have "insert_job j (k # js) = j # k # js" by (simp add: insert_job_def)
    with True Cons.prems show ?thesis by (auto intro: job_before_trans goes_before_imp)
  next
    case False
    then have "insert_job j (k # js) = k # insert_job j js" by (simp add: insert_job_def)
    with False Cons show ?thesis by (auto simp: not_goes_before)
  qed
qed

section \<open>The queue contract\<close>

interpretation sq: job_queue SortedQueue_Enqueue "\<lambda>q. mset (sjobs q)" "\<lambda>q n. \<not> sclosed q"
  by unfold_locales (auto simp: SortedQueue_Enqueue_def insertLocked_eq)

interpretation sqs: stored_queue "store_view b" "store_inv b" "main_store b" "store_fits b" "store_norm b"
  "store_reset b" SortedQueue_Enqueue "\<lambda>q. mset (sjobs q)" "\<lambda>q n. \<not> sclosed q" for b :: string
  by unfold_locales

section \<open>The order is kept\<close>

interpretation sorted: enqueue_invariant SortedQueue_Enqueue queue_sorted
  by unfold_locales (simp add: SortedQueue_Enqueue_def queue_sorted_def insertLocked_eq sorted_insert_job)

text \<open>The two closing flags agree, and no job of another queue type gets in through the router.\<close>

interpretation flags: enqueue_invariant SortedQueue_Enqueue "\<lambda>q. sdone_closed q \<longleftrightarrow> sclosed q"
  by unfold_locales (simp add: SortedQueue_Enqueue_def insertLocked_eq)

interpretation typed: selected_invariant SortedQueue_Enqueue "\<lambda>q. \<forall>j \<in> set (sjobs q). is_priority j" is_priority
  by unfold_locales (simp_all add: SortedQueue_Enqueue_def insertLocked_eq is_priority_def)

lemma popLocked_sorted: "queue_sorted q \<Longrightarrow> queue_sorted (snd (popLocked q))"
  by (auto simp: queue_sorted_def popLocked_def split: list.splits)

lemma queue_sorted_signal [simp]: "queue_sorted (q\<lparr>signal := s\<rparr>) = queue_sorted q"
  by (simp add: queue_sorted_def)

lemma Dequeue_sorted: "SortedQueue_Dequeue q = Some (oj, q') \<Longrightarrow> queue_sorted q \<Longrightarrow> queue_sorted q'"
proof (induction q rule: SortedQueue_Dequeue.induct)
  case (1 q)
  from "1.prems" show ?case
    by (subst (asm) SortedQueue_Dequeue.simps)
      (auto simp: popLocked_def queue_sorted_def split: list.splits if_splits intro: "1.IH" [unfolded queue_sorted_def])
qed

lemma DequeueOrWait_sorted: "queue_sorted q \<Longrightarrow> queue_sorted (fst (snd (SortedQueue_DequeueOrWait t d q w)))"
  by (auto simp: SortedQueue_DequeueOrWait_def popLocked_def queue_sorted_def split: list.splits)

lemma Dequeue_Cons: "sjobs q = j # js \<Longrightarrow> SortedQueue_Dequeue q = Some (Some j, q\<lparr>sjobs := js\<rparr>)"
  by (subst SortedQueue_Dequeue.simps) (simp add: popLocked_def)

end
