(* ===== verification/Queue_Properties.thy ===== *)
theory Queue_Properties
  imports Queue_Memory Queue_Sorted Samples
begin

text \<open>
  The properties of \<open>MemoryQueue\<close> and \<open>SortedQueue\<close>: order, capacity, closing, and what \<open>Nack\<close>,
  \<open>Requeue\<close>, \<open>Recover\<close> and \<open>sweep\<close> do to the queue and to the store, for either backend.
\<close>

definition sample_queue :: memq where
  "sample_queue = \<lparr>jobs = [], cap = 10, closed = False, done_closed = False, jobs_closed = False\<rparr>"

lemma sample_room [simp]: "n \<le> 10 \<Longrightarrow> memq_room sample_queue n"
  by (simp add: memq_room_def sample_queue_def)

lemma sample_card:
  "card {i. \<exists>j. store_view b sample_world i = Some j \<and> P j} \<le> 3"
proof -
  have "{i. \<exists>j. store_view b sample_world i = Some j \<and> P j} \<subseteq> {''a'', ''b'', ''c''}"
    by (auto simp: sample_view split: if_splits)
  then have "card {i. \<exists>j. store_view b sample_world i = Some j \<and> P j} \<le> card {''a'', ''b'', ''c''}"
    by (rule card_mono [rotated]) simp
  then show ?thesis by simp
qed

section \<open>Failed attempts\<close>

text \<open>
  A failed attempt that may be repeated. While the attempts are not used up, \<open>Nack\<close> stores the
  job as pending with its counter raised by one, counts a retry, and puts the job at the back of the
  queue.
\<close>

lemma nack_retries:
  assumes "healthy w" "store_inv b w" "store_view b w i = Some j" "next_count j < MaxRetries j"
    "store_fits b (next_count j)" "memq_room q 1"
  shows "\<exists>w'. MemoryQueue_Nack (main_store b) i q w =
      (Inr (), q\<lparr>jobs := jobs q @ [j\<lparr>RetryCount := next_count j, Status := StatusPending\<rparr>]\<rparr>, w') \<and>
    store_view b w' = (store_view b w)(i \<mapsto> after_retry (clock w) j) \<and>
    metrics w' = (metrics w)\<lparr>JobsRetried := inc_label (QueueType j) (JobsRetried (metrics w))\<rparr>"
proof -
  let ?j = "j\<lparr>RetryCount := next_count j, Status := StatusPending\<rparr>"
  from assms(1-5) obtain w1 where
    w1: "nack_with MemoryQueue_Enqueue (main_store b) i q w = MemoryQueue_Enqueue ?j q w1"
    "store_view b w1 = (store_view b w)(i \<mapsto> after_retry (clock w) j)"
    "metrics w1 = (metrics w)\<lparr>JobsRetried := inc_label (QueueType j) (JobsRetried (metrics w))\<rparr>"
    by (rule mqs.nack_pending)
  moreover have "MemoryQueue_Enqueue ?j q w1 = (Inr (), q\<lparr>jobs := jobs q @ [?j]\<rparr>, w1)"
    using assms(6) by (intro memq_room_Enqueue [of q 0]) simp
  ultimately show ?thesis by (simp add: MemoryQueue_Nack_def)
qed

text \<open>
  The last failed attempt. When the counter reaches the allowed number, \<open>Nack\<close> stores the job as
  failed, with the time and the reason, counts a failure, and does not queue it again.
\<close>

lemma nack_exhausts:
  assumes "healthy w" "store_inv b w" "store_view b w i = Some j" "MaxRetries j \<le> next_count j"
    "store_fits b (next_count j)"
  shows "\<exists>w'. MemoryQueue_Nack (main_store b) i q w = (Inr (), q, w') \<and>
    store_view b w' = (store_view b w)(i \<mapsto> j\<lparr>Status := StatusFailed,
      UpdatedAt := clock w, ProcessedAt := Some (clock w),
      ErrorMessage := ''exhausted '' @ itoa (next_count j) @ '' retries'', RetryCount := next_count j\<rparr>) \<and>
    metrics w' = (metrics w)\<lparr>JobsFailed := inc_label (QueueType j) (JobsFailed (metrics w))\<rparr>"
  using mqs.nack_exhausted [OF assms, of q]
  by (auto simp: MemoryQueue_Nack_def after_failure_def with_status_def)

text \<open>
  C9. The retry budget is exact. A job that fails \<open>k\<close> times in a row is pending as long as its
  counter is below the allowed number and failed once it gets there, whether or not the queue had
  room for it in between; it never stays pending beyond the budget and never fails before.
\<close>

theorem nack_budget:
  assumes "healthy w" "store_inv b w" "store_view b w i = Some j" "int64 (RetryCount j)" "int64 (MaxRetries j)"
    "store_fits b (RetryCount j)" "store_fits b (MaxRetries j)" "k \<noteq> 0" "RetryCount j + int k \<le> MaxRetries j"
  shows "\<exists>j'. store_view b (snd (nack_times MemoryQueue_Enqueue (main_store b) i k q w)) = (store_view b w)(i \<mapsto> j') \<and>
    RetryCount j' = RetryCount j + int k \<and>
    Status j' = (if RetryCount j + int k = MaxRetries j then StatusFailed else StatusPending)"
proof -
  obtain q' w' where n: "nack_times MemoryQueue_Enqueue (main_store b) i k q w = (q', w')" by (metis surj_pair)
  have f: "store_fits b n" if "RetryCount j \<le> n" "n \<le> MaxRetries j" for n
    using assms(6,7) that by (auto simp: store_fits_def int32_def split: if_splits)
  from mqs.nack_times_store [OF assms(1-5) f assms(9) n assms(8)] n show ?thesis by auto
qed

theorem nack_budget_witness:
  "\<exists>j'. store_view ''sqlite'' (snd (nack_times MemoryQueue_Enqueue (main_store ''sqlite'') ''a'' 3 sample_queue
      sample_world)) ''a'' = Some j' \<and> Status j' = StatusFailed"
proof -
  have "int64 (RetryCount sample_pending)" "int64 (MaxRetries sample_pending)" "RetryCount sample_pending = 0"
    "MaxRetries sample_pending = 3"
    by (simp_all add: sample_pending_def int64_def)
  with nack_budget [of sample_world "''sqlite''" "''a''" sample_pending 3 sample_queue] show ?thesis
    by (auto simp: sample_view store_fits_def)
qed

text \<open>
  A failed attempt is not lost when the queue is full. \<open>Nack\<close> then reports the error of
  \<open>Enqueue\<close> and leaves the queue alone, but the job is already stored as pending, where the sweep
  finds it.
\<close>

lemma nack_full_keeps_job:
  assumes "healthy w" "store_inv b w" "store_view b w i = Some j" "next_count j < MaxRetries j"
    "store_fits b (next_count j)" "\<not> memq_room q 1"
  shows "\<exists>e w'. MemoryQueue_Nack (main_store b) i q w = (Inl e, q, w') \<and>
    store_view b w' = (store_view b w)(i \<mapsto> after_retry (clock w) j)"
proof -
  let ?j = "j\<lparr>RetryCount := next_count j, Status := StatusPending\<rparr>"
  from assms(1-5) obtain w1 where
    w1: "nack_with MemoryQueue_Enqueue (main_store b) i q w = MemoryQueue_Enqueue ?j q w1"
    "store_view b w1 = (store_view b w)(i \<mapsto> after_retry (clock w) j)"
    by (rule mqs.nack_pending)
  from mq.enq_full [OF assms(6), of ?j w1] obtain e w' where
    e: "MemoryQueue_Enqueue ?j q w1 = (Inl e, q, w')" "table w' = table w1" by blast
  from cfg.view_table [OF e(2)] e(1) w1 show ?thesis by (auto simp: MemoryQueue_Nack_def)
qed

section \<open>Recovery, sweeping, requeueing\<close>

text \<open>
  C11. Crash recovery. With room for them, \<open>Recover\<close> puts every stored job that is pending or was left
  in processing into the queue, each once and as pending, stores the interrupted ones as pending, and
  leaves finished jobs alone.
\<close>

theorem recover_memory:
  assumes "healthy w" "store_inv b w"
    "memq_room q (card {i. \<exists>j. store_view b w i = Some j \<and> active j})"
  shows "\<exists>js q' w'. MemoryQueue_Recover (main_store b) q w = (Inr (), q', w') \<and>
    set js = {j. (\<exists>i. store_view b w i = Some j) \<and> active j} \<and> distinct (map ID js) \<and>
    mset (jobs q') = mset (jobs q) + mset (map pend js) \<and>
    store_view b w' = mark (\<lambda>j. True) (clock w) (store_view b w)"
  using mqs.recover_ok [of w b q "\<lambda>j. True" count_recovered] assms by (auto simp: MemoryQueue_Recover_def)

theorem recover_memory_witness:
  "\<exists>q' w'. MemoryQueue_Recover (main_store ''sqlite'') sample_queue sample_world = (Inr (), q', w') \<and>
    map_option Status (store_view ''sqlite'' w' ''b'') = Some ''pending'' \<and>
    store_view ''sqlite'' w' ''c'' = Some sample_failed"
proof -
  have "memq_room sample_queue (card {i. \<exists>j. store_view ''sqlite'' sample_world i = Some j \<and> active j})"
    using sample_card [of "''sqlite''" active] by simp
  from recover_memory [OF sample_healthy(2) sample_inv(2) this] obtain q' w' where
    "MemoryQueue_Recover (main_store ''sqlite'') sample_queue sample_world = (Inr (), q', w')"
    "store_view ''sqlite'' w' = mark (\<lambda>j. True) 100 (store_view ''sqlite'' sample_world)" by auto
  moreover have "Status sample_processing = StatusProcessing" "Status sample_failed = StatusFailed"
    by (simp_all add: sample_defs status_defs)
  ultimately show ?thesis by (auto simp: mark_def sample_view with_status_def StatusPending_def)
qed

text \<open>
  Recovery of the priority queue takes the jobs of the priority queue only, and delivers a sorted
  queue; it needs no capacity.
\<close>

lemma recover_sorted:
  assumes "healthy w" "store_inv b w" "\<not> sclosed q" "queue_sorted q"
  shows "\<exists>js q' w'. SortedQueue_Recover (main_store b) q w = (Inr (), q', w') \<and>
    set js = {j. (\<exists>i. store_view b w i = Some j) \<and> active j \<and> QueueType j = QueueTypePriority} \<and>
    distinct (map ID js) \<and> mset (sjobs q') = mset (sjobs q) + mset (map pend js) \<and> queue_sorted q' \<and>
    store_view b w' = mark is_priority (clock w) (store_view b w)"
proof -
  from sqs.recover_ok [of w b q is_priority "\<lambda>m. m"] assms
  obtain js q' w' where r: "recover_with SortedQueue_Enqueue is_priority (\<lambda>m. m) (main_store b) q w = (Inr (), q', w')"
    "set js = {j. (\<exists>i. store_view b w i = Some j) \<and> active j \<and> is_priority j}" "distinct (map ID js)"
    "mset (sjobs q') = mset (sjobs q) + mset (map pend js)"
    "store_view b w' = mark is_priority (clock w) (store_view b w)" by blast
  moreover have "queue_sorted q'"
    using sorted.recover_keeps [OF assms(4), of is_priority "\<lambda>m. m" "main_store b" w] r(1) by simp
  ultimately show ?thesis by (auto simp: SortedQueue_Recover_def is_priority_def)
qed

text \<open>
  C18. Recovery is safe to interrupt. Whatever the driver answers and wherever it stops, \<open>Recover\<close> of
  either queue loses no job, takes no job out of the active states and keeps the table well formed,
  so that it can be run again.
\<close>

theorem recover_interrupted:
  assumes "store_inv b w"
  shows "keeps_active (store_view b) (store_inv b) w (snd (snd (MemoryQueue_Recover (main_store b) q w))) \<and>
    keeps_active (store_view b) (store_inv b) w (snd (snd (SortedQueue_Recover (main_store b) s w)))"
proof
  obtain x q' w1 where "MemoryQueue_Recover (main_store b) q w = (x, q', w1)" by (metis surj_pair)
  with mqs.recover_safe [OF assms, of "\<lambda>j. True" count_recovered q x q' w1]
  show "keeps_active (store_view b) (store_inv b) w (snd (snd (MemoryQueue_Recover (main_store b) q w)))"
    by (simp add: MemoryQueue_Recover_def)
  obtain y s' w2 where "SortedQueue_Recover (main_store b) s w = (y, s', w2)" by (metis surj_pair)
  with sqs.recover_safe [OF assms, of is_priority "\<lambda>m. m" s y s' w2]
  show "keeps_active (store_view b) (store_inv b) w (snd (snd (SortedQueue_Recover (main_store b) s w)))"
    by (simp add: SortedQueue_Recover_def)
qed

theorem recover_interrupted_witness:
  "store_inv ''sqlite'' (snd (snd (MemoryQueue_Recover (main_store ''sqlite'') sample_queue
     (sample_world\<lparr>driver := [Ok, Ok, Fail (Driver ''disk'')]\<rparr>))))"
proof -
  let ?w = "sample_world\<lparr>driver := [Ok, Ok, Fail (Driver ''disk'')]\<rparr>"
  have "store_inv ''sqlite'' ?w" using cfg.inv_table [of ?w sample_world "''sqlite''"] by simp
  from recover_interrupted [OF this, of sample_queue] show ?thesis by (auto dest: keeps_active_inv)
qed

text \<open>
  A sweep duplicates waiting jobs. The sweep enqueues every stored pending job again without asking
  whether it is in the queue, so a pending job gains one more copy in memory with every sweep that
  finds room.
\<close>

lemma sweep_duplicates:
  assumes "healthy w" "store_inv b w"
    "memq_room q (card {i. \<exists>j. store_view b w i = Some j \<and> active j \<and> stale (clock w) j})"
    "store_view b w i = Some j" "Status j = StatusPending"
  shows "count (mset (jobs (fst (MemoryQueue_sweep (main_store b) q w)))) j > count (mset (jobs q)) j"
proof -
  from mqs.sweep_ok [of w b q "\<lambda>j. True"] assms(1-3) obtain js q' w' where
    s: "sweep_with MemoryQueue_Enqueue (\<lambda>j. True) (main_store b) q w = (q', w')"
    "set js = {j. (\<exists>i. store_view b w i = Some j) \<and> active j \<and> stale (clock w) j}"
    "mset (jobs q') = mset (jobs q) + mset (map pend js)" by auto
  from assms(4,5) have "j \<in> set js" unfolding s(2) by (auto simp: active_def stale_def)
  then have "pend j \<in> set (map pend js)" by simp
  moreover have "pend j = j" using assms(5) by (simp add: pend_def)
  ultimately have "0 < count (mset (map pend js)) j" by (simp only: count_greater_zero_iff set_mset_mset)
  with s show ?thesis by (simp add: MemoryQueue_sweep_def)
qed

text \<open>
  A preempted job costs no attempt. \<open>Requeue\<close> puts the job back as pending, in the store and at
  the back of the queue, with its retry counter unchanged.
\<close>

lemma requeue_free:
  assumes "healthy w" "store_inv b w" "store_view b w i = Some j" "memq_room q 1"
  shows "\<exists>q' w' j'. MemoryQueue_Requeue (main_store b) i q w = (Inr (), q', w') \<and>
    j' = j\<lparr>Status := StatusPending, UpdatedAt := clock w\<rparr> \<and> RetryCount j' = RetryCount j \<and>
    store_view b w' = (store_view b w)(i \<mapsto> j') \<and> mset (jobs q') = add_mset j' (mset (jobs q))"
  using mqs.requeue_ok_queue [OF assms] by (auto simp: MemoryQueue_Requeue_def)

section \<open>Order and closing\<close>

text \<open>
  C23. First in, first out. Jobs enqueued while there is room are delivered in the order they came in,
  after those already waiting, each exactly once.
\<close>

theorem fifo_order:
  assumes "memq_room q (length js)"
  shows "\<exists>q'. enqueue_all js q w = (Inr (), q', w) \<and>
    dequeue_times (length (jobs q) + length js) q' = Some (map Some (jobs q @ js), q\<lparr>jobs := []\<rparr>)"
  using enqueue_all_room [OF assms, of w]
    dequeue_times_jobs [of "length (jobs q) + length js" "q\<lparr>jobs := jobs q @ js\<rparr>"] by simp

theorem fifo_order_witness:
  "\<exists>q'. enqueue_all [sample_pending, sample_processing] sample_queue empty_world = (Inr (), q', empty_world) \<and>
    dequeue_times 2 q' = Some ([Some sample_pending, Some sample_processing], sample_queue)"
proof -
  have "memq_room sample_queue (length [sample_pending, sample_processing])" by simp
  from fifo_order [OF this, of empty_world] show ?thesis by (simp add: sample_queue_def numeral_2_eq_2)
qed

text \<open>
  The buffer bound and the flags. From a new queue on, in every sequence of calls, the buffer never
  holds more than its capacity, the three closing flags agree, and \<open>Enqueue\<close> never sends on the closed
  channel.
\<close>

inductive memq_reach :: "storage \<Rightarrow> memq \<Rightarrow> bool" for S :: storage where
  new: "NewMemoryQueue n = Inr q \<Longrightarrow> memq_reach S q"
| enqueue: "memq_reach S q \<Longrightarrow> memq_reach S (fst (snd (MemoryQueue_Enqueue j q w)))"
| dequeue: "memq_reach S q \<Longrightarrow> MemoryQueue_Dequeue q = Some (oj, q') \<Longrightarrow> memq_reach S q'"
| wait: "memq_reach S q \<Longrightarrow> memq_reach S (fst (snd (MemoryQueue_DequeueOrWait t d q w)))"
| nack: "memq_reach S q \<Longrightarrow> memq_reach S (fst (snd (MemoryQueue_Nack S i q w)))"
| requeue: "memq_reach S q \<Longrightarrow> memq_reach S (fst (snd (MemoryQueue_Requeue S i q w)))"
| retry: "memq_reach S q \<Longrightarrow> memq_reach S (fst (snd (MemoryQueue_Retry S i k q w)))"
| recover: "memq_reach S q \<Longrightarrow> memq_reach S (fst (snd (MemoryQueue_Recover S q w)))"
| sweep: "memq_reach S q \<Longrightarrow> memq_reach S (fst (MemoryQueue_sweep S q w))"
| close: "memq_reach S q \<Longrightarrow> memq_reach S (snd (MemoryQueue_Close q))"

lemma memq_reach_inv: "memq_reach S q \<Longrightarrow> memq_inv q"
proof (induction rule: memq_reach.induct)
  case (new n q)
  then show ?case by (auto simp: NewMemoryQueue_def memq_inv_def split: if_splits)
next
  case (dequeue q oj q')
  then show ?case by (auto simp: MemoryQueue_Dequeue_def memq_inv_def split: list.splits if_splits)
next
  case (wait q t d w)
  then show ?case by (auto simp: MemoryQueue_DequeueOrWait_def memq_inv_def split: list.splits)
next
  case (close q)
  then show ?case by (simp add: MemoryQueue_Close_def memq_inv_def)
qed (simp_all add: memory.enq_keeps memory.nack_keeps memory.requeue_keeps memory.retry_keeps
    memory.recover_keeps memory.sweep_keeps MemoryQueue_Nack_def MemoryQueue_Requeue_def
    MemoryQueue_Retry_def MemoryQueue_Recover_def MemoryQueue_sweep_def)

lemma memory_queue_bounds:
  assumes "memq_reach S q"
  shows "length (jobs q) \<le> cap q \<and> (done_closed q \<longleftrightarrow> closed q) \<and> (jobs_closed q \<longleftrightarrow> closed q) \<and>
    fst (MemoryQueue_Enqueue j q w) \<noteq> Inl (Panic ''send on closed channel'')"
  using memq_reach_inv [OF assms] by (simp add: memq_inv_def MemoryQueue_Enqueue_def)

text \<open>
  Closing a queue drains it. After \<open>Close\<close> no job is accepted any more; the jobs that were waiting
  are still delivered in order, and after them every \<open>Dequeue\<close> returns without a job instead of
  blocking.
\<close>

lemma close_drains:
  assumes "\<not> closed q"
  shows "\<exists>q'. MemoryQueue_Close q = (Inr (), q') \<and>
    MemoryQueue_Enqueue j q' w = (Inl (Err ''queue is closed''), q', w) \<and>
    dequeue_times (length (jobs q) + n) q' = Some (map Some (jobs q) @ replicate n None, q'\<lparr>jobs := []\<rparr>)"
  using dequeue_times_closed [of "q\<lparr>closed := True, done_closed := True, jobs_closed := True\<rparr>" n] assms
  by (simp add: MemoryQueue_Close_def MemoryQueue_Enqueue_def)

section \<open>The priority order\<close>

text \<open>
  C10. The in-place insertion of \<open>insertLocked\<close> (scan, grow, shift, store) is the reference insertion:
  the jobs that the new one does not overtake, the new one, the rest. The sequence stays sorted and
  gains exactly the new job.
\<close>

theorem insertLocked_reference:
  "sjobs (insertLocked job q) = insert_job job (sjobs q) \<and>
   mset (sjobs (insertLocked job q)) = add_mset job (mset (sjobs q)) \<and>
   (queue_sorted q \<longrightarrow> queue_sorted (insertLocked job q))"
  by (simp add: insertLocked_eq queue_sorted_def sorted_insert_job)

theorem insertLocked_reference_witness:
  "sjobs (insertLocked sample_processing ((NewSortedQueue 5)\<lparr>sjobs := [sample_pending]\<rparr>)) =
     [sample_processing, sample_pending] \<and>
   queue_sorted (insertLocked sample_processing ((NewSortedQueue 5)\<lparr>sjobs := [sample_pending]\<rparr>))"
proof -
  have "goes_before sample_processing sample_pending" by (simp add: goes_before_def sample_defs)
  then have "insert_job sample_processing [sample_pending] = [sample_processing, sample_pending]"
    by (simp add: insert_job_def)
  moreover have "queue_sorted ((NewSortedQueue 5)\<lparr>sjobs := [sample_pending]\<rparr>)" by (simp add: queue_sorted_def)
  ultimately show ?thesis
    using insertLocked_reference [of sample_processing "(NewSortedQueue 5)\<lparr>sjobs := [sample_pending]\<rparr>"] by simp
qed

inductive sortedq_reach :: "storage \<Rightarrow> sortedq \<Rightarrow> bool" for S :: storage where
  new: "sortedq_reach S (NewSortedQueue n)"
| enqueue: "sortedq_reach S q \<Longrightarrow> sortedq_reach S (fst (snd (SortedQueue_Enqueue j q w)))"
| dequeue: "sortedq_reach S q \<Longrightarrow> SortedQueue_Dequeue q = Some (oj, q') \<Longrightarrow> sortedq_reach S q'"
| wait: "sortedq_reach S q \<Longrightarrow> sortedq_reach S (fst (snd (SortedQueue_DequeueOrWait t d q w)))"
| nack: "sortedq_reach S q \<Longrightarrow> sortedq_reach S (fst (snd (SortedQueue_Nack S i q w)))"
| requeue: "sortedq_reach S q \<Longrightarrow> sortedq_reach S (fst (snd (SortedQueue_Requeue S i q w)))"
| retry: "sortedq_reach S q \<Longrightarrow> sortedq_reach S (fst (snd (SortedQueue_Retry S i k q w)))"
| recover: "sortedq_reach S q \<Longrightarrow> sortedq_reach S (fst (snd (SortedQueue_Recover S q w)))"
| sweep: "sortedq_reach S q \<Longrightarrow> sortedq_reach S (fst (SortedQueue_sweep S q w))"
| close: "sortedq_reach S q \<Longrightarrow> sortedq_reach S (snd (SortedQueue_Close q))"

text \<open>
  The order survives every operation: in every state the priority queue can reach, under any
  storage, the jobs are sorted by priority and then by age.
\<close>

lemma sorted_queue_ordered: "sortedq_reach S q \<Longrightarrow> queue_sorted q"
proof (induction rule: sortedq_reach.induct)
  case (new n)
  then show ?case by (simp add: NewSortedQueue_def queue_sorted_def)
next
  case (dequeue q oj q')
  then show ?case by (blast intro: Dequeue_sorted)
next
  case (close q)
  then show ?case by (simp add: SortedQueue_Close_def queue_sorted_def)
qed (simp_all add: DequeueOrWait_sorted sorted.enq_keeps sorted.nack_keeps sorted.requeue_keeps
    sorted.retry_keeps sorted.recover_keeps sorted.sweep_keeps SortedQueue_Nack_def SortedQueue_Requeue_def
    SortedQueue_Retry_def SortedQueue_Recover_def SortedQueue_sweep_def)

text \<open>
  C22. What \<open>Dequeue\<close> of the priority queue delivers: a job of highest priority and, among those, of the
  earliest creation time; of jobs that agree on both, the one enqueued first.
\<close>

theorem dequeue_best:
  assumes "queue_sorted q" "sjobs q \<noteq> []"
  shows "\<exists>j q'. SortedQueue_Dequeue q = Some (Some j, q') \<and> sjobs q = j # sjobs q' \<and>
    (\<forall>k \<in> set (sjobs q). Priority k < Priority j \<or> Priority k = Priority j \<and> CreatedAt j \<le> CreatedAt k) \<and>
    (\<forall>n. Priority n = Priority j \<and> CreatedAt n = CreatedAt j \<longrightarrow>
       sjobs (insertLocked n q) = j # insert_job n (sjobs q'))"
proof -
  obtain j js where q: "sjobs q = j # js" using assms(2) by (cases "sjobs q") auto
  from assms(1) q have "\<forall>k \<in> set js. job_before j k" by (simp add: queue_sorted_def)
  then have "\<forall>k \<in> set (sjobs q). Priority k < Priority j \<or> Priority k = Priority j \<and> CreatedAt j \<le> CreatedAt k"
    by (auto simp: job_before_def q)
  moreover have "sjobs (insertLocked n q) = j # insert_job n js" if "Priority n = Priority j" "CreatedAt n = CreatedAt j" for n
    using that by (simp add: insertLocked_eq q insert_job_def goes_before_def)
  ultimately show ?thesis using Dequeue_Cons [OF q] q by simp
qed

theorem dequeue_best_witness:
  "\<exists>q'. SortedQueue_Dequeue ((NewSortedQueue 5)\<lparr>sjobs := [sample_processing, sample_pending]\<rparr>) =
     Some (Some sample_processing, q')"
proof -
  let ?q = "(NewSortedQueue 5)\<lparr>sjobs := [sample_processing, sample_pending]\<rparr>"
  have "queue_sorted ?q" by (simp add: queue_sorted_def job_before_def sample_defs)
  from dequeue_best [OF this] show ?thesis by auto
qed

end
