(* ===== verification/Queue_RateLimited.thy ===== *)
theory Queue_RateLimited
  imports Queue_Memory
begin

text \<open>
  \<open>internal/queue/rate_limited.go\<close>: a \<open>MemoryQueue\<close> behind a token bucket. The refill goroutine
  acts through \<open>refill\<close>, one ticker event at a time. A goroutine that waits for a token polls every
  100 milliseconds; how many ticker events fall into each sleep is an argument of the model
  (\<open>ticks\<close>), and a wait that outlasts the given schedule has the value \<open>None\<close>.
\<close>

section \<open>State and operations\<close>

record rlq =
  inner :: memq
  rate :: int
  burst :: int
  tokens :: int
  stop_closed :: bool

text \<open>
  \<open>startRefill\<close>: the period of the ticker. A zero rate divides by zero; a period that is not
  positive makes \<open>time.NewTicker\<close> panic. Either ends the process.
\<close>

definition startRefill :: "rlq \<Rightarrow> int result" where
  "startRefill q =
     (if rate q = 0 then Inl (Panic ''runtime error: integer divide by zero'')
      else let interval = go_div Minute (rate q) in
           if interval \<le> 0 then Inl (Panic ''non-positive interval for NewTicker'') else Inr interval)"

definition NewRateLimitedQueue :: "int \<Rightarrow> int \<Rightarrow> int \<Rightarrow> rlq result" where
  "NewRateLimitedQueue bufferSize ratePerMinute burst0 =
     (case NewMemoryQueue bufferSize of
        Inl e \<Rightarrow> Inl e
      | Inr m \<Rightarrow>
          (let q = \<lparr>inner = m, rate = ratePerMinute, burst = burst0, tokens = burst0, stop_closed = False\<rparr> in
           case startRefill q of Inl e \<Rightarrow> Inl e | Inr _ \<Rightarrow> Inr q))"

text \<open>One event of the ticker; after \<open>stopRefill\<close> is closed the goroutine is gone.\<close>

definition refill :: "rlq \<Rightarrow> rlq" where
  "refill q = (if \<not> stop_closed q \<and> tokens q < burst q then q\<lparr>tokens := tokens q + 1\<rparr> else q)"

definition take_token :: "rlq \<Rightarrow> rlq option" where
  "take_token q = (if 0 < tokens q then Some (q\<lparr>tokens := tokens q - 1\<rparr>) else None)"

fun wait_token :: "nat list \<Rightarrow> rlq \<Rightarrow> world \<Rightarrow> (rlq \<times> world) option" where
  "wait_token [] q w = (case take_token q of Some q1 \<Rightarrow> Some (q1, w) | None \<Rightarrow> None)"
| "wait_token (n # ticks) q w =
     (case take_token q of
        Some q1 \<Rightarrow> Some (q1, w)
      | None \<Rightarrow> wait_token ticks ((refill ^^ n) q) (w\<lparr>clock := clock w + 100 * Millisecond\<rparr>))"

definition RateLimitedQueue_Dequeue :: "nat list \<Rightarrow> rlq \<Rightarrow> world \<Rightarrow> (job option \<times> rlq \<times> world) option" where
  "RateLimitedQueue_Dequeue ticks q w =
     (case MemoryQueue_Dequeue (inner q) of
        None \<Rightarrow> None
      | Some (None, m) \<Rightarrow> Some (None, q\<lparr>inner := m\<rparr>, w)
      | Some (Some j, m) \<Rightarrow>
          (case wait_token ticks (q\<lparr>inner := m\<rparr>) w of
             None \<Rightarrow> None
           | Some (q1, w1) \<Rightarrow> Some (Some j, q1, w1)))"

definition RateLimitedQueue_Close :: "rlq \<Rightarrow> unit result \<times> rlq" where
  "RateLimitedQueue_Close q =
     (if stop_closed q then (Inl (Panic ''close of closed channel''), q)
      else case MemoryQueue_Close (inner q) of (r, m) \<Rightarrow> (r, q\<lparr>stop_closed := True, inner := m\<rparr>))"

definition AvailableTokens :: "rlq \<Rightarrow> int" where
  "AvailableTokens q = tokens q"

text \<open>The first \<open>select\<close> is that of \<open>MemoryQueue.DequeueOrWait\<close>; then the wait for a token.\<close>

definition RateLimitedQueue_DequeueOrWait ::
  "bool \<Rightarrow> int \<Rightarrow> nat list \<Rightarrow> rlq \<Rightarrow> world \<Rightarrow> (job option \<times> rlq \<times> world) option" where
  "RateLimitedQueue_DequeueOrWait timer d ticks q w =
     (case MemoryQueue_DequeueOrWait timer d (inner q) w of
        (None, m, w1) \<Rightarrow> Some (None, q\<lparr>inner := m\<rparr>, w1)
      | (Some j, m, w1) \<Rightarrow>
          (case wait_token ticks (q\<lparr>inner := m\<rparr>) w1 of
             None \<Rightarrow> None
           | Some (q1, w2) \<Rightarrow> Some (Some j, q1, w2)))"

text \<open>Methods promoted from the embedded \<open>*MemoryQueue\<close>.\<close>

definition on_inner :: "(memq \<Rightarrow> world \<Rightarrow> 'a \<times> memq \<times> world) \<Rightarrow> rlq \<Rightarrow> world \<Rightarrow> 'a \<times> rlq \<times> world" where
  "on_inner f q w = (case f (inner q) w of (x, m, w1) \<Rightarrow> (x, q\<lparr>inner := m\<rparr>, w1))"

definition RateLimitedQueue_Enqueue :: "rlq enqueue" where
  "RateLimitedQueue_Enqueue job = on_inner (MemoryQueue_Enqueue job)"

definition RateLimitedQueue_Ack :: "storage \<Rightarrow> string \<Rightarrow> world \<Rightarrow> unit result \<times> world" where
  "RateLimitedQueue_Ack = MemoryQueue_Ack"

definition RateLimitedQueue_SetProcessing :: "storage \<Rightarrow> string \<Rightarrow> world \<Rightarrow> unit result \<times> world" where
  "RateLimitedQueue_SetProcessing = MemoryQueue_SetProcessing"

definition RateLimitedQueue_Nack :: "storage \<Rightarrow> string \<Rightarrow> rlq \<Rightarrow> world \<Rightarrow> unit result \<times> rlq \<times> world" where
  "RateLimitedQueue_Nack S jobID = on_inner (MemoryQueue_Nack S jobID)"

definition RateLimitedQueue_Requeue :: "storage \<Rightarrow> string \<Rightarrow> rlq \<Rightarrow> world \<Rightarrow> unit result \<times> rlq \<times> world" where
  "RateLimitedQueue_Requeue S jobID = on_inner (MemoryQueue_Requeue S jobID)"

definition RateLimitedQueue_Retry :: "storage \<Rightarrow> string \<Rightarrow> int \<Rightarrow> rlq \<Rightarrow> world \<Rightarrow> unit result \<times> rlq \<times> world" where
  "RateLimitedQueue_Retry S jobID extraRetries = on_inner (MemoryQueue_Retry S jobID extraRetries)"

definition RateLimitedQueue_Recover :: "storage \<Rightarrow> rlq \<Rightarrow> world \<Rightarrow> unit result \<times> rlq \<times> world" where
  "RateLimitedQueue_Recover S = on_inner (MemoryQueue_Recover S)"

definition RateLimitedQueue_sweep :: "storage \<Rightarrow> rlq \<Rightarrow> world \<Rightarrow> unit \<times> rlq \<times> world" where
  "RateLimitedQueue_sweep S = on_inner (\<lambda>m w. case MemoryQueue_sweep S m w of (m1, w1) \<Rightarrow> ((), m1, w1))"

definition RateLimitedQueue_PendingCount :: "rlq \<Rightarrow> int" where
  "RateLimitedQueue_PendingCount q = MemoryQueue_PendingCount (inner q)"

interpretation rq: job_queue RateLimitedQueue_Enqueue "\<lambda>q. mset (jobs (inner q))" "\<lambda>q. memq_room (inner q)"
  by unfold_locales
    (auto simp: RateLimitedQueue_Enqueue_def on_inner_def memq_room_def MemoryQueue_Enqueue_def duration_defs)

section \<open>The bucket\<close>

definition bucket_inv :: "rlq \<Rightarrow> bool" where
  "bucket_inv q \<longleftrightarrow> 0 \<le> tokens q \<and> tokens q \<le> burst q"

lemma NewRateLimitedQueue_bucket:
  "NewRateLimitedQueue n r b = Inr q \<Longrightarrow> 0 \<le> b \<Longrightarrow> bucket_inv q \<and> tokens q = b \<and> burst q = b"
  by (auto simp: NewRateLimitedQueue_def bucket_inv_def Let_def split: sum.splits)

lemma refill_bucket: "bucket_inv q \<Longrightarrow> bucket_inv (refill q)"
  by (auto simp: bucket_inv_def refill_def)

lemma take_token_bucket: "bucket_inv q \<Longrightarrow> take_token q = Some q' \<Longrightarrow> bucket_inv q'"
  by (auto simp: bucket_inv_def take_token_def split: if_splits)

lemma refill_frame [simp]:
  "inner (refill q) = inner q" "burst (refill q) = burst q" "stop_closed (refill q) = stop_closed q"
  "rate (refill q) = rate q"
  by (simp_all add: refill_def)

lemma refills_frame [simp]:
  "inner ((refill ^^ n) q) = inner q" "burst ((refill ^^ n) q) = burst q"
  "stop_closed ((refill ^^ n) q) = stop_closed q"
  by (induction n) simp_all

lemma refills_tokens_mono: "tokens q \<le> tokens ((refill ^^ n) q)"
  by (induction n) (auto simp: refill_def intro: order_trans)

text \<open>The refill goroutine and the takers, interleaved in any order.\<close>

datatype bucket_event = Tick | Take

fun bucket_step :: "bucket_event \<Rightarrow> rlq \<Rightarrow> rlq option" where
  "bucket_step Tick q = Some (refill q)"
| "bucket_step Take q = take_token q"

fun bucket_run :: "bucket_event list \<Rightarrow> rlq \<Rightarrow> rlq option" where
  "bucket_run [] q = Some q"
| "bucket_run (e # es) q = (case bucket_step e q of None \<Rightarrow> None | Some q1 \<Rightarrow> bucket_run es q1)"

lemma bucket_step_inv: "bucket_step e q = Some q' \<Longrightarrow> bucket_inv q \<Longrightarrow> bucket_inv q' \<and> burst q' = burst q"
  by (cases e) (auto simp: refill_def take_token_def bucket_inv_def split: if_splits)

lemma bucket_run_inv: "bucket_run es q = Some q' \<Longrightarrow> bucket_inv q \<Longrightarrow> bucket_inv q' \<and> burst q' = burst q"
proof (induction es arbitrary: q)
  case (Cons e es)
  then obtain q1 where "bucket_step e q = Some q1" "bucket_run es q1 = Some q'"
    by (auto split: option.splits)
  with Cons.IH [of q1] Cons.prems(2) bucket_step_inv [of e q q1] show ?case by simp
qed simp

lemma bucket_run_count:
  "bucket_run es q = Some q' \<Longrightarrow> tokens q' + int (count_list es Take) \<le> tokens q + int (count_list es Tick)"
proof (induction es arbitrary: q)
  case (Cons e es)
  then show ?case
    by (cases e) (fastforce simp: refill_def take_token_def split: option.splits if_splits)+
qed simp

end
