(* ===== verification/Queue_Router.thy ===== *)
theory Queue_Router
  imports Queue_RateLimited Queue_Sorted
begin

text \<open>
  \<open>internal/queue/router.go\<close>: the three queues behind one interface. A poll that runs alone cannot
  block, since it takes from the rate-limited queue only after seeing a token; the value \<open>None\<close> of
  \<open>Router_poll\<close> keeps the possibility in the type, and \<open>Router_poll_returns\<close> excludes it.
  \<open>Router_Dequeue\<close> polls for ever; \<open>None\<close> stands for a call that does not return.
\<close>

section \<open>State and operations\<close>

record router =
  FIFO :: memq
  PriorityQ :: sortedq
  RateLimited :: rlq

definition NewRouter :: "memq \<Rightarrow> sortedq \<Rightarrow> rlq \<Rightarrow> router" where
  "NewRouter fifo priority rateLimited = \<lparr>FIFO = fifo, PriorityQ = priority, RateLimited = rateLimited\<rparr>"

definition on_fifo :: "(memq \<Rightarrow> world \<Rightarrow> 'a \<times> memq \<times> world) \<Rightarrow> router \<Rightarrow> world \<Rightarrow> 'a \<times> router \<times> world" where
  "on_fifo f r w = (case f (FIFO r) w of (x, q, w1) \<Rightarrow> (x, r\<lparr>FIFO := q\<rparr>, w1))"

definition on_priority ::
  "(sortedq \<Rightarrow> world \<Rightarrow> 'a \<times> sortedq \<times> world) \<Rightarrow> router \<Rightarrow> world \<Rightarrow> 'a \<times> router \<times> world" where
  "on_priority f r w = (case f (PriorityQ r) w of (x, q, w1) \<Rightarrow> (x, r\<lparr>PriorityQ := q\<rparr>, w1))"

definition on_limited :: "(rlq \<Rightarrow> world \<Rightarrow> 'a \<times> rlq \<times> world) \<Rightarrow> router \<Rightarrow> world \<Rightarrow> 'a \<times> router \<times> world" where
  "on_limited f r w = (case f (RateLimited r) w of (x, q, w1) \<Rightarrow> (x, r\<lparr>RateLimited := q\<rparr>, w1))"

lemmas on_defs = on_fifo_def on_priority_def on_limited_def

definition Router_Enqueue :: "router enqueue" where
  "Router_Enqueue job r w =
     (if QueueType job = QueueTypePriority then on_priority (SortedQueue_Enqueue job) r w
      else if QueueType job = QueueTypeRateLimited then on_limited (RateLimitedQueue_Enqueue job) r w
      else on_fifo (MemoryQueue_Enqueue job) r w)"

text \<open>
  One pass of the polling loops of \<open>Dequeue\<close> and \<open>DequeueOrWait\<close>, with the arms the three calls of
  \<open>DequeueOrWait(0)\<close> happen to pick.
\<close>

type_synonym arms = "bool \<times> bool \<times> bool"

definition Router_poll :: "arms \<Rightarrow> router \<Rightarrow> world \<Rightarrow> (job option \<times> router \<times> world) option" where
  "Router_poll arms r w =
     (case arms of (t1, t2, t3) \<Rightarrow>
      case SortedQueue_DequeueOrWait t1 0 (PriorityQ r) w of
        (Some j, q, w1) \<Rightarrow> Some (Some j, r\<lparr>PriorityQ := q\<rparr>, w1)
      | (None, q, w1) \<Rightarrow>
          let r1 = r\<lparr>PriorityQ := q\<rparr> in
          (case (if 0 < AvailableTokens (RateLimited r1)
                 then RateLimitedQueue_DequeueOrWait t2 0 [] (RateLimited r1) w1
                 else Some (None, RateLimited r1, w1)) of
             None \<Rightarrow> None
           | Some (Some j, q2, w2) \<Rightarrow> Some (Some j, r1\<lparr>RateLimited := q2\<rparr>, w2)
           | Some (None, q2, w2) \<Rightarrow>
               let r2 = r1\<lparr>RateLimited := q2\<rparr> in
               (case MemoryQueue_DequeueOrWait t3 0 (FIFO r2) w2 of
                  (oj, q3, w3) \<Rightarrow> Some (oj, r2\<lparr>FIFO := q3\<rparr>, w3))))"

text \<open>A call with a zero duration returns at once; the calls below read as case distinctions.\<close>

lemma poll_sorted:
  "SortedQueue_DequeueOrWait t 0 q w =
     (case sjobs q of
        j # js \<Rightarrow> (Some j, q\<lparr>sjobs := js\<rparr>, w)
      | [] \<Rightarrow> (None, if \<not> sclosed q \<and> signal q \<and> \<not> t then q\<lparr>signal := False\<rparr> else q, w))"
  by (auto simp: SortedQueue_DequeueOrWait_def popLocked_def split: list.splits)

lemma poll_memory:
  "MemoryQueue_DequeueOrWait t 0 q w =
     (case (if t then [] else jobs q) of
        j # js \<Rightarrow> (Some j, q\<lparr>jobs := js\<rparr>, w)
      | [] \<Rightarrow> (None, q, w))"
  by (simp add: MemoryQueue_DequeueOrWait_def split: list.splits)

lemma wait_token_now: "0 < tokens q \<Longrightarrow> wait_token ticks q w = Some (q\<lparr>tokens := tokens q - 1\<rparr>, w)"
  by (cases ticks) (simp_all add: take_token_def)

lemma poll_limited:
  "0 < tokens q \<Longrightarrow> RateLimitedQueue_DequeueOrWait t 0 ticks q w = Some
     (case (if t then [] else jobs (inner q)) of
        j # js \<Rightarrow> (Some j, q\<lparr>inner := (inner q)\<lparr>jobs := js\<rparr>, tokens := tokens q - 1\<rparr>, w)
      | [] \<Rightarrow> (None, q, w))"
  by (simp add: RateLimitedQueue_DequeueOrWait_def poll_memory wait_token_now split: list.splits)

lemmas poll_defs = Router_poll_def poll_sorted poll_memory poll_limited AvailableTokens_def Let_def

lemma Router_poll_returns: "\<exists>oj r1. Router_poll arms r w = Some (oj, r1, w)"
  by (cases arms) (simp add: poll_defs split: list.splits)

lemma Router_poll_clock: "Router_poll arms r w = Some (oj, r1, w1) \<Longrightarrow> clock w1 = clock w"
  using Router_poll_returns [of arms r w] by auto

partial_function (option) Router_Dequeue ::
  "(nat \<Rightarrow> arms) \<Rightarrow> nat \<Rightarrow> router \<Rightarrow> world \<Rightarrow> (job \<times> router \<times> world) option" where
  "Router_Dequeue arms n r w =
     (case Router_poll (arms n) r w of
        None \<Rightarrow> None
      | Some (oj, r1, w1) \<Rightarrow>
          (case oj of
             Some j \<Rightarrow> Some (j, r1, w1)
           | None \<Rightarrow> Router_Dequeue arms (Suc n) r1 (w1\<lparr>clock := clock w1 + 20 * Millisecond\<rparr>)))"

function Router_wait_until ::
  "int \<Rightarrow> (nat \<Rightarrow> arms) \<Rightarrow> nat \<Rightarrow> router \<Rightarrow> world \<Rightarrow> (job option \<times> router \<times> world) option" where
  "Router_wait_until deadline arms n r w =
     (if clock w < deadline then
        (case Router_poll (arms n) r w of
           None \<Rightarrow> None
         | Some (Some j, r1, w1) \<Rightarrow> Some (Some j, r1, w1)
         | Some (None, r1, w1) \<Rightarrow>
             Router_wait_until deadline arms (Suc n) r1 (w1\<lparr>clock := clock w1 + 10 * Millisecond\<rparr>))
      else Some (None, r, w))"
  by pat_completeness auto
termination
  by (relation "measure (\<lambda>(deadline, arms, n, r, w). nat (deadline - clock w))")
    (auto simp: Millisecond_def dest!: Router_poll_clock)

declare Router_wait_until.simps [simp del]

definition Router_DequeueOrWait ::
  "int \<Rightarrow> (nat \<Rightarrow> arms) \<Rightarrow> router \<Rightarrow> world \<Rightarrow> (job option \<times> router \<times> world) option" where
  "Router_DequeueOrWait d arms r w = Router_wait_until (clock w + d) arms 0 r w"

definition Router_Ack :: "storage \<Rightarrow> string \<Rightarrow> world \<Rightarrow> unit result \<times> world" where
  "Router_Ack = MemoryQueue_Ack"

definition Router_Nack :: "storage \<Rightarrow> string \<Rightarrow> router \<Rightarrow> world \<Rightarrow> unit result \<times> router \<times> world" where
  "Router_Nack S jobID = on_fifo (MemoryQueue_Nack S jobID)"

definition Router_PendingCount :: "router \<Rightarrow> int" where
  "Router_PendingCount r = MemoryQueue_PendingCount (FIFO r) + SortedQueue_PendingCount (PriorityQ r) +
     RateLimitedQueue_PendingCount (RateLimited r)"

definition Router_SetProcessing :: "storage \<Rightarrow> string \<Rightarrow> world \<Rightarrow> unit result \<times> world" where
  "Router_SetProcessing = MemoryQueue_SetProcessing"

definition Router_Requeue :: "storage \<Rightarrow> string \<Rightarrow> router \<Rightarrow> world \<Rightarrow> unit result \<times> router \<times> world" where
  "Router_Requeue S jobID = on_fifo (MemoryQueue_Requeue S jobID)"

definition Router_Retry :: "storage \<Rightarrow> string \<Rightarrow> int \<Rightarrow> router \<Rightarrow> world \<Rightarrow> unit result \<times> router \<times> world" where
  "Router_Retry S jobID extraRetries = on_fifo (MemoryQueue_Retry S jobID extraRetries)"

text \<open>A panic in the last call is not caught; errors are logged only.\<close>

definition Router_Close :: "router \<Rightarrow> unit result \<times> router" where
  "Router_Close r =
     (case MemoryQueue_Close (FIFO r) of (_, f) \<Rightarrow>
      case SortedQueue_Close (PriorityQ r) of (_, p) \<Rightarrow>
      case RateLimitedQueue_Close (RateLimited r) of (e, l) \<Rightarrow>
        ((case e of Inl x \<Rightarrow> if is_panic x then Inl x else Inr () | Inr _ \<Rightarrow> Inr ()),
         r\<lparr>FIFO := f, PriorityQ := p, RateLimited := l\<rparr>))"

definition Router_Recover :: "storage \<Rightarrow> router \<Rightarrow> world \<Rightarrow> unit result \<times> router \<times> world" where
  "Router_Recover S r w =
     (case on_fifo (MemoryQueue_Recover S) r w of
        (Inl e, r1, w1) \<Rightarrow> (Inl (Wrap ''fifo recover'' e), r1, w1)
      | (Inr _, r1, w1) \<Rightarrow>
          (case on_priority (SortedQueue_Recover S) r1 w1 of
             (Inl e, r2, w2) \<Rightarrow> (Inl (Wrap ''priority recover'' e), r2, w2)
           | (Inr _, r2, w2) \<Rightarrow>
               (case on_limited (RateLimitedQueue_Recover S) r2 w2 of
                  (Inl e, r3, w3) \<Rightarrow> (Inl (Wrap ''rate-limited recover'' e), r3, w3)
                | (Inr _, r3, w3) \<Rightarrow> (Inr (), r3, w3))))"

end
