(* ===== verification/Storage_Listings.thy ===== *)
theory Storage_Listings
  imports Storage_Select
begin

text \<open>
  The read-only queries of the two backends that the HTTP handlers use: an extension of the storage
  contract by what each listing returns and by the fact that no query changes the table, with both
  backends as instances.
\<close>

section \<open>Listings of a store\<close>

text \<open>\<open>js\<close> holds exactly the jobs of the store with the property, each once, in the given order.\<close>

definition listing :: "jobmap \<Rightarrow> (job \<Rightarrow> bool) \<Rightarrow> (job \<Rightarrow> job \<Rightarrow> bool) \<Rightarrow> job list \<Rightarrow> bool" where
  "listing m P before js \<longleftrightarrow> set js = {j. (\<exists>i. m i = Some j) \<and> P j} \<and> distinct (map ID js) \<and> sorted_wrt before js"

definition older :: "job \<Rightarrow> job \<Rightarrow> bool" where
  "older j k \<longleftrightarrow> CreatedAt j \<le> CreatedAt k"

definition newer :: "job \<Rightarrow> job \<Rightarrow> bool" where
  "newer j k \<longleftrightarrow> CreatedAt k \<le> CreatedAt j"

lemma listing_length:
  assumes "listing m P before js" "\<And>i j. m i = Some j \<Longrightarrow> ID j = i"
  shows "length js = card {i. \<exists>j. m i = Some j \<and> P j}"
proof -
  have "{i. \<exists>j. m i = Some j \<and> P j} = set (map ID js)"
    using assms by (fastforce simp: listing_def image_iff)
  moreover have "card (set (map ID js)) = length js"
    using assms(1) distinct_card [of "map ID js"] by (simp add: listing_def)
  ultimately show ?thesis by simp
qed

lemma listing_filter:
  "listing m P before js \<Longrightarrow> listing m (\<lambda>j. P j \<and> Q j) before (filter Q js)"
  by (auto simp: listing_def distinct_map_filter sorted_wrt_filter)

section \<open>What a query returns\<close>

context row_scanner
begin

lemma query_listing:
  assumes h: "healthy w" and inv: "table_inv ok (table w)" and P: "\<And>p r. P r = P' (job_of p r)"
    and k: "\<And>p p' r r'. k r \<le> (k r' :: 'k :: linorder) \<Longrightarrow> before (job_of p r) (job_of p' r')"
  shows "\<exists>js. query_jobs scan (\<lambda>rs. sort_key k (filter P rs)) w = ((js, None), w) \<and> listing (view_of scan w) P' before js"
proof -
  let ?rs = "sort_key k (filter P (table w))"
  have s: "sorted_wrt (\<lambda>r r'. k r \<le> k r') ?rs" using sorted_sort_key [of k] by (simp add: sorted_map)
  have d: "\<exists>p. scan r = Inr (job_of p r)" if "r \<in> set ?rs" for r
    using that inv by (auto simp: table_inv_def elim!: decodes_scan)
  have "before (projr (scan x)) (projr (scan y))" if "x \<in> set ?rs" "y \<in> set ?rs" "k x \<le> k y" for x y
    using d [OF that(1)] d [OF that(2)] k [OF that(3)] by auto
  then have "sorted_wrt before (map (projr \<circ> scan) ?rs)"
    unfolding sorted_wrt_map comp_def by (rule sorted_wrt_mono_rel [OF _ s])
  moreover have "query_jobs scan (\<lambda>rs. sort_key k (filter P rs)) w = ((map (projr \<circ> scan) ?rs, None), w)"
    by (rule query_jobs_ok [OF h inv]) auto
  ultimately show ?thesis
    using listed_set [where P = P and P' = P', OF inv P, of k] listed_ids [OF inv, of k P] by (auto simp: listing_def)
qed

lemma query_recent:
  assumes "healthy w" "table_inv ok (table w)"
  shows "\<exists>js. query_jobs scan (\<lambda>rs. take n (by_created_desc rs)) w = ((take n js, None), w) \<and>
    listing (view_of scan w) (\<lambda>j. True) newer js"
proof -
  from query_listing [OF assms, of "\<lambda>r. True" "\<lambda>j. True" "\<lambda>r. - c_created_at r" newer] obtain js where
    js: "query_jobs scan (\<lambda>rs. sort_key (\<lambda>r. - c_created_at r) (filter (\<lambda>r. True) rs)) w = ((js, None), w)"
    "listing (view_of scan w) (\<lambda>j. True) newer js" by (auto simp: newer_def)
  have "js = map (projr \<circ> scan) (by_created_desc (table w))"
    using js(1) query_jobs_ok [OF assms, of "\<lambda>rs. sort_key (\<lambda>r. - c_created_at r) rs"]
    by (simp add: by_created_desc_def)
  moreover have "query_jobs scan (\<lambda>rs. take n (by_created_desc rs)) w =
      ((map (projr \<circ> scan) (take n (by_created_desc (table w))), None), w)"
    by (rule query_jobs_ok [OF assms]) (auto simp: by_created_desc_def dest: in_set_takeD)
  ultimately show ?thesis using js(2) by (intro exI [of _ js]) (simp add: take_map)
qed

end

lemma query_jobs_frame: "table (snd (query_jobs scan q w)) = table w"
  using sql_select_frame [of q w] by (auto simp: query_jobs_def split: prod.splits sum.splits)

section \<open>The contract of the listings\<close>

locale storage_listings = storage_contract view inv S fits norm reset_count
  for view :: "world \<Rightarrow> jobmap" and inv and S :: storage and fits norm reset_count +
  assumes processing_ok: "healthy w \<Longrightarrow> inv w \<Longrightarrow> \<exists>js. GetProcessingJobs S w = ((js, None), w) \<and>
        listing (view w) (\<lambda>j. Status j = StatusProcessing) older js"
    and all_pending_ok: "healthy w \<Longrightarrow> inv w \<Longrightarrow> \<exists>js. ListAllPendingJobs S w = ((js, None), w) \<and>
        listing (view w) (\<lambda>j. Status j = StatusPending) job_before js"
    and pending_by_ok: "healthy w \<Longrightarrow> inv w \<Longrightarrow> \<exists>js. ListPendingByQueue S t w = ((js, None), w) \<and>
        listing (view w) (\<lambda>j. Status j = StatusPending \<and> QueueType j = t) job_before js"
    and processing_by_ok: "healthy w \<Longrightarrow> inv w \<Longrightarrow> \<exists>js. ListProcessingByQueue S t w = ((js, None), w) \<and>
        listing (view w) (\<lambda>j. Status j = StatusProcessing \<and> QueueType j = t) older js"
    and recent_ok: "healthy w \<Longrightarrow> inv w \<Longrightarrow> \<exists>js. ListRecentJobs S (int n) w = ((take n js, None), w) \<and>
        listing (view w) (\<lambda>j. True) newer js"
    and reads_table: "table (snd (GetProcessingJobs S w)) = table w" "table (snd (ListAllPendingJobs S w)) = table w"
        "table (snd (ListPendingByQueue S t w)) = table w" "table (snd (ListProcessingByQueue S t w)) = table w"
        "table (snd (ListRecentJobs S m w)) = table w" "table (snd (CountByQueueAndStatus S w)) = table w"
begin

lemma pending_listing:
  "healthy w \<Longrightarrow> inv w \<Longrightarrow> \<exists>js. ListPendingJobs S w = ((js, None), w) \<and> listing (view w) active job_before js"
  using pending_ok unfolding listing_def by blast

lemma reads_table_eq:
  "GetJob S i w = (x, w') \<Longrightarrow> table w' = table w"
  "ListPendingJobs S w = (y, w') \<Longrightarrow> table w' = table w"
  "GetProcessingJobs S w = (y, w') \<Longrightarrow> table w' = table w"
  "ListAllPendingJobs S w = (y, w') \<Longrightarrow> table w' = table w"
  "ListPendingByQueue S t w = (y, w') \<Longrightarrow> table w' = table w"
  "ListRecentJobs S m w = (y, w') \<Longrightarrow> table w' = table w"
  "CountByQueueAndStatus S w = (c, w') \<Longrightarrow> table w' = table w"
  using get_table [of i w] pending_table [of w] reads_table(1) [of w] reads_table(2) [of w] reads_table(3) [of t w]
    reads_table(5) [of m w] reads_table(6) [of w] by simp_all

end

section \<open>The two backends\<close>

lemma listing_orders:
  "(- c_priority r, c_created_at r) \<le> (- c_priority r', c_created_at r') \<Longrightarrow> job_before (job_of p r) (job_of p' r')"
  "c_created_at r \<le> c_created_at r' \<Longrightarrow> older (job_of p r) (job_of p' r')"
  by (auto simp: job_before_def older_def less_eq_prod_def)

lemma sqlite_listings:
  assumes h: "healthy w" and inv: "sqlite_inv w"
  shows "\<exists>js. SQLite_GetProcessingJobs w = ((js, None), w) \<and> listing (sqlite_view w) (\<lambda>j. Status j = StatusProcessing) older js"
    "\<exists>js. SQLite_ListAllPendingJobs w = ((js, None), w) \<and> listing (sqlite_view w) (\<lambda>j. Status j = StatusPending) job_before js"
    "\<exists>js. SQLite_ListPendingByQueue t w = ((js, None), w) \<and>
       listing (sqlite_view w) (\<lambda>j. Status j = StatusPending \<and> QueueType j = t) job_before js"
    "\<exists>js. SQLite_ListProcessingByQueue t w = ((js, None), w) \<and>
       listing (sqlite_view w) (\<lambda>j. Status j = StatusProcessing \<and> QueueType j = t) older js"
  unfolding SQLite_GetProcessingJobs_def SQLite_ListAllPendingJobs_def SQLite_ListPendingByQueue_def
    SQLite_ListProcessingByQueue_def SQLite_queryJobs_def by_priority_def by_created_def sqlite_view_def
  by (rule sqlite_scan.query_listing [OF h inv [unfolded sqlite_inv_def]]; simp add: status_defs listing_orders)+

lemma sqlite_recent:
  assumes "healthy w" "sqlite_inv w"
  shows "\<exists>js. SQLite_ListRecentJobs (int n) w = ((take n js, None), w) \<and> listing (sqlite_view w) (\<lambda>j. True) newer js"
  using sqlite_scan.query_recent [of w _ n] assms by (simp add: SQLite_ListRecentJobs_def SQLite_queryJobs_def sqlite_view_def sqlite_inv_def)

lemma sqlite_reads:
  "table (snd (SQLite_GetProcessingJobs w)) = table w" "table (snd (SQLite_ListAllPendingJobs w)) = table w"
  "table (snd (SQLite_ListPendingByQueue t w)) = table w" "table (snd (SQLite_ListProcessingByQueue t w)) = table w"
  "table (snd (SQLite_ListRecentJobs m w)) = table w" "table (snd (SQLite_CountByQueueAndStatus w)) = table w"
  by (simp_all add: SQLite_GetProcessingJobs_def SQLite_ListAllPendingJobs_def SQLite_ListPendingByQueue_def
      SQLite_ListProcessingByQueue_def SQLite_ListRecentJobs_def SQLite_queryJobs_def query_jobs_frame
      SQLite_CountByQueueAndStatus_def)
    (auto dest: stmt_eq_table split: prod.splits answer.splits)

interpretation sqlite_lists: storage_listings sqlite_view sqlite_inv SQLiteStorage "\<lambda>_. True" sqlite_norm "\<lambda>_. 0"
  by unfold_locales (simp_all add: SQLiteStorage_def sqlite_listings sqlite_recent sqlite_reads)

lemma pg_listings:
  assumes h: "healthy w" and inv: "pg_inv w"
  shows "\<exists>js. Postgres_GetProcessingJobs w = ((js, None), w) \<and> listing (pg_view w) (\<lambda>j. Status j = StatusProcessing) older js"
    "\<exists>js. Postgres_ListAllPendingJobs w = ((js, None), w) \<and> listing (pg_view w) (\<lambda>j. Status j = StatusPending) job_before js"
    "\<exists>js. Postgres_ListPendingByQueue t w = ((js, None), w) \<and>
       listing (pg_view w) (\<lambda>j. Status j = StatusPending \<and> QueueType j = t) job_before js"
    "\<exists>js. Postgres_ListProcessingByQueue t w = ((js, None), w) \<and>
       listing (pg_view w) (\<lambda>j. Status j = StatusProcessing \<and> QueueType j = t) older js"
  unfolding Postgres_GetProcessingJobs_def Postgres_ListAllPendingJobs_def Postgres_ListPendingByQueue_def
    Postgres_ListProcessingByQueue_def pgQueryJobs_def by_priority_def by_created_def pg_view_def
  by (rule pg_scan.query_listing [OF h inv [unfolded pg_inv_def]]; simp add: status_defs listing_orders)+

lemma pg_recent:
  assumes "healthy w" "pg_inv w"
  shows "\<exists>js. Postgres_ListRecentJobs (int n) w = ((take n js, None), w) \<and> listing (pg_view w) (\<lambda>j. True) newer js"
  using pg_scan.query_recent [of w _ n] assms by (simp add: Postgres_ListRecentJobs_def pgQueryJobs_def pg_view_def pg_inv_def)

lemma pg_reads:
  "table (snd (Postgres_GetProcessingJobs w)) = table w" "table (snd (Postgres_ListAllPendingJobs w)) = table w"
  "table (snd (Postgres_ListPendingByQueue t w)) = table w" "table (snd (Postgres_ListProcessingByQueue t w)) = table w"
  "table (snd (Postgres_ListRecentJobs m w)) = table w" "table (snd (Postgres_CountByQueueAndStatus w)) = table w"
  by (simp_all add: Postgres_GetProcessingJobs_def Postgres_ListAllPendingJobs_def Postgres_ListPendingByQueue_def
      Postgres_ListProcessingByQueue_def Postgres_ListRecentJobs_def pgQueryJobs_def query_jobs_frame
      Postgres_CountByQueueAndStatus_def)
    (auto dest: stmt_eq_table split: prod.splits answer.splits)

interpretation pg_lists: storage_listings pg_view pg_inv PostgresStorage int32 "\<lambda>p. p" "\<lambda>n. n"
  by unfold_locales (simp_all add: PostgresStorage_def pg_listings pg_recent pg_reads)

interpretation lists: storage_listings "store_view b" "store_inv b" "main_store b" "store_fits b" "store_norm b"
  "store_reset b" for b :: string
  using sqlite_lists.storage_listings_axioms pg_lists.storage_listings_axioms
  by (cases "b = ''postgres''") (simp_all add: store_defs)

end
