(* ===== verification/Storage_Metrics.thy ===== *)
theory Storage_Metrics
  imports Storage_Listings
begin

text \<open>
  What the methods of the chosen backend do to the metrics: a read changes none, a write counts finished,
  failed and retried jobs and leaves the gauge of the busy workers and the counter of the recovered
  jobs alone, whatever the driver answers.
\<close>

lemma query_row_metrics: "query_row scan i w = (x, w') \<Longrightarrow> metrics w' = metrics w"
  by (auto simp: query_row_def sql_select_def split: prod.splits sum.splits answer.splits list.splits option.splits
      dest!: stmt_eq_frame(3))

lemma query_jobs_metrics: "query_jobs scan q w = (x, w') \<Longrightarrow> metrics w' = metrics w"
  by (auto simp: query_jobs_def sql_select_def split: prod.splits sum.splits answer.splits dest!: stmt_eq_frame(3))

lemma sql_update_metrics: "sql_update ok p f w = (x, w') \<Longrightarrow> metrics w' = metrics w"
  by (auto simp: sql_update_def split: prod.splits answer.splits if_splits dest!: stmt_eq_frame(3))

lemma sql_insert_metrics: "sql_insert ok r w = (x, w') \<Longrightarrow> metrics w' = metrics w"
  by (auto simp: sql_insert_def split: prod.splits answer.splits if_splits dest!: stmt_eq_frame(3))

lemmas backend_defs = main_store_def SQLiteStorage_def PostgresStorage_def

text \<open>Reads.\<close>

lemma reads_metrics:
  "GetJob (main_store b) i w = (oj, w') \<Longrightarrow> metrics w' = metrics w"
  "ListPendingJobs (main_store b) w = (x, w') \<Longrightarrow> metrics w' = metrics w"
  "ListAllPendingJobs (main_store b) w = (x, w') \<Longrightarrow> metrics w' = metrics w"
  "ListRecentJobs (main_store b) n w = (x, w') \<Longrightarrow> metrics w' = metrics w"
  "GetProcessingJobs (main_store b) w = (x, w') \<Longrightarrow> metrics w' = metrics w"
  "ListPendingByQueue (main_store b) t w = (x, w') \<Longrightarrow> metrics w' = metrics w"
  by (auto simp: backend_defs SQLite_GetJob_def Postgres_GetJob_def SQLite_ListPendingJobs_def Postgres_ListPendingJobs_def
      SQLite_ListAllPendingJobs_def Postgres_ListAllPendingJobs_def SQLite_ListRecentJobs_def Postgres_ListRecentJobs_def
      SQLite_GetProcessingJobs_def Postgres_GetProcessingJobs_def SQLite_ListPendingByQueue_def Postgres_ListPendingByQueue_def
      SQLite_queryJobs_def pgQueryJobs_def
      split: if_splits prod.splits sum.splits answer.splits
      dest!: query_row_metrics query_jobs_metrics stmt_eq_frame(3))

lemma count_metrics: "CountByQueueAndStatus (main_store b) w = (x, w') \<Longrightarrow> metrics w' = metrics w"
  by (auto simp: backend_defs SQLite_CountByQueueAndStatus_def Postgres_CountByQueueAndStatus_def
      split: if_splits prod.splits sum.splits answer.splits dest!: stmt_eq_frame(3))

text \<open>Writes.\<close>

definition gauges :: "metrics \<Rightarrow> int \<times> nat" where
  "gauges m = (WorkersBusy m, JobsRecovered m)"

lemma gauges_count [simp]: "gauges (count_status st l m) = gauges m" "gauges (count_retry st l m) = gauges m"
  by (simp_all add: gauges_def count_status_def count_retry_def)

lemma storage_gauges:
  "SaveJob (main_store b) j w = (x, w') \<Longrightarrow> gauges (metrics w') = gauges (metrics w)"
  "Requeue (main_store b) i w = (x, w') \<Longrightarrow> gauges (metrics w') = gauges (metrics w)"
  "ResetForRetry (main_store b) i n w = (x, w') \<Longrightarrow> gauges (metrics w') = gauges (metrics w)"
  "UpdateJobStatus (main_store b) i st msg w = (x, w') \<Longrightarrow> gauges (metrics w') = gauges (metrics w)"
  "UpdateJobRetry (main_store b) i st k msg w = (x, w') \<Longrightarrow> gauges (metrics w') = gauges (metrics w)"
proof -
  show "SaveJob (main_store b) j w = (x, w') \<Longrightarrow> gauges (metrics w') = gauges (metrics w)"
    by (auto simp: backend_defs SQLite_SaveJob_def Postgres_SaveJob_def split: if_splits prod.splits sum.splits
        dest!: sql_insert_metrics)
  show "Requeue (main_store b) i w = (x, w') \<Longrightarrow> gauges (metrics w') = gauges (metrics w)"
    "ResetForRetry (main_store b) i n w = (x, w') \<Longrightarrow> gauges (metrics w') = gauges (metrics w)"
    by (auto simp: backend_defs SQLite_Requeue_def Postgres_Requeue_def SQLite_ResetForRetry_def Postgres_ResetForRetry_def
        Let_def split: if_splits prod.splits sum.splits dest!: sql_update_metrics)
  show "UpdateJobStatus (main_store b) i st msg w = (x, w') \<Longrightarrow> gauges (metrics w') = gauges (metrics w)"
    "UpdateJobRetry (main_store b) i st k msg w = (x, w') \<Longrightarrow> gauges (metrics w') = gauges (metrics w)"
    by (auto simp: backend_defs SQLite_UpdateJobStatus_def Postgres_UpdateJobStatus_def SQLite_UpdateJobRetry_def
        Postgres_UpdateJobRetry_def SQLite_GetJob_def Postgres_GetJob_def Let_def
        split: if_splits prod.splits sum.splits option.splits dest!: query_row_metrics sql_update_metrics)
qed

end
