(* ===== verification/Router_Properties.thy ===== *)
theory Router_Properties
  imports Queue_Router Queue_Properties Storage_Metrics
begin

text \<open>
  The properties of the rate-limited queue and of the router: the token bucket, the order in which
  the router polls its queues, what its recovery and its failure handling do to the choice of queue,
  and which calls return.
\<close>

section \<open>The token bucket\<close>

text \<open>
  The token bucket. In every interleaving of refill events and takers the number of tokens stays
  between zero and the burst size, and the number of jobs released is at most the tokens at the start
  plus the refill events so far.
\<close>

lemma token_bucket_bounds:
  assumes "bucket_run es q = Some q'" "bucket_inv q"
  shows "0 \<le> tokens q' \<and> tokens q' \<le> burst q \<and> int (count_list es Take) \<le> tokens q + int (count_list es Tick)"
  using bucket_run_inv [OF assms] bucket_run_count [OF assms(1)] by (simp add: bucket_inv_def)

definition sample_limited :: rlq where
  "sample_limited = \<lparr>inner = sample_queue, rate = 60, burst = 2, tokens = 2, stop_closed = False\<rparr>"

lemma wait_token_live:
  "\<not> stop_closed q \<Longrightarrow> 0 < burst q \<Longrightarrow> \<exists>n \<in> set ticks. 0 < n \<Longrightarrow> bucket_inv q \<Longrightarrow>
   \<exists>q' w'. wait_token ticks q w = Some (q', w') \<and> inner q' = inner q"
proof (induction ticks arbitrary: q w)
  case (Cons n ticks)
  let ?q = "(refill ^^ n) q" and ?w = "w\<lparr>clock := clock w + 100 * Millisecond\<rparr>"
  show ?case
  proof (cases "0 < tokens q")
    case True
    then show ?thesis by (simp add: take_token_def)
  next
    case False
    then have s: "wait_token (n # ticks) q w = wait_token ticks ?q ?w" by (simp add: take_token_def)
    show ?thesis
    proof (cases n)
      case 0
      with Cons s show ?thesis by simp
    next
      case (Suc m)
      have "?q = (refill ^^ m) (refill q)" by (simp add: Suc funpow_Suc_right del: funpow.simps)
      moreover have "tokens (refill q) = tokens q + 1"
        using Cons.prems(1,2) False by (simp add: refill_def)
      ultimately have "0 < tokens ?q"
        using refills_tokens_mono [of "refill q" m] Cons.prems(4) by (simp add: bucket_inv_def)
      from wait_token_now [OF this, of ticks ?w] s show ?thesis by simp
    qed
  qed
qed simp

text \<open>
  A worker that took a job from the rate-limited queue gets its token. While the refill goroutine
  runs and the burst size is positive, one refill event during the wait is enough for \<open>Dequeue\<close> to
  return the job.
\<close>

lemma limited_dequeue_returns:
  assumes "jobs (inner q) = j # js" "\<not> stop_closed q" "0 < burst q" "bucket_inv q" "\<exists>n \<in> set ticks. 0 < n"
  shows "\<exists>q' w'. RateLimitedQueue_Dequeue ticks q w = Some (Some j, q', w') \<and> jobs (inner q') = js"
proof -
  let ?q = "q\<lparr>inner := (inner q)\<lparr>jobs := js\<rparr>\<rparr>"
  from wait_token_live [of ?q ticks w] assms(2-5) obtain q' w' where
    "wait_token ticks ?q w = Some (q', w')" "inner q' = inner ?q" by (auto simp: bucket_inv_def)
  then show ?thesis using assms(1) by (simp add: RateLimitedQueue_Dequeue_def MemoryQueue_Dequeue_def)
qed

lemma wait_token_stopped: "stop_closed q \<Longrightarrow> tokens q = 0 \<Longrightarrow> wait_token ticks q w = None"
proof (induction ticks arbitrary: q w)
  case (Cons n ticks)
  have "(refill ^^ n) q = q" using Cons.prems by (induction n) (simp_all add: refill_def)
  with Cons show ?case by (simp add: take_token_def)
qed (simp add: take_token_def)

text \<open>
  A worker that waits for a token when the queue is closed waits for ever. \<open>Close\<close> stops the refill
  goroutine, so a \<open>Dequeue\<close> that has taken a job and finds the bucket empty does not return, however
  long it polls, and the job it holds is neither processed nor put back.
\<close>

lemma limited_dequeue_hangs_after_close:
  assumes "\<not> stop_closed q" "tokens q = 0" "jobs (inner q) = j # js"
  shows "\<exists>q'. RateLimitedQueue_Close q = (Inr (), q') \<and> (\<forall>ticks w. RateLimitedQueue_Dequeue ticks q' w = None)"
proof -
  have "\<exists>m. MemoryQueue_Close (inner q) = (Inr (), m) \<and> jobs m = j # js"
    using assms(3) by (simp add: MemoryQueue_Close_def)
  then obtain m where m: "MemoryQueue_Close (inner q) = (Inr (), m)" "jobs m = j # js" by blast
  have "wait_token ticks (q\<lparr>stop_closed := True, inner := m\<lparr>jobs := js\<rparr>\<rparr>) w = None" for ticks w
    by (rule wait_token_stopped) (simp_all add: assms(2))
  then show ?thesis using assms m
    by (simp add: RateLimitedQueue_Close_def RateLimitedQueue_Dequeue_def MemoryQueue_Dequeue_def)
qed

text \<open>
  When the rate-limited queue can be built. The constructor panics exactly for a negative buffer
  size, a zero or negative rate, or a rate above \<open>6 * 10 ^ 10\<close> per minute, for which the period of the
  ticker is not positive; otherwise the queue starts with a full bucket.
\<close>

lemma go_div_pos: "0 < a \<Longrightarrow> 0 < r \<Longrightarrow> go_div a r = a div r"
  by (simp add: go_div_def)

lemma go_div_neg: "0 < a \<Longrightarrow> r < 0 \<Longrightarrow> go_div a r \<le> 0"
  by (simp add: go_div_def pos_imp_zdiv_nonneg_iff)

lemma startRefill_ok: "(\<exists>n. startRefill q = Inr n) \<longleftrightarrow> 0 < rate q \<and> rate q \<le> Minute"
proof (cases "0 < rate q")
  case True
  then have "0 < go_div Minute (rate q) \<longleftrightarrow> rate q \<le> Minute"
    by (simp add: go_div_pos duration_defs pos_imp_zdiv_pos_iff)
  then have "go_div Minute (rate q) \<le> 0 \<longleftrightarrow> Minute < rate q" by (simp add: linorder_not_less [symmetric])
  with True show ?thesis by (auto simp: startRefill_def Let_def)
next
  case False
  then have "rate q = 0 \<or> go_div Minute (rate q) \<le> 0"
    using go_div_neg [of Minute "rate q"] by (force simp: duration_defs)
  with False show ?thesis by (auto simp: startRefill_def Let_def)
qed

lemma new_limited_queue:
  "(\<exists>q. NewRateLimitedQueue bufferSize ratePerMinute burst0 = Inr q) \<longleftrightarrow>
     0 \<le> bufferSize \<and> 0 < ratePerMinute \<and> ratePerMinute \<le> 60000000000"
proof (cases "NewMemoryQueue bufferSize")
  case (Inl e)
  then show ?thesis by (auto simp: NewRateLimitedQueue_def NewMemoryQueue_def split: if_splits)
next
  case (Inr m)
  let ?q = "\<lparr>inner = m, rate = ratePerMinute, burst = burst0, tokens = burst0, stop_closed = False\<rparr>"
  have "(\<exists>q. NewRateLimitedQueue bufferSize ratePerMinute burst0 = Inr q) \<longleftrightarrow> (\<exists>n. startRefill ?q = Inr n)"
    using Inr by (cases "startRefill ?q") (simp_all add: NewRateLimitedQueue_def Let_def)
  moreover have "0 \<le> bufferSize" using Inr by (auto simp: NewMemoryQueue_def split: if_splits)
  ultimately show ?thesis unfolding startRefill_ok by (simp add: duration_defs)
qed

section \<open>Polling\<close>

definition first_job :: "job list \<Rightarrow> job option" where
  "first_job js = (case js of [] \<Rightarrow> None | j # _ \<Rightarrow> Some j)"

definition all_jobs :: "router \<Rightarrow> job multiset" where
  "all_jobs r = mset (jobs (FIFO r)) + mset (sjobs (PriorityQ r)) + mset (jobs (inner (RateLimited r)))"

lemma Router_poll_order:
  assumes "Router_poll (t1, t2, t3) r w = Some (oj, r', w')"
  shows "oj = (case first_job (sjobs (PriorityQ r)) of
            Some j \<Rightarrow> Some j
          | None \<Rightarrow>
              (case first_job (if 0 < tokens (RateLimited r) \<and> \<not> t2 then jobs (inner (RateLimited r)) else []) of
                 Some j \<Rightarrow> Some j
               | None \<Rightarrow> first_job (if t3 then [] else jobs (FIFO r))))"
    and "all_jobs r = all_jobs r' + (case oj of None \<Rightarrow> {#} | Some j \<Rightarrow> {#j#})"
    and "tokens (RateLimited r') = tokens (RateLimited r) -
      (if jobs (inner (RateLimited r')) = jobs (inner (RateLimited r)) then 0 else 1)"
  using assms by (auto simp: poll_defs first_job_def all_jobs_def split: list.splits if_splits)

text \<open>
  The order of the router. One poll returns without blocking: the first job of the priority queue
  if there is one, else the first job of the rate-limited queue if a token is available, else the
  first job of the FIFO queue; a timer arm that wins its race skips that queue for this round. The job
  leaves exactly the queue it came from, and a token is spent only for a rate-limited job.
\<close>

lemma router_poll_order:
  "\<exists>oj r'. Router_poll (t1, t2, t3) r w = Some (oj, r', w) \<and>
    oj = (case first_job (sjobs (PriorityQ r)) of
            Some j \<Rightarrow> Some j
          | None \<Rightarrow>
              (case first_job (if 0 < tokens (RateLimited r) \<and> \<not> t2 then jobs (inner (RateLimited r)) else []) of
                 Some j \<Rightarrow> Some j
               | None \<Rightarrow> first_job (if t3 then [] else jobs (FIFO r)))) \<and>
    all_jobs r = all_jobs r' + (case oj of None \<Rightarrow> {#} | Some j \<Rightarrow> {#j#}) \<and>
    tokens (RateLimited r') = tokens (RateLimited r) -
      (if jobs (inner (RateLimited r')) = jobs (inner (RateLimited r)) then 0 else 1)"
proof -
  obtain oj r' where "Router_poll (t1, t2, t3) r w = Some (oj, r', w)" using Router_poll_returns by blast
  with Router_poll_order [OF this] show ?thesis by blast
qed




lemma Router_poll_empty:
  assumes "all_jobs r = {#}"
  shows "\<exists>r1. Router_poll arms r w = Some (None, r1, w) \<and> all_jobs r1 = {#}"
  using assms by (cases arms) (auto simp: poll_defs all_jobs_def)

lemma Router_Dequeue_empty: "Router_Dequeue arms n r w = Some y \<Longrightarrow> all_jobs r \<noteq> {#}"
proof (erule Router_Dequeue.raw_induct [rotated])
  fix f :: "(nat \<Rightarrow> arms) \<Rightarrow> nat \<Rightarrow> router \<Rightarrow> world \<Rightarrow> (job \<times> router \<times> world) option" and arms n r w y
  assume IH: "\<And>arms n r w y. f arms n r w = Some y \<Longrightarrow> all_jobs r \<noteq> {#}"
    and body: "(case Router_poll (arms n) r w of
        None \<Rightarrow> None
      | Some (oj, r1, w1) \<Rightarrow>
          (case oj of
             Some j \<Rightarrow> Some (j, r1, w1)
           | None \<Rightarrow> f arms (Suc n) r1 (w1\<lparr>clock := clock w1 + 20 * Millisecond\<rparr>))) = Some y"
  show "all_jobs r \<noteq> {#}"
  proof
    assume "all_jobs r = {#}"
    from Router_poll_empty [OF this, of "arms n" w] obtain r1 where
      "Router_poll (arms n) r w = Some (None, r1, w)" "all_jobs r1 = {#}" by blast
    with body IH show False by auto
  qed
qed

text \<open>
  \<open>Dequeue\<close> of the router does not return on closed, empty queues. The loop never looks at the
  closing flags, so after \<open>Close\<close> of a router without waiting jobs a worker in \<open>Dequeue\<close> polls for ever.
\<close>

lemma router_dequeue_hangs:
  assumes "all_jobs r = {#}"
  shows "Router_Dequeue arms n (snd (Router_Close r)) w = None"
proof -
  have "all_jobs (snd (Router_Close r)) = all_jobs r"
    by (auto simp: Router_Close_def MemoryQueue_Close_def SortedQueue_Close_def RateLimitedQueue_Close_def
        all_jobs_def)
  with Router_Dequeue_empty [of arms n "snd (Router_Close r)" w] assms show ?thesis
    by (cases "Router_Dequeue arms n (snd (Router_Close r)) w") auto
qed

definition sample_router :: router where
  "sample_router = NewRouter sample_queue (NewSortedQueue 5) sample_limited"

section \<open>Recovery through the router\<close>

definition copies :: "string \<Rightarrow> job multiset \<Rightarrow> nat" where
  "copies i M = count (image_mset ID M) i"

lemma copies_plus [simp]: "copies i (M + N) = copies i M + copies i N"
  by (simp add: copies_def)

lemma ID_pend [simp]: "ID (pend j) = ID j"
  by (simp add: pend_def)

lemma copies_recovered:
  assumes "distinct (map ID js)"
  shows "copies i (mset (map pend js)) = (if \<exists>j \<in> set js. ID j = i then 1 else 0)"
proof -
  have "image_mset ID (mset (map pend js)) = mset (map ID js)"
    by (simp add: multiset.map_comp comp_def)
  moreover have "count (mset (map ID js)) i = (if i \<in> set (map ID js) then 1 else 0)"
    using assms by (rule distinct_count_atmost_1 [THEN iffD1, rule_format])
  ultimately show ?thesis by (auto simp: copies_def)
qed

text \<open>Marking keeps IDs, the active set and the queue types.\<close>

lemma mark_selected:
  "(\<exists>j. mark P now m i = Some j \<and> active j \<and> QueueType j = t) \<longleftrightarrow> (\<exists>j. m i = Some j \<and> active j \<and> QueueType j = t)"
  "(\<exists>j. mark P now m i = Some j \<and> active j) \<longleftrightarrow> (\<exists>j. m i = Some j \<and> active j)"
  by (cases "m i"; auto simp: mark_def active_def with_status_def)+

definition active_ids :: "(job \<Rightarrow> bool) \<Rightarrow> jobmap \<Rightarrow> string set" where
  "active_ids P m = {i. \<exists>j. m i = Some j \<and> active j \<and> P j}"

lemma active_ids_mark [simp]:
  "active_ids (\<lambda>j. True) (mark P now m) = active_ids (\<lambda>j. True) m"
  "active_ids is_priority (mark P now m) = active_ids is_priority m"
  by (simp_all add: active_ids_def mark_selected is_priority_def)

lemma recovered_ids:
  assumes "store_inv b w" "set js = {j. (\<exists>i. store_view b w i = Some j) \<and> active j \<and> P j}"
  shows "(\<exists>j \<in> set js. ID j = i) \<longleftrightarrow> i \<in> active_ids P (store_view b w)"
  unfolding assms(2) active_ids_def using cfg.view_ID [OF assms(1)] by fastforce

text \<open>The counter \<open>JobsRecovered\<close>: a job that \<open>Recover\<close> enqueues adds one.\<close>

lemma status_recovered:
  "UpdateJobStatus (main_store b) i st msg w = (x, w') \<Longrightarrow> JobsRecovered (metrics w') = JobsRecovered (metrics w)"
  by (drule storage_gauges(4)) (simp add: gauges_def)

lemma recover_loop_counts:
  assumes "\<And>j q w x q' w'. enq j q w = (x, q', w') \<Longrightarrow> metrics w' = metrics w \<and> size' q' = size' q + (case x of Inl e \<Rightarrow> 0 | Inr u \<Rightarrow> 1)"
    and "\<And>m. JobsRecovered (cnt m) = JobsRecovered m + k"
  shows "recover_loop enq sel cnt (main_store b) js q w = (Inr (), q', w') \<Longrightarrow>
    JobsRecovered (metrics w') + k * size' q = JobsRecovered (metrics w) + k * (size' q' :: nat)"
proof (induction js arbitrary: q w)
  case (Cons j js)
  then show ?case
    by (fastforce simp: assms(2) split: if_splits prod.splits sum.splits dest!: assms(1) status_recovered)
qed simp

lemma recover_with_counts:
  assumes "\<And>j q w x q' w'. enq j q w = (x, q', w') \<Longrightarrow> metrics w' = metrics w \<and> size' q' = size' q + (case x of Inl e \<Rightarrow> 0 | Inr u \<Rightarrow> 1)"
    and "\<And>m. JobsRecovered (cnt m) = JobsRecovered m + k"
    and "recover_with enq sel cnt (main_store b) q w = (Inr (), q', w')"
  shows "JobsRecovered (metrics w') + k * size' q = JobsRecovered (metrics w) + k * (size' q' :: nat)"
proof -
  from assms(3) obtain js w1 where l: "ListPendingJobs (main_store b) w = ((js, None), w1)"
    "recover_loop enq sel cnt (main_store b) js q w1 = (Inr (), q', w')"
    by (auto simp: recover_with_def split: prod.splits option.splits)
  have "JobsRecovered (metrics w') + k * size' q = JobsRecovered (metrics w1) + k * size' q'"
    by (rule recover_loop_counts [OF assms(1,2) l(2)])
  with reads_metrics(2) [OF l(1)] show ?thesis by simp
qed

lemma recover_memory_counts:
  assumes "MemoryQueue_Recover (main_store b) q w = (Inr (), q', w')"
  shows "JobsRecovered (metrics w') + length (jobs q) = JobsRecovered (metrics w) + length (jobs q')"
proof -
  have e: "metrics w' = metrics w \<and> length (jobs q') = length (jobs q) + (case x of Inl e \<Rightarrow> 0 | Inr u \<Rightarrow> 1)"
    if "MemoryQueue_Enqueue j q w = (x, q', w')" for j q w x q' w'
    using that by (auto simp: MemoryQueue_Enqueue_def split: if_splits)
  have c: "JobsRecovered (count_recovered m) = JobsRecovered m + 1" for m by (simp add: count_recovered_def)
  from recover_with_counts [OF e c assms [unfolded MemoryQueue_Recover_def]] show ?thesis by simp
qed

lemma recover_sorted_counts:
  assumes "SortedQueue_Recover (main_store b) q w = (Inr (), q', w')"
  shows "JobsRecovered (metrics w') = JobsRecovered (metrics w)"
proof -
  have e: "metrics w' = metrics w \<and> length (sjobs q') = length (sjobs q) + (case x of Inl e \<Rightarrow> 0 | Inr u \<Rightarrow> 1)"
    if "SortedQueue_Enqueue j q w = (x, q', w')" for j q w x q' w'
    using that by (auto simp: SortedQueue_Enqueue_def insertLocked_eq split: if_splits)
  have c: "JobsRecovered m = JobsRecovered m + 0" for m by simp
  from recover_with_counts [OF e c assms [unfolded SortedQueue_Recover_def]] show ?thesis by simp
qed

lemma recover_memory_ids:
  assumes "healthy w" "store_inv b w" "memq_room q (card (active_ids (\<lambda>j. True) (store_view b w)))"
  obtains q' w' where "MemoryQueue_Recover (main_store b) q w = (Inr (), q', w')" "healthy w'" "store_inv b w'"
    "active_ids (\<lambda>j. True) (store_view b w') = active_ids (\<lambda>j. True) (store_view b w)"
    "active_ids is_priority (store_view b w') = active_ids is_priority (store_view b w)"
    "\<forall>i. copies i (mset (jobs q')) = copies i (mset (jobs q)) +
       (if i \<in> active_ids (\<lambda>j. True) (store_view b w) then 1 else 0)"
    "JobsRecovered (metrics w') = JobsRecovered (metrics w) + card (active_ids (\<lambda>j. True) (store_view b w))"
proof -
  from mqs.recover_ok [of w b q "\<lambda>j. True" count_recovered] assms obtain js q' w' where
    r: "recover_with MemoryQueue_Enqueue (\<lambda>j. True) count_recovered (main_store b) q w = (Inr (), q', w')"
    "healthy w'" "store_inv b w'" "store_view b w' = mark (\<lambda>j. True) (clock w) (store_view b w)"
    "set js = {j. (\<exists>i. store_view b w i = Some j) \<and> active j \<and> True}" "distinct (map ID js)"
    "mset (jobs q') = mset (jobs q) + mset (map pend js)"
    by (auto simp: active_ids_def)
  have "ID ` set js = active_ids (\<lambda>j. True) (store_view b w)" using recovered_ids [OF assms(2) r(5)] by force
  moreover have "card (ID ` set js) = length js" using distinct_card [OF r(6)] by simp
  moreover have "length (jobs q') = length (jobs q) + length js" using arg_cong [OF r(7), of size] by simp
  ultimately have "JobsRecovered (metrics w') = JobsRecovered (metrics w) + card (active_ids (\<lambda>j. True) (store_view b w))"
    using recover_memory_counts [of b q w q' w'] r(1) by (simp add: MemoryQueue_Recover_def)
  then show ?thesis
    by (intro that [of q' w'])
      (use r recovered_ids [OF assms(2) r(5)] copies_recovered [OF r(6)] in \<open>simp_all add: MemoryQueue_Recover_def\<close>)
qed

lemma recover_sorted_ids:
  assumes "healthy w" "store_inv b w" "\<not> sclosed q"
  obtains q' w' where "SortedQueue_Recover (main_store b) q w = (Inr (), q', w')" "healthy w'" "store_inv b w'"
    "active_ids (\<lambda>j. True) (store_view b w') = active_ids (\<lambda>j. True) (store_view b w)"
    "\<forall>i. copies i (mset (sjobs q')) = copies i (mset (sjobs q)) +
       (if i \<in> active_ids is_priority (store_view b w) then 1 else 0)"
proof -
  from sqs.recover_ok [of w b q is_priority "\<lambda>m. m"] assms obtain js q' w' where
    r: "recover_with SortedQueue_Enqueue is_priority (\<lambda>m. m) (main_store b) q w = (Inr (), q', w')"
    "healthy w'" "store_inv b w'" "store_view b w' = mark is_priority (clock w) (store_view b w)"
    "set js = {j. (\<exists>i. store_view b w i = Some j) \<and> active j \<and> is_priority j}" "distinct (map ID js)"
    "mset (sjobs q') = mset (sjobs q) + mset (map pend js)"
    by blast
  show ?thesis
    by (rule that [of q' w'])
      (use r recovered_ids [OF assms(2) r(5)] copies_recovered [OF r(6)] in \<open>simp_all add: SortedQueue_Recover_def\<close>)
qed

lemma Router_Recover_copies:
  assumes "healthy w" "store_inv b w" "\<not> sclosed (PriorityQ r)"
    "memq_room (FIFO r) (card (active_ids (\<lambda>j. True) (store_view b w)))"
    "memq_room (inner (RateLimited r)) (card (active_ids (\<lambda>j. True) (store_view b w)))"
  shows "\<exists>r' w'. Router_Recover (main_store b) r w = (Inr (), r', w') \<and>
    (\<forall>i j. store_view b w i = Some j \<longrightarrow> copies i (all_jobs r') = copies i (all_jobs r) +
       (if \<not> active j then 0 else if QueueType j = QueueTypePriority then 3 else 2)) \<and>
    JobsRecovered (metrics w') = JobsRecovered (metrics w) + 2 * card (active_ids (\<lambda>j. True) (store_view b w))"
proof -
  let ?A = "active_ids (\<lambda>j. True) (store_view b w)" and ?P = "active_ids is_priority (store_view b w)"
  from assms(1,2,4) obtain f w1 where f: "MemoryQueue_Recover (main_store b) (FIFO r) w = (Inr (), f, w1)"
    "healthy w1" "store_inv b w1" "active_ids (\<lambda>j. True) (store_view b w1) = ?A"
    "active_ids is_priority (store_view b w1) = ?P"
    "\<forall>i. copies i (mset (jobs f)) = copies i (mset (jobs (FIFO r))) + (if i \<in> ?A then 1 else 0)"
    "JobsRecovered (metrics w1) = JobsRecovered (metrics w) + card ?A"
    by (rule recover_memory_ids)
  from f(2,3) assms(3) obtain p w2 where p: "SortedQueue_Recover (main_store b) (PriorityQ r) w1 = (Inr (), p, w2)"
    "healthy w2" "store_inv b w2" "active_ids (\<lambda>j. True) (store_view b w2) = active_ids (\<lambda>j. True) (store_view b w1)"
    "\<forall>i. copies i (mset (sjobs p)) = copies i (mset (sjobs (PriorityQ r))) +
       (if i \<in> active_ids is_priority (store_view b w1) then 1 else 0)"
    by (rule recover_sorted_ids)
  have "memq_room (inner (RateLimited r)) (card (active_ids (\<lambda>j. True) (store_view b w2)))"
    using assms(5) p(4) f(4) by simp
  with p(2,3) obtain l w3 where l: "MemoryQueue_Recover (main_store b) (inner (RateLimited r)) w2 = (Inr (), l, w3)"
    "\<forall>i. copies i (mset (jobs l)) = copies i (mset (jobs (inner (RateLimited r)))) +
       (if i \<in> active_ids (\<lambda>j. True) (store_view b w2) then 1 else 0)"
    "JobsRecovered (metrics w3) = JobsRecovered (metrics w2) + card (active_ids (\<lambda>j. True) (store_view b w2))"
    by (rule recover_memory_ids)
  let ?r = "r\<lparr>FIFO := f, PriorityQ := p, RateLimited := (RateLimited r)\<lparr>inner := l\<rparr>\<rparr>"
  have "Router_Recover (main_store b) r w = (Inr (), ?r, w3)"
    using f(1) p(1) l(1) by (simp add: Router_Recover_def on_defs RateLimitedQueue_Recover_def on_inner_def)
  moreover have "copies i (all_jobs ?r) = copies i (all_jobs r) +
      (if \<not> active j then 0 else if QueueType j = QueueTypePriority then 3 else 2)"
    if "store_view b w i = Some j" for i j
    using that by (simp add: all_jobs_def f(4-6) p(4,5) l(2)) (simp add: active_ids_def is_priority_def)
  moreover have "JobsRecovered (metrics w3) = JobsRecovered (metrics w) + 2 * card ?A"
    using l(3) f(4,7) p(4) recover_sorted_counts [OF p(1)] by simp
  ultimately show ?thesis by blast
qed

text \<open>
  C40. The router recovers a job more than once. \<open>Recover\<close> of the FIFO queue and of the rate-limited
  queue take every active job whatever its queue type, so after a restart an active job is waiting
  twice, and three times if it belongs to the priority queue. The metric \<open>JobsRecovered\<close> counts every
  active job twice, since the two memory queues count and the priority queue does not.
\<close>

theorem router_recover_duplicates:
  assumes "healthy w" "store_inv b w" "\<not> sclosed (PriorityQ r)"
    "memq_room (FIFO r) (card (active_ids (\<lambda>j. True) (store_view b w)))"
    "memq_room (inner (RateLimited r)) (card (active_ids (\<lambda>j. True) (store_view b w)))"
  shows "\<exists>r' w'. Router_Recover (main_store b) r w = (Inr (), r', w') \<and>
    (\<forall>i j. store_view b w i = Some j \<longrightarrow> copies i (all_jobs r') = copies i (all_jobs r) +
       (if \<not> active j then 0 else if QueueType j = QueueTypePriority then 3 else 2)) \<and>
    JobsRecovered (metrics w') = JobsRecovered (metrics w) + 2 * card (active_ids (\<lambda>j. True) (store_view b w))"
  using assms by (rule Router_Recover_copies)

theorem router_recover_duplicates_witness:
  "\<exists>r' w'. Router_Recover (main_store ''sqlite'') sample_router sample_world = (Inr (), r', w') \<and>
    copies ''a'' (all_jobs r') = 2 \<and> copies ''b'' (all_jobs r') = 3 \<and> copies ''c'' (all_jobs r') = 0"
proof -
  let ?A = "active_ids (\<lambda>j. True) (store_view ''sqlite'' sample_world)"
  have "card ?A \<le> 3" using sample_card [of "''sqlite''" "\<lambda>j. active j \<and> True"] by (simp add: active_ids_def)
  then have room: "memq_room (FIFO sample_router) (card ?A)" "memq_room (inner (RateLimited sample_router)) (card ?A)"
    by (simp_all add: sample_router_def NewRouter_def sample_limited_def)
  have s: "\<not> sclosed (PriorityQ sample_router)" by (simp add: sample_router_def NewRouter_def NewSortedQueue_def)
  have e: "all_jobs sample_router = {#}"
    by (simp add: all_jobs_def sample_router_def NewRouter_def sample_queue_def sample_limited_def NewSortedQueue_def)
  from router_recover_duplicates [OF sample_healthy(2) sample_inv(2) s room] obtain r' w' where
    r: "Router_Recover (main_store ''sqlite'') sample_router sample_world = (Inr (), r', w')"
    "\<And>i j. store_view ''sqlite'' sample_world i = Some j \<Longrightarrow> copies i (all_jobs r') =
       copies i (all_jobs sample_router) + (if \<not> active j then 0 else if QueueType j = QueueTypePriority then 3 else 2)"
    by blast
  from r(2) [of "''a''" sample_pending] r(2) [of "''b''" sample_processing] r(2) [of "''c''" sample_failed] r(1) e
  show ?thesis by (simp add: sample_view copies_def)
qed

section \<open>Which queue a job goes to\<close>

text \<open>
  Submission goes by queue type. A job the router accepts is added to exactly one queue, the one
  its type names (FIFO for every other type), the two other queues are untouched, and the pending
  count grows by one.
\<close>

lemma router_enqueue_routes:
  assumes "Router_Enqueue j r w = (Inr (), r', w')"
  shows "Router_PendingCount r' = Router_PendingCount r + 1 \<and>
    (if QueueType j = QueueTypePriority then
       sjobs (PriorityQ r') = insert_job j (sjobs (PriorityQ r)) \<and> FIFO r' = FIFO r \<and> RateLimited r' = RateLimited r
     else if QueueType j = QueueTypeRateLimited then
       jobs (inner (RateLimited r')) = jobs (inner (RateLimited r)) @ [j] \<and> FIFO r' = FIFO r \<and> PriorityQ r' = PriorityQ r
     else jobs (FIFO r') = jobs (FIFO r) @ [j] \<and> PriorityQ r' = PriorityQ r \<and> RateLimited r' = RateLimited r)"
proof -
  from assms show ?thesis
    by (auto simp: Router_Enqueue_def on_defs SortedQueue_Enqueue_def insertLocked_eq RateLimitedQueue_Enqueue_def
        on_inner_def MemoryQueue_Enqueue_def Router_PendingCount_def MemoryQueue_PendingCount_def
        SortedQueue_PendingCount_def RateLimitedQueue_PendingCount_def split: if_splits)
qed

text \<open>
  A failed attempt sends the job to the FIFO queue whatever its type. \<open>Nack\<close> of the router is that
  of the FIFO queue, so a priority job that is retried loses its place in the priority order and a
  rate-limited one is retried without waiting for a token.
\<close>

lemma router_nack_leaves_queue:
  assumes "healthy w" "store_inv b w" "store_view b w i = Some j" "next_count j < MaxRetries j"
    "store_fits b (next_count j)" "memq_room (FIFO r) 1"
  shows "\<exists>r' w' j'. Router_Nack (main_store b) i r w = (Inr (), r', w') \<and>
    jobs (FIFO r') = jobs (FIFO r) @ [j'] \<and> ID j' = ID j \<and> QueueType j' = QueueType j \<and>
    PriorityQ r' = PriorityQ r \<and> RateLimited r' = RateLimited r"
proof -
  let ?j = "j\<lparr>RetryCount := next_count j, Status := StatusPending\<rparr>"
  from assms(1-5) obtain w1 where
    "nack_with MemoryQueue_Enqueue (main_store b) i (FIFO r) w = MemoryQueue_Enqueue ?j (FIFO r) w1"
    by (rule mqs.nack_pending)
  moreover have "MemoryQueue_Enqueue ?j (FIFO r) w1 = (Inr (), (FIFO r)\<lparr>jobs := jobs (FIFO r) @ [?j]\<rparr>, w1)"
    using assms(6) by (intro memq_room_Enqueue [of _ 0]) simp
  ultimately show ?thesis by (simp add: Router_Nack_def on_defs MemoryQueue_Nack_def)
qed

text \<open>
  The router may be closed once. The first \<open>Close\<close> closes all three queues, after which each of them
  refuses new jobs; a second \<open>Close\<close> panics, since the stop channel of the rate-limited queue is closed
  without a guard.
\<close>

lemma router_close_twice:
  assumes "\<not> stop_closed (RateLimited r)"
  shows "\<exists>r'. Router_Close r = (Inr (), r') \<and>
    Router_Enqueue j r' w = (Inl (Err ''queue is closed''), r', w) \<and>
    fst (Router_Close r') = Inl (Panic ''close of closed channel'')"
  using assms
  by (auto simp: Router_Close_def RateLimitedQueue_Close_def MemoryQueue_Close_def SortedQueue_Close_def
      Router_Enqueue_def on_defs RateLimitedQueue_Enqueue_def on_inner_def MemoryQueue_Enqueue_def
      SortedQueue_Enqueue_def)

end
