(* ===== verification/Worker_Pool.thy ===== *)
theory Worker_Pool
  imports Queue_Router
begin

text \<open>
  \<open>internal/worker/pool.go\<close>: the worker pool. The state the goroutines share under \<open>Pool.mu\<close> is the
  record \<open>pool\<close>; each critical section and each method is one function on it. The processor is an
  interface value, an argument of \<open>processJob\<close>: what it does, and what other goroutines do meanwhile,
  is an arbitrary function of the shared state. The interleaving of the worker goroutines, the
  supervisor, \<open>Preempt\<close> and \<open>Stop\<close> is the step relation of \<open>Worker_Protocol\<close>.
\<close>

section \<open>State\<close>

text \<open>
  A context is a reference into \<open>contexts\<close>; its state is what \<open>ctx.Err()\<close> reports. \<open>cancel\<close> is the
  reference of the context the function cancels. \<open>workers\<close> holds nil pointers before \<open>Start\<close>.
\<close>

datatype ctx = CtxLive | CtxCanceled | CtxDeadline

record workerState =
  currentJob :: "job option"
  cancel :: "nat option"

record pool =
  worker_count :: nat
  timeout :: int
  cooldown :: int
  pool_done :: bool
  workers :: "workerState option list"
  preemptQueue :: "job option list"
  preemptSignal :: "bool list"
  workerDied :: "nat list"
  aliveWorkers :: int
  pool_wg :: int
  contexts :: "ctx list"

definition idle :: workerState where
  "idle = \<lparr>currentJob = None, cancel = None\<rparr>"

lemma idle_simps [simp]: "currentJob idle = None" "cancel idle = None"
  by (simp_all add: idle_def)

definition NewPool :: "int \<Rightarrow> int \<Rightarrow> int \<Rightarrow> pool result" where
  "NewPool n timeout0 cooldown0 =
     (if n < 0 then Inl (Panic ''makeslice: len out of range'')
      else Inr \<lparr>worker_count = nat n, timeout = timeout0, cooldown = cooldown0, pool_done = False,
        workers = replicate (nat n) None, preemptQueue = replicate (nat n) None,
        preemptSignal = replicate (nat n) False, workerDied = [], aliveWorkers = 0, pool_wg = 0, contexts = []\<rparr>)"

text \<open>The loop of \<open>Start\<close>; the goroutines it launches are the thread part of \<open>Worker_Protocol\<close>.\<close>

fun start_loop :: "nat \<Rightarrow> nat \<Rightarrow> pool \<Rightarrow> pool" where
  "start_loop 0 i p = p"
| "start_loop (Suc n) i p = start_loop n (Suc i)
     (p\<lparr>workers := (workers p)[i := Some idle], preemptSignal := (preemptSignal p)[i := True],
        pool_wg := pool_wg p + 1\<rparr>)"

definition Start :: "pool \<Rightarrow> pool" where
  "Start p = start_loop (worker_count p) 0 p"

definition Stop :: "pool \<Rightarrow> unit result \<times> pool" where
  "Stop p = (if pool_done p then (Inl (Panic ''close of closed channel''), p) else (Inr (), p\<lparr>pool_done := True\<rparr>))"

text \<open>\<open>Wait\<close> returns when the wait group is at zero.\<close>

definition Wait_returns :: "pool \<Rightarrow> bool" where
  "Wait_returns p \<longleftrightarrow> pool_wg p = 0"

definition ExpectedWorkers :: "pool \<Rightarrow> int" where
  "ExpectedWorkers p = int (worker_count p)"

definition AliveWorkers :: "pool \<Rightarrow> int" where
  "AliveWorkers p = aliveWorkers p"

section \<open>Preemption\<close>

text \<open>Calling a cancel function has an effect on a live context only.\<close>

definition cancel_ctx :: "nat \<Rightarrow> ctx list \<Rightarrow> ctx list" where
  "cancel_ctx c cs = (if c < length cs \<and> cs ! c = CtxLive then cs[c := CtxCanceled] else cs)"

definition preemptable :: "workerState \<Rightarrow> job option \<Rightarrow> bool" where
  "preemptable ws slot \<longleftrightarrow>
     (case currentJob ws of None \<Rightarrow> False | Some j \<Rightarrow> Priority j = PriorityNormal \<and> slot = None)"

text \<open>
  The loop of \<open>Preempt\<close> from index \<open>i\<close> on. A nil worker or a nil cancel function is a nil dereference.
\<close>

function preempt_from :: "job \<Rightarrow> nat \<Rightarrow> pool \<Rightarrow> world \<Rightarrow> string result \<times> pool \<times> world" where
  "preempt_from job i p w =
     (if i < length (workers p) then
        (case workers p ! i of
           None \<Rightarrow> (Inl (Panic ''nil pointer dereference''), p, w)
         | Some ws \<Rightarrow>
             if preemptable ws (preemptQueue p ! i) then
               (let cur = the (currentJob ws);
                    w1 = w\<lparr>metrics := (metrics w)\<lparr>JobsPreempted := inc_label (QueueType cur) (JobsPreempted (metrics w))\<rparr>\<rparr>
                in case cancel ws of
                     None \<Rightarrow> (Inl (Panic ''nil pointer dereference''), p, w1)
                   | Some c \<Rightarrow>
                       (Inr (ID cur),
                        p\<lparr>contexts := cancel_ctx c (contexts p), preemptQueue := (preemptQueue p)[i := Some job]\<rparr>, w1))
             else preempt_from job (Suc i) p w)
      else (Inl (Err ''no preemptable job found''), p, w))"
  by pat_completeness auto
termination
  by (relation "measure (\<lambda>(job, i, p, w). length (workers p) - i)") auto

declare preempt_from.simps [simp del]

definition Preempt :: "job \<Rightarrow> pool \<Rightarrow> world \<Rightarrow> string result \<times> pool \<times> world" where
  "Preempt job p w = preempt_from job 0 p w"

section \<open>One job\<close>

text \<open>The critical sections of the worker: emptying its slot, registering a job, unregistering it.\<close>

definition take_slot :: "nat \<Rightarrow> pool \<Rightarrow> job option \<times> pool" where
  "take_slot i p = (preemptQueue p ! i, p\<lparr>preemptQueue := (preemptQueue p)[i := None]\<rparr>)"

definition register :: "nat \<Rightarrow> job \<Rightarrow> pool \<Rightarrow> nat \<times> pool" where
  "register i job p =
     (let c = length (contexts p) in
      (c, p\<lparr>contexts := contexts p @ [CtxLive], workers := (workers p)[i := Some \<lparr>currentJob = Some job, cancel = Some c\<rparr>]\<rparr>))"

definition unregister :: "nat \<Rightarrow> nat \<Rightarrow> pool \<Rightarrow> pool" where
  "unregister i c p = p\<lparr>contexts := cancel_ctx c (contexts p), workers := (workers p)[i := Some idle]\<rparr>"

text \<open>\<open>processJob\<close> up to the critical section: the wait time is observed, an error of \<open>SetProcessing\<close> logged.\<close>

definition begin_job :: "storage \<Rightarrow> job \<Rightarrow> world \<Rightarrow> world" where
  "begin_job S job w =
     (let w1 = w\<lparr>metrics := (metrics w)\<lparr>JobWaitDuration :=
            observe_label (QueueType job) (clock w - CreatedAt job) (JobWaitDuration (metrics w))\<rparr>\<rparr>
      in snd (Router_SetProcessing S (ID job) w1))"

definition add_busy :: "int \<Rightarrow> world \<Rightarrow> world" where
  "add_busy n w = w\<lparr>metrics := (metrics w)\<lparr>WorkersBusy := WorkersBusy (metrics w) + n\<rparr>\<rparr>"

text \<open>What the processor's call comes to: it returns nil or an error, or it panics.\<close>

datatype outcome = Returned "error option" | Panicked string

text \<open>\<open>processJob\<close> after the processor returned: requeue, nack or ack; their errors are logged.\<close>

definition settle_job :: "storage \<Rightarrow> error option \<Rightarrow> ctx \<Rightarrow> string \<Rightarrow> router \<Rightarrow> world \<Rightarrow> unit result \<times> router \<times> world" where
  "settle_job S err ctxErr jobID r w =
     (case err of
        Some _ \<Rightarrow> if ctxErr = CtxCanceled then Router_Requeue S jobID r w else Router_Nack S jobID r w
      | None \<Rightarrow> (case Router_Ack S jobID w of (x, w1) \<Rightarrow> (x, r, w1)))"

type_synonym shared = "pool \<times> router \<times> world"

text \<open>
  The whole of \<open>processJob\<close> for a goroutine; \<open>process\<close> stands for the call of the processor together
  with whatever the other goroutines do to the shared state while it runs. The result tells whether
  the goroutine panics. The deferred calls run on every path.
\<close>

definition processJob ::
  "storage \<Rightarrow> (nat \<Rightarrow> job \<Rightarrow> shared \<Rightarrow> outcome \<times> shared) \<Rightarrow> nat \<Rightarrow> job \<Rightarrow> shared \<Rightarrow> unit result \<times> shared" where
  "processJob S process workerID job s =
     (case s of (p, r, w) \<Rightarrow>
      let w1 = begin_job S job w in
      case register workerID job p of (c, p1) \<Rightarrow>
      let w2 = add_busy 1 w1; start = clock w2 in
      case process c job (p1, r, w2) of
        (Panicked v, p3, r3, w3) \<Rightarrow>
          (Inl (Panic v), unregister workerID c p3, r3, add_busy (- 1) w3)
      | (Returned err, p3, r3, w3) \<Rightarrow>
          let w4 = w3\<lparr>metrics := (metrics w3)\<lparr>JobProcessingDuration :=
                observe_label (QueueType job) (clock w3 - start) (JobProcessingDuration (metrics w3))\<rparr>\<rparr>
          in (case settle_job S err (contexts p3 ! c) (ID job) r3 w4 of
                (x, r5, w5) \<Rightarrow>
                  ((case x of Inl e \<Rightarrow> if is_panic e then Inl e else Inr () | Inr _ \<Rightarrow> Inr ()),
                   unregister workerID c p3, r5, add_busy (- 1) w5)))"

text \<open>\<open>time.Sleep\<close> with a duration that is not positive returns at once; a panic skips the pause.\<close>

definition cool_down :: "unit result \<Rightarrow> pool \<Rightarrow> world \<Rightarrow> world" where
  "cool_down x p w = (case x of Inl _ \<Rightarrow> w | Inr _ \<Rightarrow> w\<lparr>clock := clock w + max 0 (cooldown p)\<rparr>)"

text \<open>
  One round of the loop of \<open>worker\<close> that does not find \<open>done\<close> closed: the preempt slot first, then the
  queue; after a job the cooldown. \<open>None\<close>: the wait for a job does not return.
\<close>

definition worker_round ::
  "storage \<Rightarrow> (nat \<Rightarrow> job \<Rightarrow> shared \<Rightarrow> outcome \<times> shared) \<Rightarrow> (nat \<Rightarrow> arms) \<Rightarrow> nat \<Rightarrow> shared \<Rightarrow> (unit result \<times> shared) option" where
  "worker_round S process arms workerID s =
     (case s of (p, r, w) \<Rightarrow>
      case take_slot workerID p of
        (Some preemptJob, p1) \<Rightarrow>
          (case processJob S process workerID preemptJob (p1, r, w) of
             (x, p2, r2, w2) \<Rightarrow> Some (x, p2, r2, cool_down x p2 w2))
      | (None, p1) \<Rightarrow>
          (case Router_DequeueOrWait (100 * Millisecond) arms r w of
             None \<Rightarrow> None
           | Some (None, r1, w1) \<Rightarrow> Some (Inr (), p1, r1, w1)
           | Some (Some job, r1, w1) \<Rightarrow>
               (case processJob S process workerID job (p1, r1, w1) of
                  (x, p2, r2, w2) \<Rightarrow> Some (x, p2, r2, cool_down x p2 w2))))"

section \<open>Facts on preemption\<close>

lemma length_cancel_ctx [simp]: "length (cancel_ctx c cs) = length cs"
  by (simp add: cancel_ctx_def)

text \<open>A refused call changes nothing; an accepted one cancels one context and fills one empty slot.\<close>

lemma preempt_from_cases:
  "preempt_from job i p w = (x, p', w') \<Longrightarrow>
   (case x of
      Inl e \<Rightarrow> p' = p
    | Inr v \<Rightarrow> \<exists>k ws c cur. i \<le> k \<and> k < length (workers p) \<and> workers p ! k = Some ws \<and> cancel ws = Some c \<and>
        currentJob ws = Some cur \<and> Priority cur = PriorityNormal \<and> ID cur = v \<and> preemptQueue p ! k = None \<and>
        p' = p\<lparr>contexts := cancel_ctx c (contexts p), preemptQueue := (preemptQueue p)[k := Some job]\<rparr>)"
proof (induction job i p w rule: preempt_from.induct)
  case (1 job i p w)
  show ?case
  proof (cases "i < length (workers p) \<and> (\<exists>ws. workers p ! i = Some ws \<and> \<not> preemptable ws (preemptQueue p ! i))")
    case True
    then obtain ws where ws: "i < length (workers p)" "workers p ! i = Some ws" "\<not> preemptable ws (preemptQueue p ! i)"
      by blast
    then have "preempt_from job i p w = preempt_from job (Suc i) p w" by (subst preempt_from.simps) simp
    with "1.prems" have "preempt_from job (Suc i) p w = (x, p', w')" by simp
    from "1.IH" [OF ws this] show ?thesis by (cases x) (fastforce dest: Suc_leD)+
  next
    case False
    with "1.prems" show ?thesis
      by (subst (asm) preempt_from.simps)
        (auto simp: preemptable_def Let_def split: if_splits option.splits sum.splits)
  qed
qed

lemma Preempt_frame:
  assumes "Preempt job p w = (x, p', w')"
  shows "workers p' = workers p" "worker_count p' = worker_count p" "workerDied p' = workerDied p"
    "aliveWorkers p' = aliveWorkers p" "pool_wg p' = pool_wg p" "pool_done p' = pool_done p"
    "length (contexts p') = length (contexts p)" "length (preemptQueue p') = length (preemptQueue p)"
  using preempt_from_cases [of job 0 p w x p' w'] assms by (auto simp: Preempt_def split: sum.splits)

text \<open>\<open>Preempt\<close> fails only when no worker can be preempted, provided no worker is nil or half registered.\<close>

lemma preempt_from_no_panic:
  "\<forall>k < length (workers p). \<exists>ws. workers p ! k = Some ws \<and> (currentJob ws = None \<longleftrightarrow> cancel ws = None) \<Longrightarrow>
   fst (preempt_from job i p w) \<noteq> Inl (Panic v)"
proof (induction job i p w rule: preempt_from.induct)
  case (1 job i p w)
  show ?case
  proof (cases "i < length (workers p)")
    case True
    from "1.prems" [rule_format, OF True] obtain ws where
      ws: "workers p ! i = Some ws" "currentJob ws = None \<longleftrightarrow> cancel ws = None" by (elim exE conjE)
    show ?thesis
    proof (cases "preemptable ws (preemptQueue p ! i)")
      case True
      with ws(2) obtain cur c where "currentJob ws = Some cur" "cancel ws = Some c"
        by (auto simp: preemptable_def split: option.splits)
      with ws(1) True \<open>i < length (workers p)\<close> show ?thesis
        by (simp add: preempt_from.simps [of job i p w] Let_def)
    next
      case False
      with "1.IH" [OF True ws(1) False "1.prems"] True ws(1) show ?thesis by (subst preempt_from.simps) simp
    qed
  next
    case False
    then show ?thesis by (subst preempt_from.simps) simp
  qed
qed

lemma preempt_from_error:
  "fst (preempt_from job i p w) = Inl e \<Longrightarrow> e = Err ''no preemptable job found'' \<or> (\<exists>v. e = Panic v)"
proof (induction job i p w rule: preempt_from.induct)
  case (1 job i p w)
  from "1.prems" show ?case
    by (subst (asm) preempt_from.simps) (auto simp: Let_def split: if_splits option.splits dest: "1.IH")
qed

lemma preempt_from_none:
  assumes "fst (preempt_from job i p w) = Inl (Err e)"
  shows "\<forall>k. i \<le> k \<and> k < length (workers p) \<longrightarrow>
    (\<exists>ws. workers p ! k = Some ws \<and> \<not> preemptable ws (preemptQueue p ! k))"
  using assms
proof (induction job i p w rule: preempt_from.induct)
  case (1 job i p w)
  show ?case
  proof (cases "i < length (workers p)")
    case True
    with "1.prems" obtain ws where ws: "workers p ! i = Some ws" "\<not> preemptable ws (preemptQueue p ! i)"
      by (subst (asm) preempt_from.simps) (auto simp: Let_def split: option.splits if_splits)
    then have "preempt_from job i p w = preempt_from job (Suc i) p w" using True by (subst preempt_from.simps) simp
    with "1.IH" [OF True ws] "1.prems" ws show ?thesis by (metis Suc_leI le_neq_implies_less)
  qed auto
qed

lemma start_loop_eq:
  "i + n \<le> length (workers p) \<Longrightarrow>
   workers (start_loop n i p) = take i (workers p) @ replicate n (Some idle) @ drop (i + n) (workers p) \<and>
   pool_wg (start_loop n i p) = pool_wg p + int n"
proof (induction n i p rule: start_loop.induct)
  case (2 n i p)
  let ?p = "p\<lparr>workers := (workers p)[i := Some idle], preemptSignal := (preemptSignal p)[i := True],
    pool_wg := pool_wg p + 1\<rparr>"
  have "take (Suc i) ((workers p)[i := Some idle]) = take i (workers p) @ [Some idle]"
    using "2.prems" by (simp add: take_Suc_conv_app_nth)
  with "2.IH" "2.prems" show ?case by simp
qed simp

lemma start_loop_frame [simp]:
  "worker_count (start_loop n i p) = worker_count p" "preemptQueue (start_loop n i p) = preemptQueue p"
  "workerDied (start_loop n i p) = workerDied p" "aliveWorkers (start_loop n i p) = aliveWorkers p"
  "contexts (start_loop n i p) = contexts p" "pool_done (start_loop n i p) = pool_done p"
  by (induction n i p rule: start_loop.induct) simp_all

lemma preempt_from_world: "preempt_from job i p w = (x, p', w') \<Longrightarrow> table w' = table w \<and> clock w' = clock w \<and> healthy w' = healthy w"
proof (induction job i p w rule: preempt_from.induct)
  case (1 job i p w)
  from "1.prems" show ?case
    by (subst (asm) preempt_from.simps) (auto simp: Let_def split: if_splits option.splits dest: "1.IH")
qed

lemma Preempt_world: "Preempt job p w = (x, p', w') \<Longrightarrow> table w' = table w \<and> clock w' = clock w \<and> healthy w' = healthy w"
  unfolding Preempt_def by (rule preempt_from_world)

end
