(* ===== verification/Worker_Protocol.thy ===== *)
theory Worker_Protocol
  imports Worker_Pool
begin

text \<open>
  The goroutines of \<open>internal/worker/pool.go\<close> interleaved: one worker goroutine per worker ID with its
  program counter, the supervisor, and calls of \<open>Preempt\<close> and \<open>Stop\<close> from outside. Each critical
  section is one step. What the queue and the processor return is left open, so that every behaviour
  of the real queues is included; only what touches the pool is tracked.

  The goroutine that has sent its death signal still has to run its remaining deferred calls:
  \<open>before_wg\<close> counts those before \<open>wg.Done\<close>, \<open>before_alive\<close> those before \<open>aliveWorkers.Add(-1)\<close>.
  \<open>accepted\<close>, \<open>taken\<close> and \<open>dropped\<close> are history: the jobs \<open>Preempt\<close> accepted, the jobs workers took
  from their slots, and the death signals that found the channel full.
\<close>

section \<open>Steps\<close>

datatype wpc =
    Gone | Starting | Loop | Fetch | Polling | Picked job | Marked job
  | Running job nat | Finished job nat | Cleanup job nat bool | Exiting

datatype sup_pc = SupWait | SupBackoff nat | SupExited

record sys =
  pl :: pool
  pcs :: "nat \<Rightarrow> wpc"
  sup :: sup_pc
  before_wg :: nat
  before_alive :: nat
  accepted :: "job list"
  taken :: "job list"
  dropped :: nat

definition goto :: "nat \<Rightarrow> wpc \<Rightarrow> sys \<Rightarrow> sys" where
  "goto i c s = s\<lparr>pcs := (pcs s)(i := c)\<rparr>"

text \<open>The deferred non-blocking send of the death signal; the channel's capacity is the worker count.\<close>

definition death_signal :: "nat \<Rightarrow> sys \<Rightarrow> sys" where
  "death_signal i s =
     (if length (workerDied (pl s)) < worker_count (pl s)
      then s\<lparr>pl := (pl s)\<lparr>workerDied := workerDied (pl s) @ [i]\<rparr>\<rparr>
      else s\<lparr>dropped := Suc (dropped s)\<rparr>)"

inductive pool_step :: "sys \<Rightarrow> sys \<Rightarrow> bool" where
  start: "pcs s i = Starting \<Longrightarrow>
    pool_step s (goto i Loop (s\<lparr>pl := (pl s)\<lparr>aliveWorkers := aliveWorkers (pl s) + 1\<rparr>\<rparr>))"
| loop_done: "pcs s i = Loop \<Longrightarrow> pool_done (pl s) \<Longrightarrow> pool_step s (goto i Exiting s)"
| loop_go: "pcs s i = Loop \<Longrightarrow> \<not> pool_done (pl s) \<Longrightarrow> pool_step s (goto i Fetch s)"
| fetch_none: "pcs s i = Fetch \<Longrightarrow> take_slot i (pl s) = (None, p) \<Longrightarrow> pool_step s (goto i Polling (s\<lparr>pl := p\<rparr>))"
| fetch_some: "pcs s i = Fetch \<Longrightarrow> take_slot i (pl s) = (Some j, p) \<Longrightarrow>
    pool_step s (goto i (Picked j) (s\<lparr>pl := p, taken := j # taken s\<rparr>))"
| poll_none: "pcs s i = Polling \<Longrightarrow> pool_step s (goto i Loop s)"
| poll_some: "pcs s i = Polling \<Longrightarrow> pool_step s (goto i (Picked j) s)"
| poll_panic: "pcs s i = Polling \<Longrightarrow> pool_step s (goto i Exiting s)"
| mark: "pcs s i = Picked j \<Longrightarrow> pool_step s (goto i (Marked j) s)"
| register: "pcs s i = Marked j \<Longrightarrow> register i j (pl s) = (c, p) \<Longrightarrow>
    pool_step s (goto i (Running j c) (s\<lparr>pl := p\<rparr>))"
| expire: "c < length (contexts (pl s)) \<Longrightarrow> contexts (pl s) ! c = CtxLive \<Longrightarrow>
    pool_step s (s\<lparr>pl := (pl s)\<lparr>contexts := (contexts (pl s))[c := CtxDeadline]\<rparr>\<rparr>)"
| returns: "pcs s i = Running j c \<Longrightarrow> pool_step s (goto i (Finished j c) s)"
| panics: "pcs s i = Running j c \<Longrightarrow> pool_step s (goto i (Cleanup j c True) s)"
| settle: "pcs s i = Finished j c \<Longrightarrow> pool_step s (goto i (Cleanup j c panicking) s)"
| cleanup: "pcs s i = Cleanup j c panicking \<Longrightarrow>
    pool_step s (goto i (if panicking then Exiting else Loop) (s\<lparr>pl := unregister i c (pl s)\<rparr>))"
| die: "pcs s i = Exiting \<Longrightarrow>
    pool_step s (goto i Gone ((death_signal i s)\<lparr>before_wg := Suc (before_wg s)\<rparr>))"
| wg_done: "before_wg s = Suc n \<Longrightarrow> pool_step s (s\<lparr>before_wg := n, before_alive := Suc (before_alive s),
    pl := (pl s)\<lparr>pool_wg := pool_wg (pl s) - 1\<rparr>\<rparr>)"
| alive_dec: "before_alive s = Suc n \<Longrightarrow> pool_step s (s\<lparr>before_alive := n,
    pl := (pl s)\<lparr>aliveWorkers := aliveWorkers (pl s) - 1\<rparr>\<rparr>)"
| sup_take: "sup s = SupWait \<Longrightarrow> workerDied (pl s) = i # is \<Longrightarrow>
    pool_step s (s\<lparr>sup := SupBackoff i, pl := (pl s)\<lparr>workerDied := is\<rparr>\<rparr>)"
| sup_exit: "sup s \<noteq> SupExited \<Longrightarrow> pool_done (pl s) \<Longrightarrow> pool_step s (s\<lparr>sup := SupExited\<rparr>)"
| sup_restart: "sup s = SupBackoff i \<Longrightarrow>
    pool_step s (goto i Starting (s\<lparr>sup := SupWait, pl := (pl s)\<lparr>pool_wg := pool_wg (pl s) + 1\<rparr>\<rparr>))"
| stop: "Stop (pl s) = (Inr (), p) \<Longrightarrow> pool_step s (s\<lparr>pl := p\<rparr>)"
| preempt_ok: "Preempt j (pl s) w = (Inr i, p, w') \<Longrightarrow> pool_step s (s\<lparr>pl := p, accepted := j # accepted s\<rparr>)"
| preempt_err: "Preempt j (pl s) w = (Inl e, p, w') \<Longrightarrow> pool_step s (s\<lparr>pl := p\<rparr>)"

definition started :: "pool \<Rightarrow> sys" where
  "started p = \<lparr>pl = Start p, pcs = (\<lambda>i. if i < worker_count p then Starting else Gone), sup = SupWait,
     before_wg = 0, before_alive = 0, accepted = [], taken = [], dropped = 0\<rparr>"

inductive pool_reach :: "sys \<Rightarrow> bool" where
  init: "NewPool n t c = Inr p \<Longrightarrow> pool_reach (started p)"
| step: "pool_reach s \<Longrightarrow> pool_step s s' \<Longrightarrow> pool_reach s'"

section \<open>Registration\<close>

text \<open>The job and the context a goroutine has registered, as its program counter tells.\<close>

fun registered :: "wpc \<Rightarrow> workerState" where
  "registered (Running j c) = \<lparr>currentJob = Some j, cancel = Some c\<rparr>"
| "registered (Finished j c) = \<lparr>currentJob = Some j, cancel = Some c\<rparr>"
| "registered (Cleanup j c b) = \<lparr>currentJob = Some j, cancel = Some c\<rparr>"
| "registered _ = idle"

definition reg_inv :: "sys \<Rightarrow> bool" where
  "reg_inv s \<longleftrightarrow> workers (pl s) = map (\<lambda>i. Some (registered (pcs s i))) [0..<worker_count (pl s)] \<and>
     length (preemptQueue (pl s)) = worker_count (pl s) \<and>
     (\<forall>i. worker_count (pl s) \<le> i \<longrightarrow> pcs s i = Gone) \<and>
     (\<forall>i c. cancel (registered (pcs s i)) = Some c \<longrightarrow> c < length (contexts (pl s)))"

lemma list_update_upt: "(map f [0..<n])[i := v] = map (f(i := v)) [0..<n]"
  by (rule nth_equalityI) (auto simp: nth_list_update)

lemma goto_simps [simp]:
  "pl (goto i c s) = pl s" "pcs (goto i c s) = (pcs s)(i := c)" "sup (goto i c s) = sup s"
  "before_wg (goto i c s) = before_wg s" "before_alive (goto i c s) = before_alive s"
  "accepted (goto i c s) = accepted s" "taken (goto i c s) = taken s" "dropped (goto i c s) = dropped s"
  by (simp_all add: goto_def)

lemma death_signal_simps [simp]:
  "pcs (death_signal i s) = pcs s" "sup (death_signal i s) = sup s" "workers (pl (death_signal i s)) = workers (pl s)"
  "before_wg (death_signal i s) = before_wg s" "before_alive (death_signal i s) = before_alive s"
  "accepted (death_signal i s) = accepted s" "taken (death_signal i s) = taken s"
  "worker_count (pl (death_signal i s)) = worker_count (pl s)" "contexts (pl (death_signal i s)) = contexts (pl s)"
  "preemptQueue (pl (death_signal i s)) = preemptQueue (pl s)" "pool_done (pl (death_signal i s)) = pool_done (pl s)"
  "aliveWorkers (pl (death_signal i s)) = aliveWorkers (pl s)" "pool_wg (pl (death_signal i s)) = pool_wg (pl s)"
  by (simp_all add: death_signal_def)

text \<open>The invariant looks at a few fields only, and at what each goroutine has registered.\<close>

lemma reg_inv_pl [simp]:
  "workers p = workers (pl s) \<Longrightarrow> worker_count p = worker_count (pl s) \<Longrightarrow>
   length (preemptQueue p) = length (preemptQueue (pl s)) \<Longrightarrow> length (contexts p) = length (contexts (pl s)) \<Longrightarrow>
   reg_inv (s\<lparr>pl := p\<rparr>) = reg_inv s"
  by (simp add: reg_inv_def)

lemma reg_inv_other [simp]:
  "reg_inv (s\<lparr>sup := x\<rparr>) = reg_inv s" "reg_inv (s\<lparr>before_wg := n\<rparr>) = reg_inv s"
  "reg_inv (s\<lparr>before_alive := n\<rparr>) = reg_inv s" "reg_inv (s\<lparr>accepted := js\<rparr>) = reg_inv s"
  "reg_inv (s\<lparr>taken := js\<rparr>) = reg_inv s" "reg_inv (s\<lparr>dropped := n\<rparr>) = reg_inv s"
  "reg_inv (death_signal i s) = reg_inv s"
  by (simp_all add: reg_inv_def)

lemma reg_inv_index: "reg_inv s \<Longrightarrow> pcs s i \<noteq> Gone \<Longrightarrow> i < worker_count (pl s)"
  by (auto simp: reg_inv_def not_le [symmetric])

lemma reg_inv_goto:
  assumes "reg_inv s" "i < worker_count (pl s)" "registered c = registered (pcs s i)"
  shows "reg_inv (goto i c s)"
proof -
  have "registered (((pcs s)(i := c)) k) = registered (pcs s k)" for k using assms(3) by simp
  with assms(1,2) show ?thesis by (auto simp: reg_inv_def)
qed

lemma reg_inv_started: "NewPool n t c = Inr p \<Longrightarrow> reg_inv (started p)"
proof -
  assume n: "NewPool n t c = Inr p"
  then have "workers p = replicate (worker_count p) None" "length (preemptQueue p) = worker_count p"
    by (auto simp: NewPool_def split: if_splits)
  with start_loop_eq [of 0 "worker_count p" p] show ?thesis
    by (auto simp: started_def reg_inv_def Start_def intro!: nth_equalityI)
qed

lemma reg_inv_step:
  assumes "pool_step s s'" "reg_inv s" "\<And>i. sup s = SupBackoff i \<Longrightarrow> i < worker_count (pl s) \<and> pcs s i = Gone"
  shows "reg_inv s'"
  using assms(1)
proof (cases rule: pool_step.cases)
  case (register i j c p)
  then have "i < worker_count (pl s)" using reg_inv_index [OF assms(2), of i] by simp
  with register assms(2) show ?thesis
    by (auto simp: reg_inv_def Worker_Pool.register_def Let_def list_update_upt less_SucI)
next
  case (cleanup i j c panicking)
  with reg_inv_index [OF assms(2), of i] assms(2) show ?thesis
    by (auto simp: reg_inv_def unregister_def list_update_upt)
next
  case (sup_restart i)
  with assms(3) [of i] assms(2) show ?thesis by (auto intro!: reg_inv_goto)
next
  case (preempt_ok j w i p w')
  with Preempt_frame [of j "pl s" w "Inr i" p w'] assms(2) show ?thesis by simp
next
  case (preempt_err j w e p w')
  with Preempt_frame [of j "pl s" w "Inl e" p w'] assms(2) show ?thesis by simp
qed (use assms(2) reg_inv_index [OF assms(2)] in \<open>auto simp: take_slot_def Stop_def split: if_splits intro!: reg_inv_goto\<close>)

section \<open>No worker is lost\<close>

text \<open>
  A worker ID without a goroutine is waiting in \<open>workerDied\<close> or held by the supervisor, unless the
  pool was stopped; it is in one of these places only.
\<close>

definition life_inv :: "sys \<Rightarrow> bool" where
  "life_inv s \<longleftrightarrow> distinct (workerDied (pl s)) \<and>
     (\<forall>i \<in> set (workerDied (pl s)). i < worker_count (pl s) \<and> pcs s i = Gone) \<and>
     (\<forall>i. sup s = SupBackoff i \<longrightarrow> i < worker_count (pl s) \<and> pcs s i = Gone \<and> i \<notin> set (workerDied (pl s))) \<and>
     (\<forall>i < worker_count (pl s). pcs s i = Gone \<longrightarrow>
        i \<in> set (workerDied (pl s)) \<or> sup s = SupBackoff i \<or> pool_done (pl s)) \<and>
     (sup s = SupExited \<longrightarrow> pool_done (pl s)) \<and> dropped s = 0 \<and>
     (\<forall>i. worker_count (pl s) \<le> i \<longrightarrow> pcs s i = Gone)"

lemma death_room:
  assumes "distinct ds" "\<forall>k \<in> set ds. k < n \<and> k \<noteq> i" "i < n"
  shows "length ds < n"
proof -
  have "length ds = card (set ds)" using assms(1) by (simp add: distinct_card)
  also have "\<dots> \<le> card ({..<n} - {i})" by (rule card_mono) (use assms(2) in auto)
  also have "\<dots> < n" using assms(3) by simp
  finally show ?thesis .
qed

lemma life_inv_goto:
  assumes "life_inv s" "pcs s i \<noteq> Gone" "c \<noteq> Gone"
  shows "life_inv (goto i c s)"
proof -
  have "i < worker_count (pl s)" using assms(1,2) by (auto simp: life_inv_def not_le [symmetric])
  with assms show ?thesis by (auto simp: life_inv_def)
qed

lemma life_inv_pl [simp]:
  "workerDied p = workerDied (pl s) \<Longrightarrow> worker_count p = worker_count (pl s) \<Longrightarrow> pool_done p = pool_done (pl s) \<Longrightarrow>
   life_inv (s\<lparr>pl := p\<rparr>) = life_inv s"
  by (simp add: life_inv_def)

lemma life_inv_other [simp]:
  "life_inv (s\<lparr>before_wg := n\<rparr>) = life_inv s" "life_inv (s\<lparr>before_alive := n\<rparr>) = life_inv s"
  "life_inv (s\<lparr>accepted := js\<rparr>) = life_inv s" "life_inv (s\<lparr>taken := js\<rparr>) = life_inv s"
  by (simp_all add: life_inv_def)

lemma life_inv_started: "NewPool n t c = Inr p \<Longrightarrow> life_inv (started p)"
  by (auto simp: NewPool_def started_def life_inv_def Start_def split: if_splits)

lemma life_inv_die:
  assumes "life_inv s" "pcs s i = Exiting"
  shows "life_inv (goto i Gone (death_signal i s))"
proof -
  have i: "i < worker_count (pl s)" "i \<notin> set (workerDied (pl s))"
    using assms by (auto simp: life_inv_def not_le [symmetric])
  have "length (workerDied (pl s)) < worker_count (pl s)"
    by (rule death_room [of _ _ i]) (use assms i in \<open>auto simp: life_inv_def\<close>)
  then have "death_signal i s = s\<lparr>pl := (pl s)\<lparr>workerDied := workerDied (pl s) @ [i]\<rparr>\<rparr>"
    by (simp add: death_signal_def)
  with assms i show ?thesis by (auto simp: life_inv_def)
qed

lemma life_inv_step:
  assumes "pool_step s s'" "life_inv s"
  shows "life_inv s'"
  using assms(1)
proof (cases rule: pool_step.cases)
  case (die i)
  have "life_inv (goto i Gone (death_signal i s)) = life_inv s'" by (simp add: die life_inv_def)
  with life_inv_die [OF assms(2)] die show ?thesis by simp
next
  case (sup_take i "is")
  with assms(2) show ?thesis by (auto simp: life_inv_def)
next
  case sup_exit
  with assms(2) show ?thesis by (auto simp: life_inv_def)
next
  case (sup_restart i)
  with assms(2) show ?thesis by (auto simp: life_inv_def)
next
  case (stop p)
  with assms(2) show ?thesis by (auto simp: life_inv_def Stop_def split: if_splits)
next
  case (preempt_ok j w i p w')
  with Preempt_frame [of j "pl s" w "Inr i" p w'] assms(2) show ?thesis by simp
next
  case (preempt_err j w e p w')
  with Preempt_frame [of j "pl s" w "Inl e" p w'] assms(2) show ?thesis by simp
qed (use assms(2) in \<open>auto simp: take_slot_def Worker_Pool.register_def unregister_def Let_def intro!: life_inv_goto\<close>)

section \<open>The two counters\<close>

definition live_sum :: "(wpc \<Rightarrow> bool) \<Rightarrow> sys \<Rightarrow> int" where
  "live_sum P s = (\<Sum>i < worker_count (pl s). if P (pcs s i) then 1 else 0)"

definition count_inv :: "sys \<Rightarrow> bool" where
  "count_inv s \<longleftrightarrow> pool_wg (pl s) = live_sum (\<lambda>c. c \<noteq> Gone) s + int (before_wg s) \<and>
     aliveWorkers (pl s) = live_sum (\<lambda>c. c \<noteq> Gone \<and> c \<noteq> Starting) s + int (before_wg s) + int (before_alive s)"

lemma live_sum_goto:
  assumes "i < worker_count (pl s)"
  shows "live_sum P (goto i c s) = live_sum P s - (if P (pcs s i) then 1 else 0) + (if P c then 1 else 0)"
proof -
  let ?f = "\<lambda>s k. if P (pcs s k) then 1 else (0 :: int)" and ?A = "{..<worker_count (pl s)} - {i}"
  have "sum (?f (goto i c s)) {..<worker_count (pl s)} = ?f (goto i c s) i + sum (?f (goto i c s)) ?A"
    using assms by (intro sum.remove) auto
  also have "sum (?f (goto i c s)) ?A = sum (?f s) ?A" by (rule sum.cong) auto
  also have "sum (?f s) ?A = sum (?f s) {..<worker_count (pl s)} - ?f s i"
    using assms by (subst sum.remove [of "{..<worker_count (pl s)}" i]) auto
  finally show ?thesis by (simp add: live_sum_def)
qed

lemma live_sum_nonneg [simp]: "0 \<le> live_sum P s"
  by (simp add: live_sum_def sum_nonneg)

lemma live_sum_pl [simp]:
  "worker_count p = worker_count (pl s) \<Longrightarrow> live_sum P (s\<lparr>pl := p\<rparr>) = live_sum P s"
  "live_sum P (s\<lparr>sup := x\<rparr>) = live_sum P s" "live_sum P (s\<lparr>before_wg := n\<rparr>) = live_sum P s"
  "live_sum P (s\<lparr>before_alive := n\<rparr>) = live_sum P s" "live_sum P (s\<lparr>accepted := js\<rparr>) = live_sum P s"
  "live_sum P (s\<lparr>taken := js\<rparr>) = live_sum P s" "live_sum P (death_signal i s) = live_sum P s"
  by (simp_all add: live_sum_def)

lemma count_inv_started: "NewPool n t c = Inr p \<Longrightarrow> count_inv (started p)"
proof -
  assume n: "NewPool n t c = Inr p"
  then have "length (workers p) = worker_count p" "pool_wg p = 0" "aliveWorkers p = 0"
    by (auto simp: NewPool_def split: if_splits)
  with start_loop_eq [of 0 "worker_count p" p] show ?thesis
    by (simp add: started_def count_inv_def Start_def live_sum_def)
qed

lemma count_inv_step:
  assumes "pool_step s s'" "count_inv s" "life_inv s"
  shows "count_inv s'"
proof -
  have i: "i < worker_count (pl s)" if "pcs s i \<noteq> Gone" for i
    using assms(3) that by (auto simp: life_inv_def not_le [symmetric])
  show ?thesis
    using assms(1)
  proof (cases rule: pool_step.cases)
    case (sup_restart i)
    with assms(2,3) show ?thesis by (auto simp: count_inv_def life_inv_def live_sum_goto)
  next
    case (preempt_ok j w i p w')
    with Preempt_frame [of j "pl s" w "Inr i" p w'] assms(2) show ?thesis by (simp add: count_inv_def)
  next
    case (preempt_err j w e p w')
    with Preempt_frame [of j "pl s" w "Inl e" p w'] assms(2) show ?thesis by (simp add: count_inv_def)
  qed (use assms(2) i in \<open>auto simp: take_slot_def Worker_Pool.register_def unregister_def Let_def Stop_def
        count_inv_def live_sum_goto split: if_splits\<close>)
qed

section \<open>The preempt slots\<close>

definition slot_jobs :: "job option list \<Rightarrow> job multiset" where
  "slot_jobs q = sum_list (map (\<lambda>x. case x of None \<Rightarrow> {#} | Some j \<Rightarrow> {#j#}) q)"

lemma slot_jobs_update:
  "i < length q \<Longrightarrow> slot_jobs (q[i := x]) + (case q ! i of None \<Rightarrow> {#} | Some j \<Rightarrow> {#j#}) =
     slot_jobs q + (case x of None \<Rightarrow> {#} | Some j \<Rightarrow> {#j#})"
proof (induction q arbitrary: i)
  case (Cons y q)
  then show ?case by (cases i) (auto simp: slot_jobs_def ac_simps)
qed simp

definition slot_inv :: "sys \<Rightarrow> bool" where
  "slot_inv s \<longleftrightarrow> mset (accepted s) = mset (taken s) + slot_jobs (preemptQueue (pl s))"

lemma slot_jobs_replicate [simp]: "slot_jobs (replicate n None) = {#}"
  by (induction n) (simp_all add: slot_jobs_def)

lemma slot_inv_started: "NewPool n t c = Inr p \<Longrightarrow> slot_inv (started p)"
  by (auto simp: NewPool_def started_def slot_inv_def Start_def split: if_splits)

lemma slot_inv_step:
  assumes "pool_step s s'" "slot_inv s" "reg_inv s"
  shows "slot_inv s'"
  using assms(1)
proof (cases rule: pool_step.cases)
  case (fetch_none i p)
  then have "i < length (preemptQueue (pl s))" using assms(3) reg_inv_index [of s i] by (simp add: reg_inv_def)
  from slot_jobs_update [OF this, of None] fetch_none assms(2) show ?thesis
    by (auto simp: slot_inv_def take_slot_def)
next
  case (fetch_some i j p)
  then have "i < length (preemptQueue (pl s))" using assms(3) reg_inv_index [of s i] by (simp add: reg_inv_def)
  from slot_jobs_update [OF this, of None] fetch_some assms(2) show ?thesis
    by (auto simp: slot_inv_def take_slot_def)
next
  case (preempt_ok j w v p w')
  from preempt_from_cases [of j 0 "pl s" w "Inr v" p w'] preempt_ok obtain k c where
    k: "k < length (workers (pl s))" "preemptQueue (pl s) ! k = None"
    "p = (pl s)\<lparr>contexts := cancel_ctx c (contexts (pl s)), preemptQueue := (preemptQueue (pl s))[k := Some j]\<rparr>"
    by (auto simp: Preempt_def)
  then have "k < length (preemptQueue (pl s))" using assms(3) by (simp add: reg_inv_def)
  from slot_jobs_update [OF this, of "Some j"] k(2,3) preempt_ok assms(2) show ?thesis by (auto simp: slot_inv_def)
next
  case (preempt_err j w e p w')
  with preempt_from_cases [of j 0 "pl s" w "Inl e" p w'] assms(2) show ?thesis by (auto simp: Preempt_def slot_inv_def)
qed (use assms(2) in \<open>auto simp: slot_inv_def Worker_Pool.register_def unregister_def Let_def Stop_def death_signal_def
      split: if_splits\<close>)

definition pool_inv :: "sys \<Rightarrow> bool" where
  "pool_inv s \<longleftrightarrow> reg_inv s \<and> life_inv s \<and> count_inv s \<and> slot_inv s"

lemma pool_reach_inv: "pool_reach s \<Longrightarrow> pool_inv s"
proof (induction rule: pool_reach.induct)
  case (init n t c p)
  then show ?case
    by (simp add: pool_inv_def reg_inv_started life_inv_started count_inv_started slot_inv_started)
next
  case (step s s')
  then have "\<And>i. sup s = SupBackoff i \<Longrightarrow> i < worker_count (pl s) \<and> pcs s i = Gone"
    by (simp add: pool_inv_def life_inv_def)
  with step reg_inv_step life_inv_step count_inv_step slot_inv_step show ?case unfolding pool_inv_def by blast
qed

section \<open>Preemption in reachable states\<close>

lemma Preempt_no_panic:
  assumes "pool_reach s"
  shows "fst (Preempt job (pl s) w) \<noteq> Inl (Panic v)"
proof -
  have ws: "workers (pl s) = map (\<lambda>i. Some (registered (pcs s i))) [0..<worker_count (pl s)]"
    using pool_reach_inv [OF assms] by (simp add: pool_inv_def reg_inv_def)
  have "currentJob (registered c) = None \<longleftrightarrow> cancel (registered c) = None" for c by (cases c) simp_all
  then show ?thesis
    unfolding Preempt_def by (intro preempt_from_no_panic) (simp add: ws)
qed

lemma Preempt_slot:
  assumes "pool_reach s" "Preempt job (pl s) w = (Inr v, p, w')"
  shows "slot_jobs (preemptQueue p) = add_mset job (slot_jobs (preemptQueue (pl s)))"
proof -
  from preempt_from_cases [of job 0 "pl s" w "Inr v" p w'] assms(2) obtain k c where
    k: "k < length (workers (pl s))" "preemptQueue (pl s) ! k = None"
    "p = (pl s)\<lparr>contexts := cancel_ctx c (contexts (pl s)), preemptQueue := (preemptQueue (pl s))[k := Some job]\<rparr>"
    by (auto simp: Preempt_def)
  then have "k < length (preemptQueue (pl s))"
    using pool_reach_inv [OF assms(1)] by (simp add: pool_inv_def reg_inv_def)
  from slot_jobs_update [OF this, of "Some job"] k(2,3) show ?thesis by simp
qed

end
