(* ===== verification/Pool_Properties.thy ===== *)
theory Pool_Properties
  imports Worker_Protocol Router_Properties
begin

text \<open>
  The properties of the worker pool: what a worker makes of a job, and what holds in every
  interleaving of workers, supervisor, preemption and shutdown.
\<close>

section \<open>Interleavings\<close>

text \<open>
  C12. Preemption is sound. In every state the pool can reach, \<open>Preempt\<close> does not panic. If it succeeds,
  the job it names is a running job of normal priority whose worker has an empty slot; that job's
  context is cancelled and the slot holds the urgent job. If it fails, no worker is running a job of
  normal priority with an empty slot, and nothing changes.
\<close>

theorem preempt_sound:
  assumes "pool_reach s"
  shows "case Preempt job (pl s) w of
      (Inl e, p, w') \<Rightarrow> e = Err ''no preemptable job found'' \<and> p = pl s \<and>
        (\<forall>i < worker_count (pl s). \<forall>cur. currentJob (registered (pcs s i)) = Some cur \<longrightarrow>
           Priority cur = PriorityNormal \<longrightarrow> preemptQueue (pl s) ! i \<noteq> None)
    | (Inr v, p, w') \<Rightarrow> \<exists>i c cur. i < worker_count (pl s) \<and>
        registered (pcs s i) = \<lparr>currentJob = Some cur, cancel = Some c\<rparr> \<and> ID cur = v \<and>
        Priority cur = PriorityNormal \<and> preemptQueue (pl s) ! i = None \<and>
        p = (pl s)\<lparr>contexts := cancel_ctx c (contexts (pl s)), preemptQueue := (preemptQueue (pl s))[i := Some job]\<rparr>"
proof -
  have inv: "workers (pl s) = map (\<lambda>i. Some (registered (pcs s i))) [0..<worker_count (pl s)]"
    using pool_reach_inv [OF assms] by (simp add: pool_inv_def reg_inv_def)
  then have at: "workers (pl s) ! i = Some (registered (pcs s i))" if "i < worker_count (pl s)" for i using that by simp
  have len: "length (workers (pl s)) = worker_count (pl s)" by (simp add: inv)
  obtain x p w' where P: "preempt_from job 0 (pl s) w = (x, p, w')" by (metis surj_pair)
  show ?thesis
  proof (cases x)
    case (Inl e)
    have "fst (preempt_from job 0 (pl s) w) \<noteq> Inl (Panic v)" for v
      using Preempt_no_panic [OF assms, of job w v] by (simp add: Preempt_def)
    with P Inl have e: "e = Err ''no preemptable job found''" using preempt_from_error [of job 0 "pl s" w] by auto
    with P Inl have "fst (preempt_from job 0 (pl s) w) = Inl (Err ''no preemptable job found'')" by simp
    from preempt_from_none [OF this] have n: "\<not> preemptable (registered (pcs s i)) (preemptQueue (pl s) ! i)"
      if "i < worker_count (pl s)" for i using that at len by fastforce
    have "preemptQueue (pl s) ! i \<noteq> None"
      if "i < worker_count (pl s)" "currentJob (registered (pcs s i)) = Some cur" "Priority cur = PriorityNormal" for i cur
      using n [OF that(1)] that(2,3) by (simp add: preemptable_def)
    with P Inl e preempt_from_cases [OF P] show ?thesis by (auto simp: Preempt_def)
  next
    case (Inr v)
    with preempt_from_cases [OF P] obtain k ws c cur where k: "k < worker_count (pl s)" "workers (pl s) ! k = Some ws"
      "cancel ws = Some c" "currentJob ws = Some cur" "Priority cur = PriorityNormal" "ID cur = v"
      "preemptQueue (pl s) ! k = None"
      "p = (pl s)\<lparr>contexts := cancel_ctx c (contexts (pl s)), preemptQueue := (preemptQueue (pl s))[k := Some job]\<rparr>"
      using len by auto
    from k(1,2) at [of k] have "registered (pcs s k) = \<lparr>currentJob = Some cur, cancel = Some c\<rparr>" using k(3,4) by simp
    with k(1,5-8) P Inr show ?thesis
      by (simp add: Preempt_def) (intro exI [of _ k] exI [of _ c] exI [of _ cur] conjI; simp)
  qed
qed

text \<open>A short run: one worker picks a job and starts to process it.\<close>

definition sample_pool :: pool where
  "sample_pool = \<lparr>worker_count = 1, timeout = 30, cooldown = 0, pool_done = False, workers = [None],
     preemptQueue = [None], preemptSignal = [False], workerDied = [], aliveWorkers = 0, pool_wg = 0, contexts = []\<rparr>"

lemma sample_pool_new: "NewPool 1 30 0 = Inr sample_pool"
  by (simp add: NewPool_def sample_pool_def)

lemma sample_running:
  "\<exists>s. pool_reach s \<and> pcs s 0 = Running sample_pending 0 \<and> preemptQueue (pl s) = [None] \<and>
     worker_count (pl s) = 1 \<and> \<not> pool_done (pl s) \<and> accepted s = []"
proof -
  define s0 where "s0 = started sample_pool"
  define s1 where "s1 = goto 0 Loop (s0\<lparr>pl := (pl s0)\<lparr>aliveWorkers := aliveWorkers (pl s0) + 1\<rparr>\<rparr>)"
  define s2 where "s2 = goto 0 Fetch s1"
  define s3 where "s3 = goto 0 Polling (s2\<lparr>pl := snd (take_slot 0 (pl s2))\<rparr>)"
  define s4 where "s4 = goto 0 (Picked sample_pending) s3"
  define s5 where "s5 = goto 0 (Marked sample_pending) s4"
  define s6 where "s6 = goto 0 (Running sample_pending 0) (s5\<lparr>pl := snd (register 0 sample_pending (pl s5))\<rparr>)"
  have p: "worker_count (pl s0) = 1" "preemptQueue (pl s0) = [None]" "contexts (pl s0) = []" "\<not> pool_done (pl s0)"
    "pcs s0 0 = Starting" "accepted s0 = []"
    by (simp_all add: s0_def started_def Start_def sample_pool_def)
  have r0: "pool_reach s0" unfolding s0_def by (rule pool_reach.init [OF sample_pool_new])
  have r1: "pool_reach s1" unfolding s1_def by (rule pool_reach.step [OF r0 pool_step.start]) (rule p(5))
  have r2: "pool_reach s2" unfolding s2_def
    by (rule pool_reach.step [OF r1 pool_step.loop_go]) (simp_all add: s1_def p)
  have r3: "pool_reach s3" unfolding s3_def
    by (rule pool_reach.step [OF r2 pool_step.fetch_none]) (simp_all add: s1_def s2_def p take_slot_def)
  have r4: "pool_reach s4" unfolding s4_def
    by (rule pool_reach.step [OF r3 pool_step.poll_some]) (simp add: s3_def)
  have r5: "pool_reach s5" unfolding s5_def by (rule pool_reach.step [OF r4 pool_step.mark]) (simp add: s4_def)
  have c: "contexts (pl s5) = []" by (simp add: s1_def s2_def s3_def s4_def s5_def take_slot_def p)
  have r6: "pool_reach s6" unfolding s6_def
    by (rule pool_reach.step [OF r5 pool_step.register]) (simp_all add: Worker_Pool.register_def Let_def c, simp add: s5_def)
  have "pcs s6 0 = Running sample_pending 0" "preemptQueue (pl s6) = [None]" "worker_count (pl s6) = 1" "\<not> pool_done (pl s6)"
    "accepted s6 = []"
    by (simp_all add: s1_def s2_def s3_def s4_def s5_def s6_def take_slot_def Worker_Pool.register_def Let_def p)
  with r6 show ?thesis by blast
qed

theorem preempt_sound_witness:
  "\<exists>s p w'. pool_reach s \<and> Preempt sample_processing (pl s) empty_world = (Inr ''a'', p, w') \<and>
     preemptQueue p ! 0 = Some sample_processing"
proof -
  from sample_running obtain s where s: "pool_reach s" "pcs s 0 = Running sample_pending 0" "preemptQueue (pl s) = [None]"
    "worker_count (pl s) = 1" by blast
  obtain x p w' where P: "Preempt sample_processing (pl s) empty_world = (x, p, w')" by (metis surj_pair)
  have "Priority sample_pending = PriorityNormal" by (simp add: sample_pending_def PriorityNormal_def)
  with preempt_sound [OF s(1), of sample_processing empty_world] P s show ?thesis
    by (auto split: sum.splits intro!: exI [of _ s])
qed

text \<open>
  C13. No worker is lost. While the pool is not stopped, each worker ID has a running goroutine, or its
  death signal is waiting for the supervisor, or the supervisor is about to restart it; no death
  signal ever finds the channel full; and no worker ID is due for two restarts.
\<close>

theorem workers_never_lost:
  assumes "pool_reach s" "i < worker_count (pl s)" "\<not> pool_done (pl s)"
  shows "dropped s = 0 \<and> distinct (workerDied (pl s)) \<and>
    (if pcs s i \<noteq> Gone then i \<notin> set (workerDied (pl s)) \<and> sup s \<noteq> SupBackoff i
     else (i \<in> set (workerDied (pl s))) \<noteq> (sup s = SupBackoff i))"
  using pool_reach_inv [OF assms(1)] assms(2,3) by (auto simp: pool_inv_def life_inv_def)

theorem workers_never_lost_witness:
  "\<exists>s. pool_reach s \<and> pcs s 0 \<noteq> Gone \<and> dropped s = 0 \<and> 0 \<notin> set (workerDied (pl s))"
proof -
  from sample_running obtain s where s: "pool_reach s" "pcs s 0 = Running sample_pending 0"
    "worker_count (pl s) = 1" "\<not> pool_done (pl s)" by blast
  with workers_never_lost [OF s(1), of 0] show ?thesis by auto
qed

text \<open>
  C26. The two counters tell the truth. The wait group counts the goroutines that have been launched and
  have not run \<open>wg.Done\<close>, so that it is never negative and \<open>Wait\<close> returns exactly when every worker
  goroutine is past it; the number \<open>AliveWorkers\<close> reports is never negative, and at most the worker
  count plus the goroutines that are in their last deferred calls.
\<close>

theorem pool_counters:
  assumes "pool_reach s"
  shows "0 \<le> pool_wg (pl s) \<and> 0 \<le> AliveWorkers (pl s) \<and>
    (Wait_returns (pl s) \<longleftrightarrow> before_wg s = 0 \<and> (\<forall>i < worker_count (pl s). pcs s i = Gone)) \<and>
    AliveWorkers (pl s) \<le> ExpectedWorkers (pl s) + int (before_wg s) + int (before_alive s)"
proof -
  have c: "pool_wg (pl s) = live_sum (\<lambda>c. c \<noteq> Gone) s + int (before_wg s)"
    "aliveWorkers (pl s) = live_sum (\<lambda>c. c \<noteq> Gone \<and> c \<noteq> Starting) s + int (before_wg s) + int (before_alive s)"
    using pool_reach_inv [OF assms] by (simp_all add: pool_inv_def count_inv_def)
  have "live_sum (\<lambda>c. c \<noteq> Gone) s = 0 \<longleftrightarrow> (\<forall>i < worker_count (pl s). pcs s i = Gone)"
    unfolding live_sum_def by (subst sum_nonneg_eq_0_iff) (auto split: if_splits)
  moreover have "live_sum P s \<le> int (worker_count (pl s))" for P
    using sum_bounded_above [of "{..<worker_count (pl s)}" "\<lambda>i. if P (pcs s i) then 1 else 0" "1 :: int"]
    by (simp add: live_sum_def)
  moreover have "live_sum (\<lambda>c. c \<noteq> Gone) s + int (before_wg s) = 0 \<longleftrightarrow>
      live_sum (\<lambda>c. c \<noteq> Gone) s = 0 \<and> before_wg s = 0"
    using live_sum_nonneg [of "\<lambda>c. c \<noteq> Gone" s] by linarith
  ultimately show ?thesis
    using c live_sum_nonneg [of _ s] by (auto simp: AliveWorkers_def ExpectedWorkers_def Wait_returns_def)
qed

theorem pool_counters_witness:
  "\<exists>s. pool_reach s \<and> 0 \<le> AliveWorkers (pl s) \<and> \<not> Wait_returns (pl s)"
proof -
  from sample_running obtain s where s: "pool_reach s" "pcs s 0 = Running sample_pending 0"
    "worker_count (pl s) = 1" by blast
  with pool_counters [OF s(1)] show ?thesis by auto
qed

text \<open>
  C24. No urgent job is lost or handed out twice. The jobs \<open>Preempt\<close> accepted are the jobs workers took
  from their slots together with the jobs still in a slot, counted with multiplicity.
\<close>

theorem preempted_slots_account:
  assumes "pool_reach s"
  shows "mset (accepted s) = mset (taken s) + slot_jobs (preemptQueue (pl s))"
  using pool_reach_inv [OF assms] by (simp add: pool_inv_def slot_inv_def)

theorem preempted_slots_account_witness:
  "\<exists>s. pool_reach s \<and> accepted s = [sample_processing] \<and>
     mset (taken s) + slot_jobs (preemptQueue (pl s)) = {#sample_processing#}"
proof -
  from sample_running obtain s where s: "pool_reach s" "pcs s 0 = Running sample_pending 0" "preemptQueue (pl s) = [None]"
    "worker_count (pl s) = 1" "accepted s = []" by blast
  have ws: "workers (pl s) = [Some \<lparr>currentJob = Some sample_pending, cancel = Some 0\<rparr>]"
    using pool_reach_inv [OF s(1)] s(2,4) by (simp add: pool_inv_def reg_inv_def)
  have "Priority sample_pending = PriorityNormal" by (simp add: sample_pending_def PriorityNormal_def)
  with ws s(3) have "\<exists>p w'. Preempt sample_processing (pl s) empty_world = (Inr ''a'', p, w')"
    by (simp add: Preempt_def preempt_from.simps [of _ 0] preemptable_def Let_def)
  then obtain p w' where "Preempt sample_processing (pl s) empty_world = (Inr ''a'', p, w')" by blast
  then have "pool_reach (s\<lparr>pl := p, accepted := sample_processing # accepted s\<rparr>)" (is "pool_reach ?s")
    by (rule pool_reach.step [OF s(1) pool_step.preempt_ok])
  with preempted_slots_account [of ?s] s(5) show ?thesis by (intro exI [of _ ?s]) simp
qed

section \<open>What a worker makes of a job\<close>

text \<open>
  The stored job after a worker is through with it, from the stored job \<open>j\<close> when the worker began (at
  time \<open>t0\<close>), the processor's error, the state of the context and the time \<open>t1\<close> of the verdict.
\<close>

definition settled :: "error option \<Rightarrow> ctx \<Rightarrow> int \<Rightarrow> int \<Rightarrow> job \<Rightarrow> job" where
  "settled err cx t0 t1 j =
     (let j1 = with_status t0 StatusProcessing '''' j in
      if err = None then with_status t1 StatusCompleted '''' j1
      else if cx = CtxCanceled then j1\<lparr>Status := StatusPending, UpdatedAt := t1\<rparr>
      else if MaxRetries j \<le> next_count j then after_failure t1 j1 else after_retry t1 j1)"

lemma begin_job_ok:
  assumes "healthy w" "store_inv b w" "store_view b w (ID job) = Some j"
  shows "healthy (begin_job (main_store b) job w)" "store_inv b (begin_job (main_store b) job w)"
    "store_view b (begin_job (main_store b) job w) =
       (store_view b w)(ID job \<mapsto> with_status (clock w) StatusProcessing '''' j)"
proof -
  let ?w = "w\<lparr>metrics := (metrics w)\<lparr>JobWaitDuration :=
    observe_label (QueueType job) (clock w - CreatedAt job) (JobWaitDuration (metrics w))\<rparr>\<rparr>"
  have w: "healthy ?w" "store_inv b ?w" "store_view b ?w = store_view b w"
    using assms cfg.inv_table [of ?w w b] cfg.view_table [of ?w w b] by simp_all
  from w(3) assms(3) have "store_view b ?w (ID job) = Some j" by simp
  from cfg.status_ok [OF w(1,2) this valid_status_consts(2), of "''''"] obtain w1 where
    w1: "UpdateJobStatus (main_store b) (ID job) StatusProcessing '''' ?w = (Inr (), w1)" "healthy w1" "store_inv b w1"
    "store_view b w1 = spec_status (clock ?w) (ID job) StatusProcessing '''' (store_view b ?w)" by blast
  then have "begin_job (main_store b) job w = w1"
    by (simp add: begin_job_def Router_SetProcessing_def MemoryQueue_SetProcessing_def set_processing_def Let_def)
  with w1 w(3) assms(3) show "healthy (begin_job (main_store b) job w)" "store_inv b (begin_job (main_store b) job w)"
    "store_view b (begin_job (main_store b) job w) =
       (store_view b w)(ID job \<mapsto> with_status (clock w) StatusProcessing '''' j)"
    by (simp_all add: spec_status_def)
qed

lemma settle_job_ok:
  assumes "healthy w" "store_inv b w" "store_view b w i = Some (with_status t0 StatusProcessing '''' j)"
    "store_fits b (next_count j)" "memq_room (FIFO r) 1"
  shows "\<exists>r' w'. settle_job (main_store b) err cx i r w = (Inr (), r', w') \<and>
    store_view b w' = (store_view b w)(i \<mapsto> settled err cx t0 (clock w) j)"
proof -
  let ?j = "with_status t0 StatusProcessing '''' j"
  have n: "next_count ?j = next_count j" "MaxRetries ?j = MaxRetries j" by (simp_all add: next_count_def with_status_def)
  consider "err = None" | "err \<noteq> None" "cx = CtxCanceled" | "err \<noteq> None" "cx \<noteq> CtxCanceled" by blast
  then show ?thesis
  proof cases
    case 1
    from cfg.status_ok [OF assms(1-3) valid_status_consts(3), of "''''"] 1 assms(3) show ?thesis
      by (auto simp: settle_job_def Router_Ack_def MemoryQueue_Ack_def ack_def spec_status_def settled_def)
  next
    case 2
    from mqs.requeue_ok_queue [OF assms(1-3,5)] 2 show ?thesis
      by (auto simp: settle_job_def Router_Requeue_def on_defs MemoryQueue_Requeue_def settled_def)
  next
    case 3
    obtain x q' w' where k: "nack_with MemoryQueue_Enqueue (main_store b) i (FIFO r) w = (x, q', w')" by (metis surj_pair)
    have f: "store_fits b (next_count ?j)" using assms(4) n by simp
    from mqs.nack_store(4) [OF assms(1-3) f k] n have v: "store_view b w' = (store_view b w)(i \<mapsto>
        (if MaxRetries j \<le> next_count j then after_failure (clock w) ?j else after_retry (clock w) ?j))" by simp
    have "x = Inr ()"
    proof (cases "MaxRetries j \<le> next_count j")
      case True
      with mqs.nack_exhausted [OF assms(1-3) _ f, of "FIFO r"] n k show ?thesis by auto
    next
      case False
      with mqs.nack_enqueues [OF assms(1-3) _ f assms(5)] n k show ?thesis by auto
    qed
    with k v 3 show ?thesis
      by (auto simp: settle_job_def Router_Nack_def on_defs MemoryQueue_Nack_def settled_def Let_def)
  qed
qed

lemma processJob_settled:
  assumes "healthy w" "store_inv b w" "store_view b w (ID job) = Some j" "store_fits b (next_count j)"
    and run: "process (length (contexts p)) job
      (snd (register i job p), r, add_busy 1 (begin_job (main_store b) job w)) = (Returned err, p3, r3, w3)"
    and env: "table w3 = table (begin_job (main_store b) job w)" "healthy w3" "memq_room (FIFO r3) 1"
  shows "\<exists>r' w'. processJob (main_store b) process i job (p, r, w) =
      (Inr (), unregister i (length (contexts p)) p3, r', w') \<and>
    store_view b w' = (store_view b w)(ID job \<mapsto> settled err (contexts p3 ! length (contexts p)) (clock w) (clock w3) j)"
proof -
  let ?c = "length (contexts p)" and ?w1 = "begin_job (main_store b) job w"
  define w4 where "w4 = w3\<lparr>metrics := (metrics w3)\<lparr>JobProcessingDuration :=
    observe_label (QueueType job) (clock w3 - clock ?w1) (JobProcessingDuration (metrics w3))\<rparr>\<rparr>"
  note b = begin_job_ok [OF assms(1-3)]
  have t: "table w4 = table ?w1" by (simp add: w4_def env)
  have w4: "healthy w4" "store_inv b w4" "store_view b w4 = store_view b ?w1" "clock w4 = clock w3"
    using env(2) b(2) cfg.inv_table [OF t, of b] cfg.view_table [OF t, of b] by (simp_all add: w4_def)
  have "store_view b w4 (ID job) = Some (with_status (clock w) StatusProcessing '''' j)" using w4(3) b(3) by simp
  from settle_job_ok [OF w4(1,2) this assms(4) env(3), of err "contexts p3 ! ?c"] obtain r' w5 where
    s: "settle_job (main_store b) err (contexts p3 ! ?c) (ID job) r3 w4 = (Inr (), r', w5)"
    "store_view b w5 = (store_view b w4)(ID job \<mapsto> settled err (contexts p3 ! ?c) (clock w) (clock w4) j)" by blast
  have reg: "register i job p = (?c, snd (register i job p))" by (simp add: register_def Let_def)
  have busy: "clock (add_busy 1 ?w1) = clock ?w1" by (simp add: add_busy_def)
  have "processJob (main_store b) process i job (p, r, w) = (Inr (), unregister i ?c p3, r', add_busy (- 1) w5)"
    unfolding processJob_def Let_def prod.case
    by (subst reg) (simp add: run busy s(1) flip: w4_def)
  moreover have "store_view b (add_busy (- 1) w5) = store_view b w5" by (rule cfg.view_table) (simp add: add_busy_def)
  ultimately show ?thesis using s(2) w4(3,4) b(3) by simp
qed

text \<open>
  C15. What a worker makes of a job. For any processor that returns and leaves the store alone: without
  an error the job is completed; with an error after a preemption it is pending again at no cost; with
  any other error, a missed deadline included, the attempt counts. The worker is registered as idle
  afterwards. The status the job had before is not looked at, so a second copy of a job that is
  already completed is processed again.
\<close>

theorem process_job_settles:
  assumes "healthy w" "store_inv b w" "store_view b w (ID job) = Some j" "store_fits b (next_count j)"
    and run: "process (length (contexts p)) job
      (snd (register i job p), r, add_busy 1 (begin_job (main_store b) job w)) = (Returned err, p3, r3, w3)"
    and env: "table w3 = table (begin_job (main_store b) job w)" "healthy w3" "memq_room (FIFO r3) 1"
  shows "\<exists>r' w'. processJob (main_store b) process i job (p, r, w) =
      (Inr (), unregister i (length (contexts p)) p3, r', w') \<and>
    store_view b w' = (store_view b w)(ID job \<mapsto> settled err (contexts p3 ! length (contexts p)) (clock w) (clock w3) j)"
  using assms(1-4) run env by (rule processJob_settled)

text \<open>A processor whose job is preempted after a while.\<close>

definition sample_process :: "nat \<Rightarrow> job \<Rightarrow> shared \<Rightarrow> outcome \<times> shared" where
  "sample_process c job s = (case s of (p, r, w) \<Rightarrow>
     (Returned (Some (Err ''stopped'')), p\<lparr>contexts := cancel_ctx c (contexts p)\<rparr>, r, w\<lparr>clock := clock w + 5\<rparr>))"

theorem process_job_settles_witness:
  "\<exists>r' w'. processJob (main_store ''sqlite'') sample_process 0 sample_processing (sample_pool, sample_router, sample_world) =
      (Inr (), unregister 0 0 (sample_pool\<lparr>workers := [Some \<lparr>currentJob = Some sample_processing, cancel = Some 0\<rparr>],
        contexts := [CtxCanceled]\<rparr>), r', w') \<and>
    map_option RetryCount (store_view ''sqlite'' w' ''b'') = Some 2 \<and>
    map_option Status (store_view ''sqlite'' w' ''b'') = Some ''pending''"
proof -
  let ?w = "begin_job (main_store ''sqlite'') sample_processing sample_world"
  let ?p = "sample_pool\<lparr>workers := [Some \<lparr>currentJob = Some sample_processing, cancel = Some 0\<rparr>], contexts := [CtxCanceled]\<rparr>"
  let ?w3 = "(add_busy 1 ?w)\<lparr>clock := clock ?w + 5\<rparr>"
  have c: "length (contexts sample_pool) = 0" by (simp add: sample_pool_def)
  have v: "store_view ''sqlite'' sample_world (ID sample_processing) = Some sample_processing" by (simp add: sample_view)
  note b = begin_job_ok [OF sample_healthy(2) sample_inv(2) v]
  have run: "sample_process (length (contexts sample_pool)) sample_processing
      (snd (register 0 sample_processing sample_pool), sample_router, add_busy 1 ?w) =
      (Returned (Some (Err ''stopped'')), ?p, sample_router, ?w3)"
    by (simp add: sample_process_def sample_pool_def register_def Let_def cancel_ctx_def add_busy_def)
  have "healthy ?w3" "table ?w3 = table ?w" using b(1) by (simp_all add: add_busy_def)
  moreover have "memq_room (FIFO sample_router) 1" by (simp add: sample_router_def NewRouter_def)
  moreover have "store_fits ''sqlite'' (next_count sample_processing)" by (simp add: store_fits_def)
  ultimately have "\<exists>r' w'. processJob (main_store ''sqlite'') sample_process 0 sample_processing (sample_pool, sample_router, sample_world) =
      (Inr (), unregister 0 (length (contexts sample_pool)) ?p, r', w') \<and>
    store_view ''sqlite'' w' = (store_view ''sqlite'' sample_world)(ID sample_processing \<mapsto>
      settled (Some (Err ''stopped'')) (contexts ?p ! length (contexts sample_pool)) (clock sample_world) (clock ?w3) sample_processing)"
    by (intro process_job_settles [where process = sample_process, OF sample_healthy(2) sample_inv(2) v _ run])
  then show ?thesis by (auto simp: c settled_def with_status_def StatusPending_def Let_def)
qed

end
