(* ===== verification/Queue_Close_Protocol.thy ===== *)
theory Queue_Close_Protocol
  imports Queue_Memory
begin

text \<open>
  \<open>MemoryQueue\<close> under concurrency (\<open>Enqueue\<close>, \<open>Close\<close> and the receive of \<open>Dequeue\<close> in
  \<open>internal/queue/memory_queue.go\<close>): any number of goroutines in \<open>Enqueue\<close> and in \<open>Close\<close>,
  interleaved at the boundaries of their critical sections. A send on a closed channel and a second
  close of a channel set \<open>panicked\<close>; the invariant shows that neither happens. \<open>sent\<close> and
  \<open>received\<close> are history.
\<close>

section \<open>Steps\<close>

text \<open>\<open>ESend\<close>: past the check, the wait group raised, in the \<open>select\<close>. \<open>ELeave\<close>: before \<open>wg.Done\<close>.\<close>

datatype epc = EIdle | ESend job | ELeave

datatype cpc = CIdle | CWait

record chanq =
  chan :: memq
  wg :: nat
  ecs :: "epc list"
  ccs :: "cpc list"
  sent :: "job list"
  received :: "job list"
  panicked :: bool

definition enter :: "nat \<Rightarrow> job \<Rightarrow> chanq \<Rightarrow> chanq" where
  "enter i j s = s\<lparr>wg := Suc (wg s), ecs := (ecs s)[i := ESend j]\<rparr>"

definition send :: "nat \<Rightarrow> job \<Rightarrow> chanq \<Rightarrow> chanq" where
  "send i j s =
     (if jobs_closed (chan s) then s\<lparr>panicked := True\<rparr>
      else s\<lparr>chan := (chan s)\<lparr>jobs := jobs (chan s) @ [j]\<rparr>, sent := sent s @ [j], ecs := (ecs s)[i := ELeave]\<rparr>)"

definition hand_over :: "nat \<Rightarrow> job \<Rightarrow> chanq \<Rightarrow> chanq" where
  "hand_over i j s =
     (if jobs_closed (chan s) then s\<lparr>panicked := True\<rparr>
      else s\<lparr>sent := sent s @ [j], received := received s @ [j], ecs := (ecs s)[i := ELeave]\<rparr>)"

definition begin_close :: "nat \<Rightarrow> chanq \<Rightarrow> chanq" where
  "begin_close i s =
     (if done_closed (chan s) then s\<lparr>panicked := True\<rparr>
      else s\<lparr>chan := (chan s)\<lparr>closed := True, done_closed := True\<rparr>, ccs := (ccs s)[i := CWait]\<rparr>)"

definition end_close :: "nat \<Rightarrow> chanq \<Rightarrow> chanq" where
  "end_close i s =
     (if jobs_closed (chan s) then s\<lparr>panicked := True\<rparr>
      else s\<lparr>chan := (chan s)\<lparr>jobs_closed := True\<rparr>, ccs := (ccs s)[i := CIdle]\<rparr>)"

inductive chan_step :: "chanq \<Rightarrow> chanq \<Rightarrow> bool" where
  enter: "i < length (ecs s) \<Longrightarrow> ecs s ! i = EIdle \<Longrightarrow> \<not> closed (chan s) \<Longrightarrow> chan_step s (enter i j s)"
| send: "i < length (ecs s) \<Longrightarrow> ecs s ! i = ESend j \<Longrightarrow>
    jobs_closed (chan s) \<or> length (jobs (chan s)) < cap (chan s) \<Longrightarrow> chan_step s (send i j s)"
| hand_over: "i < length (ecs s) \<Longrightarrow> ecs s ! i = ESend j \<Longrightarrow> jobs (chan s) = [] \<Longrightarrow> chan_step s (hand_over i j s)"
| closing: "i < length (ecs s) \<Longrightarrow> ecs s ! i = ESend j \<Longrightarrow> done_closed (chan s) \<Longrightarrow>
    chan_step s (s\<lparr>ecs := (ecs s)[i := ELeave]\<rparr>)"
| timed_out: "i < length (ecs s) \<Longrightarrow> ecs s ! i = ESend j \<Longrightarrow> chan_step s (s\<lparr>ecs := (ecs s)[i := ELeave]\<rparr>)"
| leave: "i < length (ecs s) \<Longrightarrow> ecs s ! i = ELeave \<Longrightarrow>
    chan_step s (s\<lparr>wg := wg s - 1, ecs := (ecs s)[i := EIdle]\<rparr>)"
| begin_close: "i < length (ccs s) \<Longrightarrow> ccs s ! i = CIdle \<Longrightarrow> \<not> closed (chan s) \<Longrightarrow> chan_step s (begin_close i s)"
| end_close: "i < length (ccs s) \<Longrightarrow> ccs s ! i = CWait \<Longrightarrow> wg s = 0 \<Longrightarrow> chan_step s (end_close i s)"
| receive: "MemoryQueue_Dequeue (chan s) = Some (Some j, q) \<Longrightarrow>
    chan_step s (s\<lparr>chan := q, received := received s @ [j]\<rparr>)"

definition chan_init :: "memq \<Rightarrow> nat \<Rightarrow> nat \<Rightarrow> chanq" where
  "chan_init q m n = \<lparr>chan = q, wg = 0, ecs = replicate m EIdle, ccs = replicate n CIdle, sent = [],
     received = [], panicked = False\<rparr>"

inductive chan_reach :: "chanq \<Rightarrow> bool" where
  init: "NewMemoryQueue k = Inr q \<Longrightarrow> chan_reach (chan_init q m n)"
| step: "chan_reach s \<Longrightarrow> chan_step s s' \<Longrightarrow> chan_reach s'"

section \<open>Invariant\<close>

definition busy :: "epc list \<Rightarrow> nat" where
  "busy es = length (filter (\<lambda>e. e \<noteq> EIdle) es)"

definition waiting_close :: "cpc list \<Rightarrow> nat" where
  "waiting_close cs = length (filter (\<lambda>c. c = CWait) cs)"

lemma length_filter_update:
  "i < length xs \<Longrightarrow> length (filter P (xs[i := x])) + (if P (xs ! i) then 1 else 0) =
     length (filter P xs) + (if P x then 1 else 0)"
proof (induction xs arbitrary: i)
  case (Cons y ys)
  then show ?case by (cases i) auto
qed simp

lemma busy_update: "i < length es \<Longrightarrow> busy (es[i := e]) + (if es ! i \<noteq> EIdle then 1 else 0) = busy es + (if e \<noteq> EIdle then 1 else 0)"
  unfolding busy_def by (rule length_filter_update)

lemma waiting_update:
  "i < length cs \<Longrightarrow> waiting_close (cs[i := c]) + (if cs ! i = CWait then 1 else 0) = waiting_close cs + (if c = CWait then 1 else 0)"
  unfolding waiting_close_def by (rule length_filter_update)

lemma busy_zero: "busy es = 0 \<Longrightarrow> i < length es \<Longrightarrow> es ! i = EIdle"
  by (auto simp: busy_def filter_empty_conv)

text \<open>
  The wait group counts the goroutines inside \<open>Enqueue\<close>; the closing goroutine is the only one that
  waits; once the channel is closed nobody is inside \<open>Enqueue\<close>.
\<close>

definition chan_inv :: "chanq \<Rightarrow> bool" where
  "chan_inv s \<longleftrightarrow> \<not> panicked s \<and> wg s = busy (ecs s) \<and> (done_closed (chan s) \<longleftrightarrow> closed (chan s)) \<and>
     waiting_close (ccs s) + (if jobs_closed (chan s) then 1 else 0) = (if closed (chan s) then 1 else 0) \<and>
     (jobs_closed (chan s) \<longrightarrow> busy (ecs s) = 0) \<and> sent s = received s @ jobs (chan s) \<and>
     length (jobs (chan s)) \<le> cap (chan s)"

lemma chan_inv_init: "NewMemoryQueue k = Inr q \<Longrightarrow> chan_inv (chan_init q m n)"
  by (auto simp: NewMemoryQueue_def chan_init_def chan_inv_def busy_def waiting_close_def split: if_splits)

lemma chan_inv_step:
  assumes "chan_step s s'" "chan_inv s"
  shows "chan_inv s'"
  using assms(1)
proof (cases rule: chan_step.cases)
  case (enter i j)
  with busy_update [of i "ecs s" "ESend j"] assms(2) show ?thesis
    by (auto simp: chan_inv_def enter_def split: if_splits)
next
  case (send i j)
  with busy_update [of i "ecs s" ELeave] busy_zero [of "ecs s" i] assms(2) show ?thesis
    by (auto simp: chan_inv_def send_def)
next
  case (hand_over i j)
  with busy_update [of i "ecs s" ELeave] busy_zero [of "ecs s" i] assms(2) show ?thesis
    by (auto simp: chan_inv_def hand_over_def)
next
  case (closing i j)
  with busy_update [of i "ecs s" ELeave] assms(2) show ?thesis by (auto simp: chan_inv_def)
next
  case (timed_out i j)
  with busy_update [of i "ecs s" ELeave] assms(2) show ?thesis by (auto simp: chan_inv_def)
next
  case (leave i)
  with busy_update [of i "ecs s" EIdle] assms(2) show ?thesis by (auto simp: chan_inv_def)
next
  case (begin_close i)
  with waiting_update [of i "ccs s" CWait] assms(2) show ?thesis by (auto simp: chan_inv_def begin_close_def split: if_splits)
next
  case (end_close i)
  with waiting_update [of i "ccs s" CIdle] assms(2) show ?thesis
    by (auto simp: chan_inv_def end_close_def split: if_splits)
next
  case (receive j q)
  with assms(2) show ?thesis by (auto simp: chan_inv_def MemoryQueue_Dequeue_def split: list.splits if_splits)
qed

lemma chan_reach_inv: "chan_reach s \<Longrightarrow> chan_inv s"
  by (induction rule: chan_reach.induct) (simp_all add: chan_inv_init chan_inv_step)

text \<open>
  C14. Closing a busy queue is safe. In every interleaving of \<open>Enqueue\<close>, \<open>Dequeue\<close> and \<open>Close\<close> calls no
  goroutine sends on the closed channel and no channel is closed twice; the jobs delivered and the
  jobs waiting are, in this order, exactly the jobs whose \<open>Enqueue\<close> succeeded; and the buffer keeps its
  bound.
\<close>

theorem close_protocol_safe:
  assumes "chan_reach s"
  shows "\<not> panicked s \<and> sent s = received s @ jobs (chan s) \<and> length (jobs (chan s)) \<le> cap (chan s) \<and>
    (jobs_closed (chan s) \<longrightarrow> (\<forall>i < length (ecs s). ecs s ! i = EIdle))"
  using chan_reach_inv [OF assms] busy_zero [of "ecs s"] by (auto simp: chan_inv_def)

fun to_do :: "epc \<Rightarrow> nat" where
  "to_do EIdle = 0"
| "to_do ELeave = 1"
| "to_do (ESend j) = 2"

definition inside :: "epc list \<Rightarrow> nat" where
  "inside es = sum_list (map to_do es)"

lemma inside_update: "i < length es \<Longrightarrow> inside (es[i := e]) + to_do (es ! i) = inside es + to_do e"
proof (induction es arbitrary: i)
  case (Cons y ys)
  then show ?case by (cases i) (auto simp: inside_def)
qed simp

text \<open>
  C32. Closing ends. While a \<open>Close\<close> waits, it can finish at once or some goroutine inside \<open>Enqueue\<close> can
  take a step of its own that brings the wait group closer to zero; no goroutine enters any more.
\<close>

theorem close_protocol_progress:
  assumes "chan_reach s" "i < length (ccs s)" "ccs s ! i = CWait"
  shows "(\<exists>s'. chan_step s s' \<and> jobs_closed (chan s') \<and> ccs s' = (ccs s)[i := CIdle]) \<or>
    (\<exists>s'. chan_step s s' \<and> inside (ecs s') < inside (ecs s) \<and> ccs s' = ccs s)"
proof -
  note inv = chan_reach_inv [OF assms(1)]
  have "waiting_close (ccs s) \<noteq> 0" using assms(2,3) nth_mem [OF assms(2)] by (auto simp: waiting_close_def filter_empty_conv)
  with inv have c: "done_closed (chan s)" "\<not> jobs_closed (chan s)" by (auto simp: chan_inv_def split: if_splits)
  show ?thesis
  proof (cases "wg s = 0")
    case True
    have "chan_step s (end_close i s)" by (rule chan_step.end_close [OF assms(2,3) True])
    then show ?thesis using c(2) by (intro disjI1 exI [of _ "end_close i s"]) (simp add: end_close_def)
  next
    case False
    then obtain k where k: "k < length (ecs s)" "ecs s ! k \<noteq> EIdle"
      using inv by (auto simp: chan_inv_def busy_def filter_empty_conv in_set_conv_nth)
    show ?thesis
    proof (cases "ecs s ! k")
      case (ESend j)
      from inside_update [OF k(1), of ELeave] ESend chan_step.closing [OF k(1) ESend c(1)] show ?thesis
        by (intro disjI2 exI [of _ "s\<lparr>ecs := (ecs s)[k := ELeave]\<rparr>"]) simp
    next
      case ELeave
      from inside_update [OF k(1), of EIdle] ELeave chan_step.leave [OF k(1) ELeave] show ?thesis
        by (intro disjI2 exI [of _ "s\<lparr>wg := wg s - 1, ecs := (ecs s)[k := EIdle]\<rparr>"]) simp
    qed (use k(2) in simp)
  qed
qed

definition sample_job :: job where
  "sample_job = \<lparr>ID = ''a'', JobType = ''email'', Payload = None, QueueType = ''fifo'', Priority = 1, Status = ''pending'',
     RetryCount = 0, MaxRetries = 3, CreatedAt = 0, UpdatedAt = 0, ProcessedAt = None, ErrorMessage = ''''\<rparr>"

text \<open>A run in which a \<open>Close\<close> begins while an \<open>Enqueue\<close> is under way.\<close>

definition sample_chan :: "job \<Rightarrow> chanq" where
  "sample_chan j = begin_close 0 (enter 0 j (chan_init
     \<lparr>jobs = [], cap = 1, closed = False, done_closed = False, jobs_closed = False\<rparr> 1 1))"

lemma sample_chan_reach: "chan_reach (sample_chan j)"
proof -
  let ?q = "\<lparr>jobs = [], cap = 1, closed = False, done_closed = False, jobs_closed = False\<rparr>"
  have "NewMemoryQueue 1 = Inr ?q" by (simp add: NewMemoryQueue_def)
  then have r: "chan_reach (chan_init ?q 1 1)" by (rule chan_reach.init)
  have "chan_reach (enter 0 j (chan_init ?q 1 1))"
    by (rule chan_reach.step [OF r chan_step.enter]) (simp_all add: chan_init_def)
  then show ?thesis unfolding sample_chan_def
    by (rule chan_reach.step [OF _ chan_step.begin_close]) (simp_all add: chan_init_def enter_def)
qed

theorem close_protocol_safe_witness:
  "\<exists>s. chan_reach s \<and> ecs s = [ELeave] \<and> ccs s = [CWait] \<and> \<not> panicked s \<and> sent s = received s @ jobs (chan s)"
proof -
  let ?j = "sample_job"
  have "chan_reach (send 0 ?j (sample_chan ?j))"
    by (rule chan_reach.step [OF sample_chan_reach chan_step.send])
      (simp_all add: sample_chan_def begin_close_def enter_def chan_init_def)
  from close_protocol_safe [OF this] this show ?thesis
    by (intro exI [of _ "send 0 ?j (sample_chan ?j)"])
      (simp add: sample_chan_def send_def begin_close_def enter_def chan_init_def)
qed

theorem close_protocol_progress_witness:
  "\<forall>j. \<exists>s'. chan_step (sample_chan j) s'"
proof
  fix j
  have "0 < length (ccs (sample_chan j))" "ccs (sample_chan j) ! 0 = CWait"
    by (simp_all add: sample_chan_def begin_close_def enter_def chan_init_def)
  from close_protocol_progress [OF sample_chan_reach this] show "\<exists>s'. chan_step (sample_chan j) s'" by blast
qed

end
