(* ===== verification/Queue_Signal_Protocol.thy ===== *)
theory Queue_Signal_Protocol
  imports Queue_Sorted
begin

text \<open>
  \<open>SortedQueue\<close> under concurrency (\<open>Enqueue\<close>, \<open>Dequeue\<close> and \<open>Close\<close> in
  \<open>internal/queue/sorted_que.go\<close>): producers insert under the mutex and then post to the one-slot
  channel \<open>signal\<close>; consumers that find nothing wait for it.
\<close>

section \<open>Steps\<close>

text \<open>
  A consumer is outside, about to look (holding the mutex for one step), or past the look: on its way
  to the \<open>select\<close> or waiting in it (\<open>CSelect\<close>), which are not told apart, so that a post to a consumer that
  waits is a post followed by \<open>wake\<close>. A producer is outside or has inserted and not yet posted. A
  signal that finds the slot taken is dropped.
\<close>

datatype consumer = COut | CLook | CSelect

datatype producer = POut | PPost

record sigq =
  sq :: sortedq
  consumers :: "consumer list"
  producers :: "producer list"
  delivered :: "job list"

inductive sig_step :: "sigq \<Rightarrow> sigq \<Rightarrow> bool" where
  insert: "i < length (producers s) \<Longrightarrow> producers s ! i = POut \<Longrightarrow> \<not> sclosed (sq s) \<Longrightarrow>
    sig_step s (s\<lparr>sq := insertLocked j (sq s), producers := (producers s)[i := PPost]\<rparr>)"
| post: "i < length (producers s) \<Longrightarrow> producers s ! i = PPost \<Longrightarrow>
    sig_step s (s\<lparr>sq := (sq s)\<lparr>signal := True\<rparr>, producers := (producers s)[i := POut]\<rparr>)"
| call: "i < length (consumers s) \<Longrightarrow> consumers s ! i = COut \<Longrightarrow>
    sig_step s (s\<lparr>consumers := (consumers s)[i := CLook]\<rparr>)"
| hit: "i < length (consumers s) \<Longrightarrow> consumers s ! i = CLook \<Longrightarrow> popLocked (sq s) = (Some j, q) \<Longrightarrow>
    sig_step s (s\<lparr>sq := q, consumers := (consumers s)[i := COut], delivered := delivered s @ [j]\<rparr>)"
| miss: "i < length (consumers s) \<Longrightarrow> consumers s ! i = CLook \<Longrightarrow> popLocked (sq s) = (None, q) \<Longrightarrow>
    sig_step s (s\<lparr>consumers := (consumers s)[i := (if sclosed (sq s) then COut else CSelect)]\<rparr>)"
| wake: "i < length (consumers s) \<Longrightarrow> consumers s ! i = CSelect \<Longrightarrow> signal (sq s) \<Longrightarrow>
    sig_step s (s\<lparr>sq := (sq s)\<lparr>signal := False\<rparr>, consumers := (consumers s)[i := CLook]\<rparr>)"
| closed: "i < length (consumers s) \<Longrightarrow> consumers s ! i = CSelect \<Longrightarrow> sdone_closed (sq s) \<Longrightarrow>
    sig_step s (s\<lparr>consumers := (consumers s)[i := COut]\<rparr>)"
| close: "sig_step s (s\<lparr>sq := snd (SortedQueue_Close (sq s))\<rparr>)"

definition sig_init :: "nat \<Rightarrow> nat \<Rightarrow> sigq" where
  "sig_init m n = \<lparr>sq = NewSortedQueue 0, consumers = replicate m COut, producers = replicate n POut, delivered = []\<rparr>"

inductive sig_reach :: "nat \<Rightarrow> nat \<Rightarrow> sigq \<Rightarrow> bool" for m n :: nat where
  init: "sig_reach m n (sig_init m n)"
| step: "sig_reach m n s \<Longrightarrow> sig_step s s' \<Longrightarrow> sig_reach m n s'"

section \<open>One consumer\<close>

definition no_lost_wakeup :: "sigq \<Rightarrow> bool" where
  "no_lost_wakeup s \<longleftrightarrow> length (consumers s) = 1 \<and>
     (sjobs (sq s) \<noteq> [] \<and> consumers s ! 0 = CSelect \<longrightarrow> signal (sq s) \<or> PPost \<in> set (producers s))"

lemma no_lost_wakeup_step:
  assumes "sig_step s s'" "no_lost_wakeup s"
  shows "no_lost_wakeup s'"
  using assms
proof (cases rule: sig_step.cases)
  case (insert i j)
  with assms(2) show ?thesis by (auto simp: no_lost_wakeup_def insertLocked_eq intro: set_update_memI)
next
  case (post i)
  with assms(2) show ?thesis by (simp add: no_lost_wakeup_def)
next
  case close
  with assms(2) show ?thesis by (simp add: no_lost_wakeup_def SortedQueue_Close_def)
qed (auto simp: no_lost_wakeup_def popLocked_def split: list.splits if_splits)

lemma sig_reach_one: "sig_reach 1 n s \<Longrightarrow> no_lost_wakeup s"
proof (induction rule: sig_reach.induct)
  case init
  show ?case by (simp add: sig_init_def no_lost_wakeup_def NewSortedQueue_def)
next
  case (step s s')
  show ?case by (rule no_lost_wakeup_step [OF step.hyps(2) step.IH])
qed

definition stuck :: "sigq \<Rightarrow> bool" where
  "stuck s \<longleftrightarrow> sjobs (sq s) \<noteq> [] \<and> CSelect \<in> set (consumers s) \<and> CLook \<notin> set (consumers s) \<and>
     \<not> signal (sq s) \<and> PPost \<notin> set (producers s) \<and> \<not> sclosed (sq s)"

lemma two_consumers_stuck: "\<exists>s. sig_reach 2 2 s \<and> stuck s \<and> length (delivered s) = 1"
proof -
  let ?j = "\<lparr>ID = ''a'', JobType = ''email'', Payload = None, QueueType = ''priority'', Priority = 1, Status = ''pending'',
    RetryCount = 0, MaxRetries = 3, CreatedAt = 0, UpdatedAt = 0, ProcessedAt = None, ErrorMessage = ''''\<rparr>"
  let ?q = "\<lambda>js b. \<lparr>sjobs = js, signal = b, sclosed = False, sdone_closed = False\<rparr>"
  let ?s = "\<lambda>js b cs ps ds. \<lparr>sq = ?q js b, consumers = cs, producers = ps, delivered = ds\<rparr>"
  note simps = insertLocked_eq insert_job_def goes_before_def popLocked_def
  have "sig_reach 2 2 (?s [] False [COut, COut] [POut, POut] [])"
    using sig_reach.init [of 2 2] by (simp add: sig_init_def NewSortedQueue_def numeral_2_eq_2)
  then have "sig_reach 2 2 (?s [] False [CLook, COut] [POut, POut] [])"
    by (rule sig_reach.step) (use sig_step.call [of 0 "?s [] False [COut, COut] [POut, POut] []"] in simp)
  then have "sig_reach 2 2 (?s [] False [CSelect, COut] [POut, POut] [])"
    by (rule sig_reach.step) (use sig_step.miss [of 0 "?s [] False [CLook, COut] [POut, POut] []"] in \<open>simp add: simps\<close>)
  then have "sig_reach 2 2 (?s [] False [CSelect, CLook] [POut, POut] [])"
    by (rule sig_reach.step) (use sig_step.call [of 1 "?s [] False [CSelect, COut] [POut, POut] []"] in simp)
  then have "sig_reach 2 2 (?s [] False [CSelect, CSelect] [POut, POut] [])"
    by (rule sig_reach.step) (use sig_step.miss [of 1 "?s [] False [CSelect, CLook] [POut, POut] []"] in \<open>simp add: simps\<close>)
  then have "sig_reach 2 2 (?s [?j] False [CSelect, CSelect] [PPost, POut] [])"
    by (rule sig_reach.step)
      (use sig_step.insert [of 0 "?s [] False [CSelect, CSelect] [POut, POut] []" ?j] in \<open>simp add: simps\<close>)
  then have "sig_reach 2 2 (?s [?j, ?j] False [CSelect, CSelect] [PPost, PPost] [])"
    by (rule sig_reach.step)
      (use sig_step.insert [of 1 "?s [?j] False [CSelect, CSelect] [PPost, POut] []" ?j] in \<open>simp add: simps\<close>)
  then have "sig_reach 2 2 (?s [?j, ?j] True [CSelect, CSelect] [POut, PPost] [])"
    by (rule sig_reach.step) (use sig_step.post [of 0 "?s [?j, ?j] False [CSelect, CSelect] [PPost, PPost] []"] in simp)
  then have "sig_reach 2 2 (?s [?j, ?j] True [CSelect, CSelect] [POut, POut] [])"
    by (rule sig_reach.step) (use sig_step.post [of 1 "?s [?j, ?j] True [CSelect, CSelect] [POut, PPost] []"] in simp)
  then have "sig_reach 2 2 (?s [?j, ?j] False [CLook, CSelect] [POut, POut] [])"
    by (rule sig_reach.step) (use sig_step.wake [of 0 "?s [?j, ?j] True [CSelect, CSelect] [POut, POut] []"] in simp)
  then have "sig_reach 2 2 (?s [?j] False [COut, CSelect] [POut, POut] [?j])"
    by (rule sig_reach.step)
      (use sig_step.hit [of 0 "?s [?j, ?j] False [CLook, CSelect] [POut, POut] []"] in \<open>simp add: simps\<close>)
  then show ?thesis
    by (intro exI [of _ "?s [?j] False [COut, CSelect] [POut, POut] [?j]"]) (simp add: stuck_def)
qed

text \<open>
  C39. Wake-ups of the priority queue, in both directions. A single consumer is never stuck: when a job
  is waiting and the consumer is in its \<open>select\<close>, the signal is posted or a producer is about to post
  it. Two consumers can be: when both have found the queue empty and two \<open>Enqueue\<close> calls post before
  either has entered its \<open>select\<close>, the second signal is dropped; one consumer then takes its job while the
  other waits in its \<open>select\<close> with the second job in the queue, no signal posted and no producer under
  way.
\<close>

theorem wakeups:
  "(\<forall>n s. sig_reach 1 n s \<longrightarrow> \<not> stuck s) \<and> (\<exists>s. sig_reach 2 2 s \<and> stuck s \<and> length (delivered s) = 1)"
proof -
  have "\<not> stuck s" if "sig_reach 1 n s" for n s
    using sig_reach_one [OF that] by (cases "consumers s") (auto simp: no_lost_wakeup_def stuck_def)
  then show ?thesis using two_consumers_stuck by blast
qed

theorem wakeups_witness: "\<not> stuck (sig_init 1 3)"
  using wakeups sig_reach.init [of 1 3] by blast

end
