(* ===== verification/Queue_Token_Protocol.thy ===== *)
theory Queue_Token_Protocol
  imports Queue_Router
begin

text \<open>
  The rate-limited queue under concurrency (\<open>internal/queue/rate_limited.go\<close> and the polls of
  \<open>internal/queue/router.go\<close>): workers that poll through the router, the refill goroutine, \<open>Enqueue\<close> and
  \<open>Close\<close>, interleaved at the boundaries of their critical sections. The look at \<open>AvailableTokens\<close>, the
  receive and the taking of the token are three steps, so workers can race for a token.
\<close>

section \<open>Steps\<close>

text \<open>
  A worker is outside, or it has seen a token and is about to receive (\<open>TSaw\<close>), or it has received a job
  and is in the loop that takes a token (\<open>THold\<close>). The refill goroutine waits in its \<open>select\<close>, has
  received from the ticker, or is gone. When the ticker has fired and \<open>stopRefill\<close> is closed, the
  \<open>select\<close> may pick either. \<open>entered\<close>, \<open>handed\<close> and \<open>refills\<close> are history: the jobs whose \<open>Enqueue\<close>
  succeeded, the jobs handed to the caller, the events of the ticker.
\<close>

datatype tpc = TOut | TSaw | THold job

datatype rpc = RSelect | RTick | RGone

record tokq =
  lq :: rlq
  takers :: "tpc list"
  refiller :: rpc
  entered :: "job list"
  handed :: "job list"
  refills :: nat

definition add_token :: "rlq \<Rightarrow> rlq" where
  "add_token q = (if tokens q < burst q then q\<lparr>tokens := tokens q + 1\<rparr> else q)"

inductive tok_step :: "tokq \<Rightarrow> tokq \<Rightarrow> bool" where
  put: "RateLimitedQueue_Enqueue j (lq s) w = (Inr (), q, w') \<Longrightarrow>
    tok_step s (s\<lparr>lq := q, entered := entered s @ [j]\<rparr>)"
| sees: "i < length (takers s) \<Longrightarrow> takers s ! i = TOut \<Longrightarrow> 0 < AvailableTokens (lq s) \<Longrightarrow>
    tok_step s (s\<lparr>takers := (takers s)[i := TSaw]\<rparr>)"
| receives: "i < length (takers s) \<Longrightarrow> takers s ! i = TSaw \<Longrightarrow>
    MemoryQueue_DequeueOrWait t 0 (inner (lq s)) w = (Some j, m, w') \<Longrightarrow>
    tok_step s (s\<lparr>lq := (lq s)\<lparr>inner := m\<rparr>, takers := (takers s)[i := THold j]\<rparr>)"
| misses: "i < length (takers s) \<Longrightarrow> takers s ! i = TSaw \<Longrightarrow>
    MemoryQueue_DequeueOrWait t 0 (inner (lq s)) w = (None, m, w') \<Longrightarrow>
    tok_step s (s\<lparr>lq := (lq s)\<lparr>inner := m\<rparr>, takers := (takers s)[i := TOut]\<rparr>)"
| takes: "i < length (takers s) \<Longrightarrow> takers s ! i = THold j \<Longrightarrow> take_token (lq s) = Some q \<Longrightarrow>
    tok_step s (s\<lparr>lq := q, takers := (takers s)[i := TOut], handed := handed s @ [j]\<rparr>)"
| sleeps: "i < length (takers s) \<Longrightarrow> takers s ! i = THold j \<Longrightarrow> take_token (lq s) = None \<Longrightarrow> tok_step s s"
| ticks: "refiller s = RSelect \<Longrightarrow> tok_step s (s\<lparr>refiller := RTick, refills := Suc (refills s)\<rparr>)"
| adds: "refiller s = RTick \<Longrightarrow> tok_step s (s\<lparr>lq := add_token (lq s), refiller := RSelect\<rparr>)"
| ends: "refiller s = RSelect \<Longrightarrow> stop_closed (lq s) \<Longrightarrow> tok_step s (s\<lparr>refiller := RGone\<rparr>)"
| closes: "RateLimitedQueue_Close (lq s) = (Inr (), q) \<Longrightarrow> tok_step s (s\<lparr>lq := q\<rparr>)"

abbreviation tok_run :: "tokq \<Rightarrow> tokq \<Rightarrow> bool" where
  "tok_run \<equiv> tok_step\<^sup>*\<^sup>*"

definition tok_init :: "rlq \<Rightarrow> nat \<Rightarrow> tokq" where
  "tok_init q n = \<lparr>lq = q, takers = replicate n TOut, refiller = RSelect, entered = [], handed = [], refills = 0\<rparr>"

text \<open>What \<open>n\<close> workers can do with a new queue of burst size \<open>b\<close>.\<close>

definition tok_reach :: "int \<Rightarrow> nat \<Rightarrow> tokq \<Rightarrow> bool" where
  "tok_reach b n s \<longleftrightarrow> (\<exists>sz rt q. NewRateLimitedQueue sz rt b = Inr q \<and> tok_run (tok_init q n) s)"

section \<open>The invariant\<close>

fun holds :: "tpc \<Rightarrow> job option" where
  "holds (THold j) = Some j"
| "holds _ = None"

definition held_jobs :: "tpc list \<Rightarrow> job multiset" where
  "held_jobs ts = mset (List.map_filter holds ts)"

definition inside_poll :: "tpc list \<Rightarrow> nat" where
  "inside_poll ts = sum_list (map (\<lambda>t. if t = TOut then 0 else 1) ts)"

definition tok_inv :: "int \<Rightarrow> nat \<Rightarrow> tokq \<Rightarrow> bool" where
  "tok_inv b n s \<longleftrightarrow> bucket_inv (lq s) \<and> burst (lq s) = b \<and> length (takers s) = n \<and>
     tokens (lq s) + int (length (handed s)) + (if refiller s = RTick then 1 else 0) \<le> b + int (refills s) \<and>
     mset (entered s) = mset (handed s) + held_jobs (takers s) + mset (jobs (inner (lq s))) \<and>
     (0 < n \<longrightarrow> int (inside_poll (takers s)) < tokens (lq s) + int n) \<and>
     (refiller s = RGone \<longrightarrow> stop_closed (lq s))"

lemma held_jobs_update:
  "i < length ts \<Longrightarrow> held_jobs (ts[i := t]) + (case holds (ts ! i) of None \<Rightarrow> {#} | Some j \<Rightarrow> {#j#}) =
     held_jobs ts + (case holds t of None \<Rightarrow> {#} | Some j \<Rightarrow> {#j#})"
proof (induction ts arbitrary: i)
  case (Cons y ts)
  then show ?case by (cases i) (auto simp: held_jobs_def List.map_filter_def split: option.splits)
qed simp

lemma inside_poll_update:
  "i < length ts \<Longrightarrow> inside_poll (ts[i := t]) + (if ts ! i = TOut then 0 else 1) =
     inside_poll ts + (if t = TOut then 0 else 1)"
proof (induction ts arbitrary: i)
  case (Cons y ts)
  then show ?case by (cases i) (simp_all add: inside_poll_def)
qed simp

lemma inside_poll_bound: "inside_poll ts \<le> length ts"
  by (induction ts) (simp_all add: inside_poll_def)

lemma tok_inv_init: "NewRateLimitedQueue sz rt b = Inr q \<Longrightarrow> 0 \<le> b \<Longrightarrow> tok_inv b n (tok_init q n)"
  using NewRateLimitedQueue_bucket [of sz rt b q]
  by (auto simp: tok_inv_def tok_init_def held_jobs_def inside_poll_def List.map_filter_def bucket_inv_def
      NewRateLimitedQueue_def NewMemoryQueue_def Let_def sum_list_replicate split: sum.splits if_splits)


lemma poll_inner:
  "MemoryQueue_DequeueOrWait t 0 m w = (oj, m', w') \<Longrightarrow>
   (case oj of None \<Rightarrow> m' = m | Some j \<Rightarrow> jobs m = j # jobs m' \<and> m' = m\<lparr>jobs := jobs m'\<rparr>)"
  by (auto simp: poll_memory split: list.splits if_splits)

lemma enqueue_limited:
  "RateLimitedQueue_Enqueue j q w = (Inr (), q', w') \<Longrightarrow>
   q' = q\<lparr>inner := (inner q)\<lparr>jobs := jobs (inner q) @ [j]\<rparr>\<rparr>"
  by (auto simp: RateLimitedQueue_Enqueue_def on_inner_def MemoryQueue_Enqueue_def split: if_splits)

lemma close_limited:
  "RateLimitedQueue_Close q = (Inr (), q') \<Longrightarrow>
   tokens q' = tokens q \<and> burst q' = burst q \<and> stop_closed q' \<and> jobs (inner q') = jobs (inner q)"
  by (auto simp: RateLimitedQueue_Close_def MemoryQueue_Close_def split: if_splits)

lemma tok_inv_step:
  assumes "tok_step s s'" "tok_inv b n s"
  shows "tok_inv b n s'"
  using assms(1)
proof (cases rule: tok_step.cases)
  case (put j w q w')
  from enqueue_limited [OF put(2)] put(1) assms(2) show ?thesis by (auto simp: tok_inv_def bucket_inv_def)
next
  case (sees i)
  with assms(2) held_jobs_update [of i "takers s" TSaw] inside_poll_update [of i "takers s" TSaw]
    inside_poll_bound [of "(takers s)[i := TSaw]"]
  show ?thesis by (auto simp: tok_inv_def AvailableTokens_def)
next
  case (receives i t w j m w')
  from poll_inner [OF receives(4)] have m: "jobs (inner (lq s)) = j # jobs m" by simp
  with receives assms(2) held_jobs_update [of i "takers s" "THold j"] inside_poll_update [of i "takers s" "THold j"]
  show ?thesis by (auto simp: tok_inv_def bucket_inv_def)
next
  case (misses i t w m w')
  from poll_inner [OF misses(4)] have m: "m = inner (lq s)" by simp
  with misses assms(2) held_jobs_update [of i "takers s" TOut] inside_poll_update [of i "takers s" TOut]
  show ?thesis by (auto simp: tok_inv_def bucket_inv_def)
next
  case (takes i j q)
  then have "q = (lq s)\<lparr>tokens := tokens (lq s) - 1\<rparr>" "0 < tokens (lq s)"
    by (auto simp: take_token_def split: if_splits)
  with takes assms(2) held_jobs_update [of i "takers s" TOut] inside_poll_update [of i "takers s" TOut]
  show ?thesis by (auto simp: tok_inv_def bucket_inv_def)
next
  case adds
  with assms(2) show ?thesis by (auto simp: tok_inv_def bucket_inv_def add_token_def)
next
  case (closes q)
  from close_limited [OF closes(2)] closes(1) assms(2) show ?thesis by (auto simp: tok_inv_def bucket_inv_def)
qed (use assms(2) in \<open>auto simp: tok_inv_def\<close>)

lemma tok_inv_run: "tok_run s s' \<Longrightarrow> tok_inv b n s \<Longrightarrow> tok_inv b n s'"
  by (induction rule: rtranclp_induct) (simp_all add: tok_inv_step)

lemma tok_reach_inv: "tok_reach b n s \<Longrightarrow> 0 \<le> b \<Longrightarrow> tok_inv b n s"
  by (auto simp: tok_reach_def intro: tok_inv_run tok_inv_init)

lemma tok_reach_step: "tok_reach b n s \<Longrightarrow> tok_step s s' \<Longrightarrow> tok_reach b n s'"
  unfolding tok_reach_def by (blast intro: rtranclp.rtrancl_into_rtrancl)

text \<open>
  C28. The rate limit under concurrency. Whatever the interleaving of workers, refills, \<open>Enqueue\<close> and
  \<open>Close\<close>: the tokens stay within the bucket; no more jobs are handed out than the burst size and the
  events of the ticker allow; each accepted job is handed out, held by one worker or in the channel,
  exactly once; and of \<open>n\<close> workers between their look and their token at most \<open>n - 1\<close> have no token
  to take.
\<close>

theorem token_protocol_safe:
  assumes "tok_reach b n s" "0 \<le> b"
  shows "0 \<le> AvailableTokens (lq s) \<and> AvailableTokens (lq s) \<le> b \<and>
    int (length (handed s)) + AvailableTokens (lq s) \<le> b + int (refills s) \<and>
    mset (entered s) = mset (handed s) + held_jobs (takers s) + mset (jobs (inner (lq s))) \<and>
    (0 < n \<longrightarrow> int (inside_poll (takers s)) - AvailableTokens (lq s) \<le> int n - 1)"
  using tok_reach_inv [OF assms] by (auto simp: tok_inv_def bucket_inv_def AvailableTokens_def split: if_splits)


text \<open>A short run: the bucket holds one token, two jobs are waiting, and both workers see the token.\<close>

definition tok_job :: "string \<Rightarrow> job" where
  "tok_job i = \<lparr>ID = i, JobType = ''email'', Payload = None, QueueType = ''ratelimited'', Priority = 1,
     Status = ''pending'', RetryCount = 0, MaxRetries = 3, CreatedAt = 0, UpdatedAt = 0, ProcessedAt = None,
     ErrorMessage = ''''\<rparr>"

definition tok_queue :: "job list \<Rightarrow> int \<Rightarrow> bool \<Rightarrow> rlq" where
  "tok_queue js k c = \<lparr>inner = \<lparr>jobs = js, cap = 2, closed = c, done_closed = c, jobs_closed = c\<rparr>, rate = 60,
     burst = 1, tokens = k, stop_closed = c\<rparr>"

definition tok_at :: "rlq \<Rightarrow> tpc list \<Rightarrow> rpc \<Rightarrow> job list \<Rightarrow> tokq" where
  "tok_at q ts rp hs = \<lparr>lq = q, takers = ts, refiller = rp, entered = [tok_job ''a'', tok_job ''b''], handed = hs,
     refills = 0\<rparr>"

lemma tok_queue_new: "NewRateLimitedQueue 2 60 1 = Inr (tok_queue [] 1 False)"
  by (simp add: NewRateLimitedQueue_def NewMemoryQueue_def startRefill_def go_div_def duration_defs tok_queue_def Let_def)

lemma race_held:
  "tok_reach 1 2 (tok_at (tok_queue [] 1 False) [THold (tok_job ''a''), THold (tok_job ''b'')] RSelect [])"
proof -
  let ?a = "tok_job ''a''" and ?b = "tok_job ''b''" and ?q = "\<lambda>js. tok_queue js 1 False"
  let ?e = "(tok_init (?q []) 2)\<lparr>lq := ?q [?a], entered := [?a]\<rparr>"
  note simps = tok_init_def tok_at_def tok_queue_def RateLimitedQueue_Enqueue_def on_inner_def MemoryQueue_Enqueue_def
    AvailableTokens_def poll_memory numeral_2_eq_2
  have "tok_reach 1 2 (tok_init (?q []) 2)" using tok_queue_new by (auto simp: tok_reach_def)
  then have "tok_reach 1 2 ?e"
    by (rule tok_reach_step) (use tok_step.put [of ?a "tok_init (?q []) 2"] in \<open>simp add: simps\<close>)
  then have "tok_reach 1 2 (tok_at (?q [?a, ?b]) [TOut, TOut] RSelect [])"
    by (rule tok_reach_step) (use tok_step.put [of ?b ?e] in \<open>simp add: simps\<close>)
  then have "tok_reach 1 2 (tok_at (?q [?a, ?b]) [TSaw, TOut] RSelect [])"
    by (rule tok_reach_step) (use tok_step.sees [of 0 "tok_at (?q [?a, ?b]) [TOut, TOut] RSelect []"] in \<open>simp add: simps\<close>)
  then have "tok_reach 1 2 (tok_at (?q [?a, ?b]) [TSaw, TSaw] RSelect [])"
    by (rule tok_reach_step) (use tok_step.sees [of 1 "tok_at (?q [?a, ?b]) [TSaw, TOut] RSelect []"] in \<open>simp add: simps\<close>)
  then have "tok_reach 1 2 (tok_at (?q [?b]) [THold ?a, TSaw] RSelect [])"
    by (rule tok_reach_step)
      (use tok_step.receives [of 0 "tok_at (?q [?a, ?b]) [TSaw, TSaw] RSelect []" False] in \<open>simp add: simps\<close>)
  then show ?thesis
    by (rule tok_reach_step)
      (use tok_step.receives [of 1 "tok_at (?q [?b]) [THold ?a, TSaw] RSelect []" False] in \<open>simp add: simps\<close>)
qed

theorem token_protocol_safe_witness:
  "\<exists>s. tok_reach 1 2 s \<and> inside_poll (takers s) = 2 \<and> int (inside_poll (takers s)) - AvailableTokens (lq s) \<le> 2 - 1 \<and>
     int (length (handed s)) + AvailableTokens (lq s) \<le> 1 + int (refills s)"
  using token_protocol_safe [OF race_held] race_held
  by (intro exI [of _ "tok_at (tok_queue [] 1 False) [THold (tok_job ''a''), THold (tok_job ''b'')] RSelect []"])
    (simp add: tok_at_def inside_poll_def)

section \<open>Waiting for a token\<close>

lemma token_comes:
  assumes "refiller s = RTick" "bucket_inv (lq s)" "0 < burst (lq s)" "i < length (takers s)" "takers s ! i = THold j"
  shows "\<exists>s'. (tok_step ^^ 2) s s' \<and> takers s' = (takers s)[i := TOut] \<and> handed s' = handed s @ [j]"
proof -
  let ?a = "s\<lparr>lq := add_token (lq s), refiller := RSelect\<rparr>"
  have "0 < tokens (lq ?a)" using assms(2,3) by (simp add: add_token_def bucket_inv_def)
  then have "tok_step ?a (?a\<lparr>lq := (lq ?a)\<lparr>tokens := tokens (lq ?a) - 1\<rparr>, takers := (takers ?a)[i := TOut],
      handed := handed ?a @ [j]\<rparr>)" (is "tok_step ?a ?b")
    using assms(4,5) by (intro tok_step.takes) (simp_all add: take_token_def)
  with tok_step.adds [OF assms(1)] have "(tok_step ^^ 2) s ?b" by (auto simp: numeral_2_eq_2)
  then show ?thesis by (intro exI [of _ ?b]) simp
qed

text \<open>
  C29. Waiting for a token ends. While the refill goroutine runs and the burst size is positive, a worker
  that holds a job and finds no token is never cut off from one: an event of the ticker, the refill and
  its own next look are all it takes.
\<close>

theorem token_wait_ends:
  assumes "tok_reach b n s" "0 < b" "refiller s \<noteq> RGone" "i < n" "takers s ! i = THold j"
  shows "\<exists>k s'. k \<le> 3 \<and> (tok_step ^^ k) s s' \<and> takers s' = (takers s)[i := TOut] \<and> handed s' = handed s @ [j]"
proof -
  have inv: "bucket_inv (lq s)" "0 < burst (lq s)" "i < length (takers s)"
    using tok_reach_inv [OF assms(1)] assms(2,4) by (simp_all add: tok_inv_def)
  show ?thesis
  proof (cases "refiller s = RTick")
    case True
    from token_comes [OF this inv assms(5)] show ?thesis by (intro exI [of _ 2]) simp
  next
    case False
    let ?t = "s\<lparr>refiller := RTick, refills := Suc (refills s)\<rparr>"
    have t: "tok_step s ?t" using False assms(3) by (intro tok_step.ticks) (cases "refiller s"; simp)
    from token_comes [of ?t i j] inv assms(5) obtain s' where
      "(tok_step ^^ 2) ?t s'" "takers s' = (takers s)[i := TOut]" "handed s' = handed s @ [j]" by auto
    with relpowp_Suc_I2 [of tok_step s ?t 2 s', OF t] show ?thesis by (intro exI [of _ "Suc 2"] exI [of _ s']) simp
  qed
qed

text \<open>One worker took the token; the other one holds its job.\<close>

lemma race_lost:
  "tok_reach 1 2 (tok_at (tok_queue [] 0 False) [TOut, THold (tok_job ''b'')] RSelect [tok_job ''a''])"
  by (rule tok_reach_step [OF race_held])
    (use tok_step.takes [of 0 "tok_at (tok_queue [] 1 False) [THold (tok_job ''a''), THold (tok_job ''b'')] RSelect []"]
      in \<open>simp add: tok_at_def tok_queue_def take_token_def\<close>)

theorem token_wait_ends_witness:
  "\<exists>s'. tok_run (tok_at (tok_queue [] 0 False) [TOut, THold (tok_job ''b'')] RSelect [tok_job ''a'']) s' \<and>
     handed s' = [tok_job ''a'', tok_job ''b'']"
  using token_wait_ends [OF race_lost, of 1 "tok_job ''b''"] by (auto simp: tok_at_def dest: relpowp_imp_rtranclp)

text \<open>
  A worker that holds a job when the bucket is empty and the refill goroutine is gone.
\<close>

definition stranded :: "nat \<Rightarrow> job \<Rightarrow> tokq \<Rightarrow> bool" where
  "stranded i j s \<longleftrightarrow> refiller s = RGone \<and> tokens (lq s) = 0 \<and> i < length (takers s) \<and> takers s ! i = THold j"

lemma stranded_step:
  assumes "tok_step s s'" "stranded i j s"
  shows "stranded i j s'"
  using assms(1)
proof (cases rule: tok_step.cases)
  case (put k w q w')
  with assms(2) enqueue_limited [OF put(2)] show ?thesis by (simp add: stranded_def)
next
  case (closes q)
  with assms(2) close_limited [OF closes(2)] show ?thesis by (simp add: stranded_def)
qed (use assms(2) in \<open>auto simp: stranded_def take_token_def AvailableTokens_def nth_list_update split: if_splits\<close>)

lemma stranded_run: "tok_run s s' \<Longrightarrow> stranded i j s \<Longrightarrow> stranded i j s'"
  by (induction rule: rtranclp_induct) (simp_all add: stranded_step)

lemma race_stranded:
  "\<exists>s. tok_reach 1 2 s \<and> stranded 1 (tok_job ''b'') s \<and> jobs (inner (lq s)) = []"
proof -
  let ?ts = "[TOut, THold (tok_job ''b'')]" and ?hs = "[tok_job ''a'']"
  note simps = tok_at_def tok_queue_def RateLimitedQueue_Close_def MemoryQueue_Close_def
  have "tok_reach 1 2 (tok_at (tok_queue [] 0 True) ?ts RSelect ?hs)"
    by (rule tok_reach_step [OF race_lost])
      (use tok_step.closes [of "tok_at (tok_queue [] 0 False) ?ts RSelect ?hs"] in \<open>simp add: simps\<close>)
  then have "tok_reach 1 2 (tok_at (tok_queue [] 0 True) ?ts RGone ?hs)"
    by (rule tok_reach_step) (use tok_step.ends [of "tok_at (tok_queue [] 0 True) ?ts RSelect ?hs"] in \<open>simp add: simps\<close>)
  then show ?thesis by (intro exI [of _ "tok_at (tok_queue [] 0 True) ?ts RGone ?hs"]) (simp add: simps stranded_def)
qed

text \<open>
  C30. The race for a token, in both directions. A single worker never waits: once it has seen a token it
  is there when the worker has its job. Two workers can see the same token and both receive a job; when
  the queue is closed before the next refill, the loser holds its job and waits for ever, whatever the
  others do, so that the pool never comes to rest.
\<close>

theorem token_race:
  "(\<forall>b s j. 0 \<le> b \<longrightarrow> tok_reach b 1 s \<longrightarrow> takers s = [THold j] \<longrightarrow> take_token (lq s) \<noteq> None) \<and>
   (\<exists>s j. tok_reach 1 2 s \<and> stop_closed (lq s) \<and> (\<forall>s'. tok_run s s' \<longrightarrow> takers s' ! 1 = THold j))"
proof -
  have "take_token (lq s) \<noteq> None" if "0 \<le> b" "tok_reach b 1 s" "takers s = [THold j]" for b s j
    using tok_reach_inv [OF that(2,1)] that(3) by (simp add: tok_inv_def inside_poll_def take_token_def)
  moreover obtain s where s: "tok_reach 1 2 s" "stranded 1 (tok_job ''b'') s" using race_stranded by blast
  moreover have "stop_closed (lq s)"
    using tok_reach_inv [OF s(1)] s(2) by (simp add: tok_inv_def stranded_def)
  moreover have "takers s' ! 1 = THold (tok_job ''b'')" if "tok_run s s'" for s'
    using stranded_run [OF that s(2)] by (simp add: stranded_def)
  ultimately show ?thesis by blast
qed

theorem token_race_witness:
  "\<exists>s. tok_reach 1 1 s \<and> takers s = [THold (tok_job ''a'')] \<and> take_token (lq s) \<noteq> None"
proof -
  let ?a = "tok_job ''a''" and ?q = "\<lambda>js. tok_queue js 1 False"
  let ?s = "\<lambda>js ts. (tok_init (?q js) 1)\<lparr>takers := ts, entered := [?a]\<rparr>"
  note simps = tok_init_def tok_queue_def RateLimitedQueue_Enqueue_def on_inner_def MemoryQueue_Enqueue_def
    AvailableTokens_def poll_memory
  have "tok_reach 1 1 (tok_init (?q []) 1)" using tok_queue_new by (auto simp: tok_reach_def)
  then have "tok_reach 1 1 (?s [?a] [TOut])"
    by (rule tok_reach_step) (use tok_step.put [of ?a "tok_init (?q []) 1"] in \<open>simp add: simps\<close>)
  then have "tok_reach 1 1 (?s [?a] [TSaw])"
    by (rule tok_reach_step) (use tok_step.sees [of 0 "?s [?a] [TOut]"] in \<open>simp add: simps\<close>)
  then have "tok_reach 1 1 (?s [] [THold ?a])"
    by (rule tok_reach_step) (use tok_step.receives [of 0 "?s [?a] [TSaw]" False] in \<open>simp add: simps\<close>)
  moreover have "take_token (lq (?s [] [THold ?a])) \<noteq> None"
    using token_race [THEN conjunct1, rule_format, of 1 "?s [] [THold ?a]" ?a] calculation by simp
  ultimately show ?thesis by (intro exI [of _ "?s [] [THold ?a]"]) simp
qed

end
