(* ===== verification/Queue_Contract.thy ===== *)
theory Queue_Contract
  imports Router_Properties
begin

text \<open>
  The Go interface \<open>Queue\<close> of \<open>internal/queue/interface.go\<close> as a method table, the promises its comments
  make as a locale, and the four types that implement it: memory, priority and rate-limited queue, and
  the router.
\<close>

section \<open>The interface\<close>

text \<open>
  One field per method. \<open>Dequeue\<close> and \<open>DequeueOrWait\<close> depend on timers, on the arms a \<open>select\<close> picks and on
  the ticks of the refill, so their fields are relations: the ways in which a call can return. A call
  that blocks for ever relates to nothing.
\<close>

record 'q queue_impl =
  Enqueue :: "'q enqueue"
  Dequeue :: "'q \<Rightarrow> world \<Rightarrow> job option \<times> 'q \<times> world \<Rightarrow> bool"
  Ack :: "string \<Rightarrow> world \<Rightarrow> unit result \<times> world"
  Nack :: "string \<Rightarrow> 'q \<Rightarrow> world \<Rightarrow> unit result \<times> 'q \<times> world"
  PendingCount :: "'q \<Rightarrow> int"
  Close :: "'q \<Rightarrow> unit result \<times> 'q"
  SetProcessing :: "string \<Rightarrow> world \<Rightarrow> unit result \<times> world"
  Requeue :: "string \<Rightarrow> 'q \<Rightarrow> world \<Rightarrow> unit result \<times> 'q \<times> world"
  Retry :: "string \<Rightarrow> int \<Rightarrow> 'q \<Rightarrow> world \<Rightarrow> unit result \<times> 'q \<times> world"
  DequeueOrWait :: "int \<Rightarrow> 'q \<Rightarrow> world \<Rightarrow> job option \<times> 'q \<times> world \<Rightarrow> bool"

definition MemoryQueue :: "storage \<Rightarrow> memq queue_impl" where
  "MemoryQueue S = \<lparr>Enqueue = MemoryQueue_Enqueue,
     Dequeue = (\<lambda>q w res. case MemoryQueue_Dequeue q of None \<Rightarrow> False | Some (oj, q1) \<Rightarrow> res = (oj, q1, w)),
     Ack = MemoryQueue_Ack S, Nack = MemoryQueue_Nack S, PendingCount = MemoryQueue_PendingCount,
     Close = MemoryQueue_Close, SetProcessing = MemoryQueue_SetProcessing S, Requeue = MemoryQueue_Requeue S,
     Retry = MemoryQueue_Retry S, DequeueOrWait = (\<lambda>d q w res. \<exists>timer. res = MemoryQueue_DequeueOrWait timer d q w)\<rparr>"

definition SortedQueue :: "storage \<Rightarrow> sortedq queue_impl" where
  "SortedQueue S = \<lparr>Enqueue = SortedQueue_Enqueue,
     Dequeue = (\<lambda>q w res. case SortedQueue_Dequeue q of None \<Rightarrow> False | Some (oj, q1) \<Rightarrow> res = (oj, q1, w)),
     Ack = SortedQueue_Ack S, Nack = SortedQueue_Nack S, PendingCount = SortedQueue_PendingCount,
     Close = SortedQueue_Close, SetProcessing = SortedQueue_SetProcessing S, Requeue = SortedQueue_Requeue S,
     Retry = SortedQueue_Retry S, DequeueOrWait = (\<lambda>d q w res. \<exists>timer. res = SortedQueue_DequeueOrWait timer d q w)\<rparr>"

definition RateLimitedQueue :: "storage \<Rightarrow> rlq queue_impl" where
  "RateLimitedQueue S = \<lparr>Enqueue = RateLimitedQueue_Enqueue,
     Dequeue = (\<lambda>q w res. \<exists>ticks. RateLimitedQueue_Dequeue ticks q w = Some res),
     Ack = RateLimitedQueue_Ack S, Nack = RateLimitedQueue_Nack S, PendingCount = RateLimitedQueue_PendingCount,
     Close = RateLimitedQueue_Close, SetProcessing = RateLimitedQueue_SetProcessing S,
     Requeue = RateLimitedQueue_Requeue S, Retry = RateLimitedQueue_Retry S,
     DequeueOrWait = (\<lambda>d q w res. \<exists>timer ticks. RateLimitedQueue_DequeueOrWait timer d ticks q w = Some res)\<rparr>"

definition Router :: "storage \<Rightarrow> router queue_impl" where
  "Router S = \<lparr>Enqueue = Router_Enqueue,
     Dequeue = (\<lambda>r w res. \<exists>arms j r1 w1. Router_Dequeue arms 0 r w = Some (j, r1, w1) \<and> res = (Some j, r1, w1)),
     Ack = Router_Ack S, Nack = Router_Nack S, PendingCount = Router_PendingCount, Close = Router_Close,
     SetProcessing = Router_SetProcessing S, Requeue = Router_Requeue S, Retry = Router_Retry S,
     DequeueOrWait = (\<lambda>d r w res. \<exists>arms. Router_DequeueOrWait d arms r w = Some res)\<rparr>"

lemmas impl_defs = MemoryQueue_def SortedQueue_def RateLimitedQueue_def Router_def

section \<open>The contract\<close>

definition delivered :: "job option \<Rightarrow> job multiset" where
  "delivered oj = (case oj of None \<Rightarrow> {#} | Some j \<Rightarrow> {#j#})"

lemma delivered_simps [simp]: "delivered None = {#}" "delivered (Some j) = {#j#}"
  by (simp_all add: delivered_def)

text \<open>
  \<open>waiting\<close>: the jobs in the queue. \<open>shut\<close>: it takes no more jobs. \<open>ready\<close>: the table the storage works on
  is well formed. An accepted job is added, a delivered one removed, and nothing else; \<open>PendingCount\<close>
  counts; after a \<open>Close\<close> without a panic nothing is accepted any more, and the jobs stay to be drained;
  \<open>Nack\<close>, \<open>Requeue\<close> and \<open>Retry\<close> add at most the job they are called for.
\<close>

locale queue_contract =
  fixes Q :: "'q queue_impl"
    and waiting :: "'q \<Rightarrow> job multiset"
    and shut :: "'q \<Rightarrow> bool"
    and ready :: "world \<Rightarrow> bool"
  assumes ready_table: "table w' = table w \<Longrightarrow> ready w' = ready w"
    and enqueue_law: "Enqueue Q j q w = (x, q', w') \<Longrightarrow> table w' = table w \<and> shut q' = shut q \<and>
        (if x = Inr () then \<not> shut q \<and> waiting q' = add_mset j (waiting q) else waiting q' = waiting q)"
    and dequeue_law: "Dequeue Q q w (oj, q', w') \<Longrightarrow>
        table w' = table w \<and> shut q' = shut q \<and> waiting q = waiting q' + delivered oj"
    and wait_law: "DequeueOrWait Q d q w (oj, q', w') \<Longrightarrow>
        table w' = table w \<and> shut q' = shut q \<and> waiting q = waiting q' + delivered oj"
    and count_law: "PendingCount Q q = int (size (waiting q))"
    and close_law: "Close Q q = (x, q') \<Longrightarrow>
        waiting q' = waiting q \<and> (x = Inr () \<longrightarrow> shut q') \<and> (shut q \<longrightarrow> shut q')"
    and mark_law: "ready w \<Longrightarrow> Ack Q k w = (x, w') \<Longrightarrow> ready w'"
      "ready w \<Longrightarrow> SetProcessing Q k w = (x, w') \<Longrightarrow> ready w'"
    and settle_law: "ready w \<Longrightarrow> Nack Q k q w = (x, q', w') \<Longrightarrow> ready w' \<and> shut q' = shut q \<and> adds waiting k q q'"
      "ready w \<Longrightarrow> Requeue Q k q w = (x, q', w') \<Longrightarrow> ready w' \<and> shut q' = shut q \<and> adds waiting k q q'"
      "ready w \<Longrightarrow> 0 \<le> n \<Longrightarrow> Retry Q k n q w = (x, q', w') \<Longrightarrow> ready w' \<and> shut q' = shut q \<and> adds waiting k q q'"

section \<open>Sequences of calls\<close>

text \<open>
  What a client sees of its calls: the jobs the queue accepted, the IDs it was given, the jobs it
  delivered, whether it was closed, and the jobs accepted after that.
\<close>

record ledger =
  put :: "job multiset"
  named :: "string multiset"
  delivery :: "job multiset"
  ended :: bool
  late :: "job multiset"

definition empty_ledger :: ledger where
  "empty_ledger = \<lparr>put = {#}, named = {#}, delivery = {#}, ended = False, late = {#}\<rparr>"

definition note_enqueue :: "job \<Rightarrow> unit result \<Rightarrow> ledger \<Rightarrow> ledger" where
  "note_enqueue j x l =
     (let l1 = l\<lparr>named := add_mset (ID j) (named l)\<rparr> in
      case x of
        Inl e \<Rightarrow> l1
      | Inr _ \<Rightarrow> l1\<lparr>put := add_mset j (put l), late := (if ended l then add_mset j (late l) else late l)\<rparr>)"

inductive calls :: "'q queue_impl \<Rightarrow> 'q \<Rightarrow> world \<Rightarrow> ledger \<Rightarrow> 'q \<Rightarrow> world \<Rightarrow> ledger \<Rightarrow> bool" for Q :: "'q queue_impl" where
  none: "calls Q q w l q w l"
| enqueue: "calls Q q w l q1 w1 l1 \<Longrightarrow> Enqueue Q j q1 w1 = (x, q2, w2) \<Longrightarrow> calls Q q w l q2 w2 (note_enqueue j x l1)"
| dequeue: "calls Q q w l q1 w1 l1 \<Longrightarrow> Dequeue Q q1 w1 (oj, q2, w2) \<Longrightarrow>
    calls Q q w l q2 w2 (l1\<lparr>delivery := delivery l1 + delivered oj\<rparr>)"
| wait: "calls Q q w l q1 w1 l1 \<Longrightarrow> DequeueOrWait Q d q1 w1 (oj, q2, w2) \<Longrightarrow>
    calls Q q w l q2 w2 (l1\<lparr>delivery := delivery l1 + delivered oj\<rparr>)"
| close: "calls Q q w l q1 w1 l1 \<Longrightarrow> Close Q q1 = (x, q2) \<Longrightarrow>
    calls Q q w l q2 w1 (l1\<lparr>ended := (ended l1 \<or> x = Inr ())\<rparr>)"
| ack: "calls Q q w l q1 w1 l1 \<Longrightarrow> Ack Q k w1 = (x, w2) \<Longrightarrow> calls Q q w l q1 w2 l1"
| processing: "calls Q q w l q1 w1 l1 \<Longrightarrow> SetProcessing Q k w1 = (x, w2) \<Longrightarrow> calls Q q w l q1 w2 l1"
| nack: "calls Q q w l q1 w1 l1 \<Longrightarrow> Nack Q k q1 w1 = (x, q2, w2) \<Longrightarrow>
    calls Q q w l q2 w2 (l1\<lparr>named := add_mset k (named l1)\<rparr>)"
| requeue: "calls Q q w l q1 w1 l1 \<Longrightarrow> Requeue Q k q1 w1 = (x, q2, w2) \<Longrightarrow>
    calls Q q w l q2 w2 (l1\<lparr>named := add_mset k (named l1)\<rparr>)"
| retry: "calls Q q w l q1 w1 l1 \<Longrightarrow> 0 \<le> n \<Longrightarrow> Retry Q k n q1 w1 = (x, q2, w2) \<Longrightarrow>
    calls Q q w l q2 w2 (l1\<lparr>named := add_mset k (named l1)\<rparr>)"
| meanwhile: "calls Q q w l q1 w1 l1 \<Longrightarrow> table w2 = table w1 \<Longrightarrow> calls Q q w l q1 w2 l1"

text \<open>
  The books balance: nothing accepted is lost, nothing is delivered that was not put in, a job is
  delivered once for each time it was put in, the count is right, and nothing was accepted after the end.
\<close>

definition balanced :: "job multiset \<Rightarrow> ledger \<Rightarrow> bool" where
  "balanced present l \<longleftrightarrow> put l \<subseteq># delivery l + present \<and> image_mset ID (delivery l + present) \<subseteq># named l \<and> late l = {#}"

lemma submset_add: "A \<subseteq># B \<Longrightarrow> A \<subseteq># add_mset x B"
  by (rule subset_mset.order_trans) (auto simp: subset_mset.le_iff_add)

context queue_contract
begin

lemma adds_balanced:
  assumes "adds waiting k q q'" "balanced (waiting q) l"
  shows "balanced (waiting q') (l\<lparr>named := add_mset k (named l)\<rparr>)"
  using assms by (auto simp: adds_def balanced_def submset_add)

lemma calls_balanced:
  "calls Q q w l q' w' l' \<Longrightarrow> ready w \<and> balanced (waiting q) l \<and> (ended l \<longrightarrow> shut q) \<Longrightarrow>
   ready w' \<and> balanced (waiting q') l' \<and> (ended l' \<longrightarrow> shut q')"
proof (induction rule: calls.induct)
  case (enqueue q w l q1 w1 l1 j x q2 w2)
  with enqueue_law [OF enqueue.hyps(2)] ready_table [of w2 w1] show ?case
    by (auto simp: note_enqueue_def balanced_def Let_def submset_add split: sum.splits if_splits)
next
  case (dequeue q w l q1 w1 l1 oj q2 w2)
  with dequeue_law [OF dequeue.hyps(2)] ready_table [of w2 w1] show ?case
    by (simp add: balanced_def add.assoc add.commute [of "delivered oj"])
next
  case (wait q w l q1 w1 l1 d oj q2 w2)
  with wait_law [OF wait.hyps(2)] ready_table [of w2 w1] show ?case
    by (simp add: balanced_def add.assoc add.commute [of "delivered oj"])
next
  case (close q w l q1 w1 l1 x q2)
  with close_law [OF close.hyps(2)] show ?case by (auto simp: balanced_def)
next
  case (ack q w l q1 w1 l1 k x w2)
  with mark_law(1) show ?case by blast
next
  case (processing q w l q1 w1 l1 k x w2)
  with mark_law(2) show ?case by blast
next
  case (nack q w l q1 w1 l1 k x q2 w2)
  with settle_law(1) [OF _ nack.hyps(2)] adds_balanced [of k q1 q2 l1] show ?case by simp
next
  case (requeue q w l q1 w1 l1 k x q2 w2)
  with settle_law(2) [OF _ requeue.hyps(2)] adds_balanced [of k q1 q2 l1] show ?case by simp
next
  case (retry q w l q1 w1 l1 n k x q2 w2)
  with settle_law(3) [OF _ retry.hyps(2,3)] adds_balanced [of k q1 q2 l1] show ?case by simp
next
  case (meanwhile q w l q1 w1 l1 w2)
  with ready_table [of w2 w1] show ?case by simp
qed simp

lemma books:
  assumes "calls Q q w empty_ledger q' w' l" "ready w" "waiting q = {#}"
  shows "balanced (waiting q') l \<and> PendingCount Q q' = int (size (waiting q'))"
  using calls_balanced [OF assms(1)] assms(2,3) by (simp add: empty_ledger_def balanced_def count_law)

end

section \<open>The four implementations\<close>

interpretation closing: enqueue_invariant MemoryQueue_Enqueue "\<lambda>q. closed q = c" for c :: bool
  by unfold_locales (simp add: MemoryQueue_Enqueue_def)

interpretation sclosing: enqueue_invariant SortedQueue_Enqueue "\<lambda>q. sclosed q = c" for c :: bool
  by unfold_locales (simp add: SortedQueue_Enqueue_def insertLocked_eq)

text \<open>The memory queue and the sorted queue: their methods are the shared ones over their \<open>Enqueue\<close>.\<close>

lemma memory_settle:
  assumes "store_inv b w"
  shows "MemoryQueue_Nack (main_store b) k q w = (x, q', w') \<Longrightarrow>
      store_inv b w' \<and> closed q' = closed q \<and> adds (\<lambda>q. mset (jobs q)) k q q'"
    and "MemoryQueue_Requeue (main_store b) k q w = (x, q', w') \<Longrightarrow>
      store_inv b w' \<and> closed q' = closed q \<and> adds (\<lambda>q. mset (jobs q)) k q q'"
    and "0 \<le> n \<Longrightarrow> MemoryQueue_Retry (main_store b) k n q w = (x, q', w') \<Longrightarrow>
      store_inv b w' \<and> closed q' = closed q \<and> adds (\<lambda>q. mset (jobs q)) k q q'"
  unfolding MemoryQueue_Nack_def MemoryQueue_Requeue_def MemoryQueue_Retry_def
  using mqs.nack_adds [OF assms] mqs.requeue_adds [OF assms] mqs.retry_adds [OF assms] mqs.keeps_inv(1-3) [OF assms]
    closing.nack_keeps [of q "closed q" "main_store b" k w] closing.requeue_keeps [of q "closed q" "main_store b" k w]
    closing.retry_keeps [of q "closed q" "main_store b" k n w]
  by (auto dest: sym)

lemma sorted_settle:
  assumes "store_inv b w"
  shows "SortedQueue_Nack (main_store b) k q w = (x, q', w') \<Longrightarrow>
      store_inv b w' \<and> sclosed q' = sclosed q \<and> adds (\<lambda>q. mset (sjobs q)) k q q'"
    and "SortedQueue_Requeue (main_store b) k q w = (x, q', w') \<Longrightarrow>
      store_inv b w' \<and> sclosed q' = sclosed q \<and> adds (\<lambda>q. mset (sjobs q)) k q q'"
    and "0 \<le> n \<Longrightarrow> SortedQueue_Retry (main_store b) k n q w = (x, q', w') \<Longrightarrow>
      store_inv b w' \<and> sclosed q' = sclosed q \<and> adds (\<lambda>q. mset (sjobs q)) k q q'"
  unfolding SortedQueue_Nack_def SortedQueue_Requeue_def SortedQueue_Retry_def
  using sqs.nack_adds [OF assms] sqs.requeue_adds [OF assms] sqs.retry_adds [OF assms] sqs.keeps_inv(1-3) [OF assms]
    sclosing.nack_keeps [of q "sclosed q" "main_store b" k w] sclosing.requeue_keeps [of q "sclosed q" "main_store b" k w]
    sclosing.retry_keeps [of q "sclosed q" "main_store b" k n w]
  by (auto dest: sym)

lemma mark_inv:
  assumes "store_inv b w"
  shows "MemoryQueue_Ack (main_store b) k w = (x, w') \<Longrightarrow> store_inv b w'"
    "MemoryQueue_SetProcessing (main_store b) k w = (x, w') \<Longrightarrow> store_inv b w'"
  unfolding MemoryQueue_Ack_def MemoryQueue_SetProcessing_def using mqs.keeps_inv(4,5) [OF assms] by blast+

lemmas mark_defs = RateLimitedQueue_Ack_def RateLimitedQueue_SetProcessing_def Router_Ack_def Router_SetProcessing_def

lemma mark_inv_sorted:
  assumes "store_inv b w"
  shows "SortedQueue_Ack (main_store b) k w = (x, w') \<Longrightarrow> store_inv b w'"
    "SortedQueue_SetProcessing (main_store b) k w = (x, w') \<Longrightarrow> store_inv b w'"
  unfolding SortedQueue_Ack_def SortedQueue_SetProcessing_def using mqs.keeps_inv(4,5) [OF assms] by blast+

interpretation memory_queue: queue_contract "MemoryQueue (main_store b)" "\<lambda>q. mset (jobs q)" closed "store_inv b" for b :: string
proof (unfold_locales, goal_cases)
  case (2 j q w x q' w')
  then show ?case by (auto simp: MemoryQueue_def MemoryQueue_Enqueue_def split: if_splits)
next
  case (3 q w oj q' w')
  then show ?case by (auto simp: MemoryQueue_def MemoryQueue_Dequeue_def split: list.splits if_splits)
next
  case (4 d q w oj q' w')
  then show ?case by (auto simp: MemoryQueue_def MemoryQueue_DequeueOrWait_def split: list.splits if_splits)
next
  case (1 w' w)
  then show ?case by (rule cfg.inv_table)
next
  case (5 q)
  then show ?case by (simp add: MemoryQueue_def MemoryQueue_PendingCount_def)
next
  case (6 q x q')
  then show ?case by (auto simp: MemoryQueue_def MemoryQueue_Close_def split: if_splits)
next
  case (7 w k x w')
  with mark_inv(1) [of b w k x w'] show ?case by (simp add: MemoryQueue_def)
next
  case (8 w k x w')
  with mark_inv(2) [of b w k x w'] show ?case by (simp add: MemoryQueue_def)
next
  case (9 w k q x q' w')
  with memory_settle(1) [of b w k q x q' w'] show ?case by (simp add: MemoryQueue_def)
next
  case (10 w k q x q' w')
  with memory_settle(2) [of b w k q x q' w'] show ?case by (simp add: MemoryQueue_def)
next
  case (11 w n k q x q' w')
  with memory_settle(3) [of b w n k q x q' w'] show ?case by (simp add: MemoryQueue_def)
qed

lemma SortedQueue_Dequeue_pops:
  "SortedQueue_Dequeue q = Some (oj, q') \<Longrightarrow>
   sclosed q' = sclosed q \<and> mset (sjobs q) = mset (sjobs q') + delivered oj"
proof (induction q rule: SortedQueue_Dequeue.induct)
  case (1 q)
  show ?case
  proof (cases "sjobs q")
    case (Cons j js)
    with "1.prems" show ?thesis by (subst (asm) SortedQueue_Dequeue.simps) (auto simp: popLocked_def)
  next
    case Nil
    then have p: "popLocked q = (None, q)" by (simp add: popLocked_def)
    show ?thesis
    proof (cases "\<not> sclosed q \<and> signal q")
      case True
      with "1.prems" p have "SortedQueue_Dequeue (q\<lparr>signal := False\<rparr>) = Some (oj, q')"
        by (subst (asm) SortedQueue_Dequeue.simps) simp
      with "1.IH" p True show ?thesis by simp
    next
      case False
      with "1.prems" p Nil show ?thesis
        by (subst (asm) SortedQueue_Dequeue.simps) (auto split: if_splits)
    qed
  qed
qed

interpretation sorted_queue: queue_contract "SortedQueue (main_store b)" "\<lambda>q. mset (sjobs q)" sclosed "store_inv b" for b :: string
proof (unfold_locales, goal_cases)
  case (2 j q w x q' w')
  then show ?case by (auto simp: SortedQueue_def SortedQueue_Enqueue_def insertLocked_eq split: if_splits)
next
  case (3 q w oj q' w')
  then show ?case by (auto simp: SortedQueue_def SortedQueue_Dequeue_pops split: option.splits)
next
  case (4 d q w oj q' w')
  then show ?case by (auto simp: SortedQueue_def SortedQueue_DequeueOrWait_def popLocked_def split: list.splits if_splits)
next
  case (1 w' w)
  then show ?case by (rule cfg.inv_table)
next
  case (5 q)
  then show ?case by (simp add: SortedQueue_def SortedQueue_PendingCount_def)
next
  case (6 q x q')
  then show ?case by (auto simp: SortedQueue_def SortedQueue_Close_def split: if_splits)
next
  case (7 w k x w')
  with mark_inv_sorted(1) [of b w k x w'] show ?case by (simp add: SortedQueue_def)
next
  case (8 w k x w')
  with mark_inv_sorted(2) [of b w k x w'] show ?case by (simp add: SortedQueue_def)
next
  case (9 w k q x q' w')
  with sorted_settle(1) [of b w k q x q' w'] show ?case by (simp add: SortedQueue_def)
next
  case (10 w k q x q' w')
  with sorted_settle(2) [of b w k q x q' w'] show ?case by (simp add: SortedQueue_def)
next
  case (11 w n k q x q' w')
  with sorted_settle(3) [of b w n k q x q' w'] show ?case by (simp add: SortedQueue_def)
qed

text \<open>The rate-limited queue: the memory queue behind the bucket.\<close>

lemma wait_token_frame: "wait_token ticks q w = Some (q', w') \<Longrightarrow> inner q' = inner q \<and> table w' = table w"
proof (induction ticks arbitrary: q w)
  case (Cons n ticks)
  show ?case
  proof (cases "take_token q")
    case None
    with Cons.prems Cons.IH [of "(refill ^^ n) q" "w\<lparr>clock := clock w + 100 * Millisecond\<rparr>"] show ?thesis by simp
  qed (use Cons.prems in \<open>auto simp: take_token_def split: if_splits\<close>)
qed (auto simp: take_token_def split: if_splits option.splits)

lemma limited_pops:
  "RateLimitedQueue_Dequeue ticks q w = Some (oj, q', w') \<Longrightarrow>
    table w' = table w \<and> closed (inner q') = closed (inner q) \<and> mset (jobs (inner q)) = mset (jobs (inner q')) + delivered oj"
  "RateLimitedQueue_DequeueOrWait timer d ticks q w = Some (oj, q', w') \<Longrightarrow>
    table w' = table w \<and> closed (inner q') = closed (inner q) \<and> mset (jobs (inner q)) = mset (jobs (inner q')) + delivered oj"
proof -
  have t: "table w1 = table w \<and> closed (inner q') = closed (inner q) \<and> mset (jobs (inner q)) = mset (jobs (inner q')) + delivered (Some j)"
    if "wait_token ticks (q\<lparr>inner := (inner q)\<lparr>jobs := js\<rparr>\<rparr>) w = Some (q', w1)" "jobs (inner q) = j # js" for j js w1
    using wait_token_frame [OF that(1)] that(2) by simp
  show "RateLimitedQueue_Dequeue ticks q w = Some (oj, q', w') \<Longrightarrow>
      table w' = table w \<and> closed (inner q') = closed (inner q) \<and> mset (jobs (inner q)) = mset (jobs (inner q')) + delivered oj"
    using t by (cases "jobs (inner q)")
      (auto simp: RateLimitedQueue_Dequeue_def MemoryQueue_Dequeue_def split: option.splits if_splits prod.splits)
  show "RateLimitedQueue_DequeueOrWait timer d ticks q w = Some (oj, q', w') \<Longrightarrow>
      table w' = table w \<and> closed (inner q') = closed (inner q) \<and> mset (jobs (inner q)) = mset (jobs (inner q')) + delivered oj"
    using t by (cases "jobs (inner q)")
      (auto simp: RateLimitedQueue_DequeueOrWait_def MemoryQueue_DequeueOrWait_def split: option.splits if_splits prod.splits)
qed

lemma on_inner_settle:
  assumes "on_inner f q w = (x, q', w')"
    and "\<And>x m w'. f (inner q) w = (x, m, w') \<Longrightarrow>
      store_inv b w' \<and> closed m = closed (inner q) \<and> adds (\<lambda>q. mset (jobs q)) k (inner q) m"
  shows "store_inv b w' \<and> closed (inner q') = closed (inner q) \<and> adds (\<lambda>q. mset (jobs (inner q))) k q q'"
  using assms by (auto simp: on_inner_def adds_def split: prod.splits)

lemma limited_settle:
  assumes "store_inv b w"
  shows "RateLimitedQueue_Nack (main_store b) k q w = (x, q', w') \<Longrightarrow>
      store_inv b w' \<and> closed (inner q') = closed (inner q) \<and> adds (\<lambda>q. mset (jobs (inner q))) k q q'"
    and "RateLimitedQueue_Requeue (main_store b) k q w = (x, q', w') \<Longrightarrow>
      store_inv b w' \<and> closed (inner q') = closed (inner q) \<and> adds (\<lambda>q. mset (jobs (inner q))) k q q'"
    and "0 \<le> n \<Longrightarrow> RateLimitedQueue_Retry (main_store b) k n q w = (x, q', w') \<Longrightarrow>
      store_inv b w' \<and> closed (inner q') = closed (inner q) \<and> adds (\<lambda>q. mset (jobs (inner q))) k q q'"
  unfolding RateLimitedQueue_Nack_def RateLimitedQueue_Requeue_def RateLimitedQueue_Retry_def
  by (erule on_inner_settle, erule memory_settle [OF assms], assumption?)+

interpretation limited_queue: queue_contract "RateLimitedQueue (main_store b)" "\<lambda>q. mset (jobs (inner q))"
  "\<lambda>q. closed (inner q)" "store_inv b" for b :: string
proof (unfold_locales, goal_cases)
  case (1 w' w)
  then show ?case by (rule cfg.inv_table)
next
  case (2 j q w x q' w')
  then show ?case
    by (auto simp: RateLimitedQueue_def RateLimitedQueue_Enqueue_def on_inner_def MemoryQueue_Enqueue_def split: if_splits)
next
  case (3 q w oj q' w')
  then show ?case using limited_pops(1) by (auto simp: RateLimitedQueue_def)
next
  case (4 d q w oj q' w')
  then show ?case using limited_pops(2) by (auto simp: RateLimitedQueue_def)
next
  case (5 q)
  then show ?case by (simp add: RateLimitedQueue_def RateLimitedQueue_PendingCount_def MemoryQueue_PendingCount_def)
next
  case (6 q x q')
  then show ?case by (auto simp: RateLimitedQueue_def RateLimitedQueue_Close_def MemoryQueue_Close_def split: if_splits)
next
  case (7 w k x w')
  with mark_inv(1) [of b w k x w'] show ?case by (simp add: RateLimitedQueue_def mark_defs)
next
  case (8 w k x w')
  with mark_inv(2) [of b w k x w'] show ?case by (simp add: RateLimitedQueue_def mark_defs)
next
  case (9 w k q x q' w')
  with limited_settle(1) [of b w k q x q' w'] show ?case by (simp add: RateLimitedQueue_def)
next
  case (10 w k q x q' w')
  with limited_settle(2) [of b w k q x q' w'] show ?case by (simp add: RateLimitedQueue_def)
next
  case (11 w n k q x q' w')
  with limited_settle(3) [of b w n k q x q' w'] show ?case by (simp add: RateLimitedQueue_def)
qed

text \<open>The router: each method goes to one or all of the three queues.\<close>

definition all_shut :: "router \<Rightarrow> bool" where
  "all_shut r \<longleftrightarrow> closed (FIFO r) \<and> sclosed (PriorityQ r) \<and> closed (inner (RateLimited r))"

lemma poll_shut: "Router_poll arms r w = Some (oj, r', w') \<Longrightarrow> all_shut r' = all_shut r \<and> all_jobs r = all_jobs r' + delivered oj \<and> w' = w"
  by (cases arms) (auto simp: poll_defs all_shut_def all_jobs_def split: list.splits if_splits)

lemma Router_Dequeue_pops:
  "Router_Dequeue arms n r w = Some y \<Longrightarrow>
   case y of (j, r', w') \<Rightarrow> all_shut r' = all_shut r \<and> all_jobs r = all_jobs r' + {#j#} \<and> table w' = table w"
proof (erule Router_Dequeue.raw_induct [rotated])
  fix f :: "(nat \<Rightarrow> arms) \<Rightarrow> nat \<Rightarrow> router \<Rightarrow> world \<Rightarrow> (job \<times> router \<times> world) option" and arms n r w y
  assume IH: "\<And>arms n r w y. f arms n r w = Some y \<Longrightarrow>
      case y of (j, r', w') \<Rightarrow> all_shut r' = all_shut r \<and> all_jobs r = all_jobs r' + {#j#} \<and> table w' = table w"
    and body: "(case Router_poll (arms n) r w of
        None \<Rightarrow> None
      | Some (oj, r1, w1) \<Rightarrow>
          (case oj of
             Some j \<Rightarrow> Some (j, r1, w1)
           | None \<Rightarrow> f arms (Suc n) r1 (w1\<lparr>clock := clock w1 + 20 * Millisecond\<rparr>))) = Some y"
  obtain oj r1 where p: "Router_poll (arms n) r w = Some (oj, r1, w)" using Router_poll_returns by blast
  show "case y of (j, r', w') \<Rightarrow> all_shut r' = all_shut r \<and> all_jobs r = all_jobs r' + {#j#} \<and> table w' = table w"
  proof (cases oj)
    case None
    with body p have "f arms (Suc n) r1 (w\<lparr>clock := clock w + 20 * Millisecond\<rparr>) = Some y" by simp
    from IH [OF this] poll_shut [OF p] None show ?thesis by (auto split: prod.splits)
  next
    case (Some j)
    with body p poll_shut [OF p] show ?thesis by auto
  qed
qed

lemma Router_wait_pops:
  "Router_wait_until d arms n r w = Some (oj, r', w') \<Longrightarrow>
   table w' = table w \<and> all_shut r' = all_shut r \<and> all_jobs r = all_jobs r' + delivered oj"
proof (induction d arms n r w rule: Router_wait_until.induct)
  case (1 d arms n r w)
  obtain o1 r1 where p: "Router_poll (arms n) r w = Some (o1, r1, w)" using Router_poll_returns by blast
  show ?case
  proof (cases "clock w < d \<and> o1 = None")
    case True
    with "1.prems" p have n: "Router_wait_until d arms (Suc n) r1 (w\<lparr>clock := clock w + 10 * Millisecond\<rparr>) = Some (oj, r', w')"
      by (subst (asm) Router_wait_until.simps) simp
    from True p have p': "Router_poll (arms n) r w = Some (None, r1, w)" by simp
    from "1.IH" [OF _ p' refl refl refl n] True poll_shut [OF p'] show ?thesis by simp
  next
    case False
    with "1.prems" p poll_shut [OF p] show ?thesis
      by (subst (asm) Router_wait_until.simps) (auto split: if_splits option.splits)
  qed
qed

text \<open>What a method does in the FIFO queue.\<close>

lemma on_fifo_settle:
  assumes "on_fifo f r w = (x, r', w')"
    and "\<And>x m w'. f (FIFO r) w = (x, m, w') \<Longrightarrow>
      store_inv b w' \<and> closed m = closed (FIFO r) \<and> adds (\<lambda>q. mset (jobs q)) k (FIFO r) m"
  shows "store_inv b w' \<and> all_shut r' = all_shut r \<and> adds all_jobs k r r'"
  using assms by (auto simp: on_fifo_def adds_def all_shut_def all_jobs_def split: prod.splits)

lemma router_settle:
  assumes "store_inv b w"
  shows "Router_Nack (main_store b) k r w = (x, r', w') \<Longrightarrow>
      store_inv b w' \<and> all_shut r' = all_shut r \<and> adds all_jobs k r r'"
    and "Router_Requeue (main_store b) k r w = (x, r', w') \<Longrightarrow>
      store_inv b w' \<and> all_shut r' = all_shut r \<and> adds all_jobs k r r'"
    and "0 \<le> n \<Longrightarrow> Router_Retry (main_store b) k n r w = (x, r', w') \<Longrightarrow>
      store_inv b w' \<and> all_shut r' = all_shut r \<and> adds all_jobs k r r'"
  unfolding Router_Nack_def Router_Requeue_def Router_Retry_def
  by (erule on_fifo_settle, erule memory_settle [OF assms], assumption?)+

interpretation router_queue: queue_contract "Router (main_store b)" all_jobs all_shut "store_inv b" for b :: string
proof (unfold_locales, goal_cases)
  case (1 w' w)
  then show ?case by (rule cfg.inv_table)
next
  case (2 j r w x r' w')
  then show ?case
    by (auto simp: Router_def Router_Enqueue_def on_defs RateLimitedQueue_Enqueue_def on_inner_def MemoryQueue_Enqueue_def
        SortedQueue_Enqueue_def insertLocked_eq all_jobs_def all_shut_def split: if_splits)
next
  case (3 r w oj r' w')
  then show ?case by (auto simp: Router_def dest!: Router_Dequeue_pops)
next
  case (4 d r w oj r' w')
  then show ?case by (auto simp: Router_def Router_DequeueOrWait_def dest!: Router_wait_pops)
next
  case (5 r)
  then show ?case
    by (simp add: Router_def Router_PendingCount_def MemoryQueue_PendingCount_def SortedQueue_PendingCount_def
        RateLimitedQueue_PendingCount_def all_jobs_def)
next
  case (6 r x r')
  then show ?case
    by (auto simp: Router_def Router_Close_def MemoryQueue_Close_def SortedQueue_Close_def RateLimitedQueue_Close_def
        all_jobs_def all_shut_def split: if_splits)
next
  case (7 w k x w')
  with mark_inv(1) [of b w k x w'] show ?case by (simp add: Router_def mark_defs)
next
  case (8 w k x w')
  with mark_inv(2) [of b w k x w'] show ?case by (simp add: Router_def mark_defs)
next
  case (9 w k q x q' w')
  with router_settle(1) [of b w k q x q' w'] show ?case by (simp add: Router_def)
next
  case (10 w k q x q' w')
  with router_settle(2) [of b w k q x q' w'] show ?case by (simp add: Router_def)
next
  case (11 w n k q x q' w')
  with router_settle(3) [of b w n k q x q' w'] show ?case by (simp add: Router_def)
qed

section \<open>Every implementation keeps the contract\<close>

definition keeps_books :: "'q queue_impl \<Rightarrow> ('q \<Rightarrow> job multiset) \<Rightarrow> world \<Rightarrow> bool" where
  "keeps_books Q waiting w \<longleftrightarrow>
     (\<forall>q q' w' l. waiting q = {#} \<longrightarrow> calls Q q w empty_ledger q' w' l \<longrightarrow>
        balanced (waiting q') l \<and> PendingCount Q q' = int (size (waiting q')))"

lemma keeps_booksD:
  "keeps_books Q waiting w \<Longrightarrow> calls Q q w empty_ledger q' w' l \<Longrightarrow> waiting q = {#} \<Longrightarrow>
   balanced (waiting q') l \<and> PendingCount Q q' = int (size (waiting q'))"
  by (simp add: keeps_books_def)

text \<open>
  C8. The queues keep the interface's promises. Take any of the four implementations, empty at first, and
  any sequence of calls of its methods with any answers of the database driver, in which other things
  may happen between the calls that leave the table alone: every accepted job is delivered or still in
  the queue; no job is delivered or in the queue more often than its ID was put in with \<open>Enqueue\<close>, \<open>Nack\<close>,
  \<open>Requeue\<close> or \<open>Retry\<close>; nothing is accepted after \<open>Close\<close>; and \<open>PendingCount\<close> is the number of jobs in the
  queue.
\<close>

theorem queues_keep_contract:
  assumes "store_inv b w"
  shows "keeps_books (MemoryQueue (main_store b)) (\<lambda>q. mset (jobs q)) w \<and>
    keeps_books (SortedQueue (main_store b)) (\<lambda>q. mset (sjobs q)) w \<and>
    keeps_books (RateLimitedQueue (main_store b)) (\<lambda>q. mset (jobs (inner q))) w \<and>
    keeps_books (Router (main_store b)) all_jobs w"
  unfolding keeps_books_def
  using memory_queue.books [OF _ assms] sorted_queue.books [OF _ assms] limited_queue.books [OF _ assms]
    router_queue.books [OF _ assms]
  by blast

theorem queues_keep_contract_witness:
  "\<exists>r' w' l. calls (Router (main_store ''sqlite'')) sample_router sample_world empty_ledger r' w' l \<and>
     put l = {#sample_pending#} \<and> delivery l = {#} \<and> sample_pending \<in># all_jobs r'"
proof -
  obtain r' where e: "Router_Enqueue sample_pending sample_router sample_world = (Inr (), r', sample_world)"
    by (simp add: Router_Enqueue_def on_fifo_def MemoryQueue_Enqueue_def sample_router_def NewRouter_def sample_queue_def)
  let ?l = "note_enqueue sample_pending (Inr ()) empty_ledger"
  have c: "calls (Router (main_store ''sqlite'')) sample_router sample_world empty_ledger r' sample_world ?l"
    by (rule calls.enqueue [OF calls.none]) (simp add: Router_def e)
  have "all_jobs sample_router = {#}"
    by (simp add: sample_router_def NewRouter_def NewSortedQueue_def sample_limited_def sample_queue_def all_jobs_def)
  with queues_keep_contract [OF sample_inv(2), of "''sqlite''"] c have "balanced (all_jobs r') ?l"
    by (blast dest: keeps_booksD)
  with c show ?thesis
    by (intro exI [of _ r'] exI [of _ sample_world] exI [of _ ?l]) (simp add: balanced_def note_enqueue_def empty_ledger_def)
qed

end
