(* ===== verification/Api.thy ===== *)
theory Api
  imports Worker_Pool
begin

text \<open>
  \<open>internal/api/handlers.go\<close>: the HTTP handlers as functions from a request and the shared state to a
  response and the shared state. A response is its status code and its body before JSON encoding; a
  panic (the result \<open>Inl\<close>) is left to the middleware. The fresh ID of \<open>uuid.New\<close> is an argument, and
  so is the HTML page. Header fields are not modelled; the routes are in \<open>Api_Routes\<close>.
\<close>

section \<open>Requests and responses\<close>

text \<open>
  The body of a request: no JSON, the literal \<open>null\<close>, an object, or another JSON value. A member of the
  object is a number written as an integer literal (\<open>BInt\<close>), which is what \<open>encoding/json\<close> accepts for
  an \<open>int\<close>, or any other value.
\<close>

datatype body_val = BInt int | BVal gval

datatype body = NotJSON | JSONNull | JSONObject "(string \<times> body_val) list" | JSONOther

record request =
  req_JobType :: string
  req_Payload :: payload
  req_Queue :: string
  req_Priority :: int

definition request0 :: request where
  "request0 = \<lparr>req_JobType = '''', req_Payload = None, req_Queue = '''', req_Priority = 0\<rparr>"

text \<open>Member names are matched without regard to case.\<close>

definition lower :: "char \<Rightarrow> char" where
  "lower c = (let n = of_char c :: nat in if 65 \<le> n \<and> n \<le> 90 then char_of (n + 32) else c)"

definition key_is :: "string \<Rightarrow> string \<Rightarrow> bool" where
  "key_is name k \<longleftrightarrow> map lower k = name"

definition decode_string :: "body_val \<Rightarrow> string \<Rightarrow> string option" where
  "decode_string v old = (case v of BVal (GStr s) \<Rightarrow> Some s | BVal GNull \<Rightarrow> Some old | _ \<Rightarrow> None)"

text \<open>One member: a known name sets its field or is a type error (\<open>None\<close>); \<open>null\<close> leaves an int or a string
  as it is and makes a map nil; a second object extends the map; other names are ignored.\<close>

definition decode_member :: "string \<times> body_val \<Rightarrow> request \<Rightarrow> request option" where
  "decode_member m r =
     (case m of (k, v) \<Rightarrow>
      if key_is ''job_type'' k then map_option (\<lambda>s. r\<lparr>req_JobType := s\<rparr>) (decode_string v (req_JobType r))
      else if key_is ''payload'' k then
        (case v of
           BVal (GObj kvs) \<Rightarrow>
             Some (r\<lparr>req_Payload := Some (case req_Payload r of None \<Rightarrow> kvs | Some old \<Rightarrow> kvs @ old)\<rparr>)
         | BVal GNull \<Rightarrow> Some (r\<lparr>req_Payload := None\<rparr>)
         | _ \<Rightarrow> None)
      else if key_is ''queue'' k then map_option (\<lambda>s. r\<lparr>req_Queue := s\<rparr>) (decode_string v (req_Queue r))
      else if key_is ''priority'' k then
        (case v of
           BInt n \<Rightarrow> if int64 n then Some (r\<lparr>req_Priority := n\<rparr>) else None
         | BVal GNull \<Rightarrow> Some r
         | _ \<Rightarrow> None)
      else Some r)"

fun decode_members :: "(string \<times> body_val) list \<Rightarrow> request \<Rightarrow> request option" where
  "decode_members [] r = Some r"
| "decode_members (m # ms) r = (case decode_member m r of None \<Rightarrow> None | Some r1 \<Rightarrow> decode_members ms r1)"

definition decode_request :: "body \<Rightarrow> request option" where
  "decode_request b =
     (case b of
        JSONObject ms \<Rightarrow> decode_members ms request0
      | JSONNull \<Rightarrow> Some request0
      | _ \<Rightarrow> None)"

datatype reply =
    RError string | RJobCreated string string | RJob job | RJobs "job list"
  | RStats int int int | RHealth string int int | RCounts counts | RPage string
  | RMetrics "(string \<times> nat) list" metrics | RNone

type_synonym response = "nat \<times> reply"

definition writeError :: "nat \<Rightarrow> string \<Rightarrow> response" where
  "writeError code msg = (code, RError msg)"

section \<open>Creating a job\<close>

definition normalise :: "request \<Rightarrow> request" where
  "normalise r = r\<lparr>req_Payload := Some (case req_Payload r of None \<Rightarrow> [] | Some kvs \<Rightarrow> kvs),
     req_Queue := (if req_Queue r = '''' then QueueTypeFIFO else req_Queue r),
     req_Priority := (if req_Priority r < 1 \<or> 3 < req_Priority r then PriorityNormal else req_Priority r)\<rparr>"

definition new_job :: "string \<Rightarrow> int \<Rightarrow> request \<Rightarrow> job" where
  "new_job uuid now r = \<lparr>ID = uuid, JobType = req_JobType r, Payload = req_Payload r, QueueType = req_Queue r,
     Priority = req_Priority r, Status = StatusPending, RetryCount = 0, MaxRetries = 3, CreatedAt = now,
     UpdatedAt = now, ProcessedAt = None, ErrorMessage = ''''\<rparr>"

definition count_submitted :: "string \<Rightarrow> world \<Rightarrow> world" where
  "count_submitted l w = w\<lparr>metrics := (metrics w)\<lparr>JobsSubmitted := inc_label l (JobsSubmitted (metrics w))\<rparr>\<rparr>"

text \<open>The tail of \<open>CreateJob\<close> when the job goes to the queue.\<close>

definition enqueue_created :: "job \<Rightarrow> shared \<Rightarrow> response result \<times> shared" where
  "enqueue_created job s =
     (case s of (p, r, w) \<Rightarrow>
      case Router_Enqueue job r w of
        (Inl e, r1, w1) \<Rightarrow>
          ((if is_panic e then Inl e else Inr (writeError 500 ''failed to enqueue job'')), p, r1, w1)
      | (Inr _, r1, w1) \<Rightarrow> (Inr (201, RJobCreated (ID job) (Status job)), p, r1, w1))"

definition CreateJob :: "storage \<Rightarrow> string \<Rightarrow> body \<Rightarrow> shared \<Rightarrow> response result \<times> shared" where
  "CreateJob S uuid b s =
     (case decode_request b of
        None \<Rightarrow> (Inr (writeError 400 ''invalid JSON body''), s)
      | Some req0 \<Rightarrow>
          if req_JobType req0 = '''' then (Inr (writeError 400 ''job_type is required''), s)
          else
            (case s of (p, r, w) \<Rightarrow>
             let req = normalise req0; now = clock w; job = new_job uuid now req in
             case SaveJob S job w of
               (Inl e, w1) \<Rightarrow> (Inr (writeError 500 ''failed to create job''), p, r, w1)
             | (Inr _, w1) \<Rightarrow>
                 let w2 = count_submitted (QueueType job) w1 in
                 if Priority job = PrioritySuperUrgent then
                   (case Preempt job p w2 of
                      (Inr preemptedID, p3, w3) \<Rightarrow> (Inr (201, RJobCreated (ID job) (Status job)), p3, r, w3)
                    | (Inl e, p3, w3) \<Rightarrow>
                        if is_panic e then (Inl e, p3, r, w3) else enqueue_created job (p3, r, w3))
                 else enqueue_created job (p, r, w2)))"

section \<open>The other handlers\<close>

definition Dashboard :: "string \<Rightarrow> response" where
  "Dashboard html = (200, RPage html)"

definition api_GetJob :: "storage \<Rightarrow> string \<Rightarrow> world \<Rightarrow> response \<times> world" where
  "api_GetJob S i w =
     (case GetJob S i w of
        (Inl e, w1) \<Rightarrow> (writeError 500 ''failed to retrieve job'', w1)
      | (Inr None, w1) \<Rightarrow> (writeError 404 ''job not found'', w1)
      | (Inr (Some job), w1) \<Rightarrow> ((200, RJob job), w1))"

definition GetStats :: "storage \<Rightarrow> router \<Rightarrow> world \<Rightarrow> response \<times> world" where
  "GetStats S r w =
     (case ListPendingJobs S w of
        ((_, Some e), w1) \<Rightarrow> (writeError 500 ''failed to get stats'', w1)
      | ((pending, None), w1) \<Rightarrow>
          (case GetProcessingJobs S w1 of
             ((_, Some e), w2) \<Rightarrow> (writeError 500 ''failed to get stats'', w2)
           | ((processing, None), w2) \<Rightarrow>
               ((200, RStats (int (length (filter (\<lambda>j. Status j = StatusPending) pending)))
                  (int (length processing)) (Router_PendingCount r)), w2)))"

definition Health :: "pool \<Rightarrow> response" where
  "Health p =
     (let workersAlive = AliveWorkers p in
      if workersAlive < ExpectedWorkers p
      then (503, RHealth ''degraded'' workersAlive (ExpectedWorkers p))
      else (200, RHealth ''ok'' workersAlive (ExpectedWorkers p)))"

text \<open>A listing; a nil slice is answered as an empty one.\<close>

definition list_reply :: "string \<Rightarrow> (job list \<times> error option) \<times> world \<Rightarrow> response \<times> world" where
  "list_reply msg x = (case x of
        ((_, Some e), w1) \<Rightarrow> (writeError 500 msg, w1)
      | ((js, None), w1) \<Rightarrow> ((200, RJobs js), w1))"

definition ListJobs :: "storage \<Rightarrow> world \<Rightarrow> response \<times> world" where
  "ListJobs S w = list_reply ''failed to list jobs'' (ListRecentJobs S 20 w)"

definition GetProcessing :: "storage \<Rightarrow> world \<Rightarrow> response \<times> world" where
  "GetProcessing S w = list_reply ''failed to get processing jobs'' (GetProcessingJobs S w)"

definition GetPending :: "storage \<Rightarrow> world \<Rightarrow> response \<times> world" where
  "GetPending S w = list_reply ''failed to get pending jobs'' (ListAllPendingJobs S w)"

text \<open>These three ignore the error.\<close>

definition list_queue :: "storage \<Rightarrow> string \<Rightarrow> world \<Rightarrow> response \<times> world" where
  "list_queue S t w = (case ListPendingByQueue S t w of ((js, _), w1) \<Rightarrow> ((200, RJobs js), w1))"

definition GetPendingFIFO :: "storage \<Rightarrow> world \<Rightarrow> response \<times> world" where
  "GetPendingFIFO S = list_queue S QueueTypeFIFO"

definition GetPendingPriority :: "storage \<Rightarrow> world \<Rightarrow> response \<times> world" where
  "GetPendingPriority S = list_queue S QueueTypePriority"

definition GetPendingRateLimited :: "storage \<Rightarrow> world \<Rightarrow> response \<times> world" where
  "GetPendingRateLimited S = list_queue S QueueTypeRateLimited"

definition RetryJob :: "storage \<Rightarrow> string \<Rightarrow> router \<Rightarrow> world \<Rightarrow> response result \<times> router \<times> world" where
  "RetryJob S i r w =
     (case GetJob S i w of
        (Inl e, w1) \<Rightarrow> (Inr (writeError 500 ''failed to get job''), r, w1)
      | (Inr None, w1) \<Rightarrow> (Inr (writeError 404 ''job not found''), r, w1)
      | (Inr (Some job), w1) \<Rightarrow>
          if Status job \<noteq> StatusFailed then (Inr (writeError 400 ''only failed jobs can be retried''), r, w1)
          else
            (case Router_Retry S i 3 r w1 of
               (Inl e, r2, w2) \<Rightarrow>
                 ((if is_panic e then Inl e else Inr (writeError 500 ''failed to retry job'')), r2, w2)
             | (Inr _, r2, w2) \<Rightarrow> (Inr (200, RJobCreated i ''pending''), r2, w2)))"

definition GetCounts :: "storage \<Rightarrow> world \<Rightarrow> response \<times> world" where
  "GetCounts S w =
     (case CountByQueueAndStatus S w of
        ((_, Some e), w1) \<Rightarrow> (writeError 500 ''failed to count jobs'', w1)
      | ((rows, None), w1) \<Rightarrow> ((200, RCounts rows), w1))"

end
