(* ===== verification/Queue_Depth.thy ===== *)
theory Queue_Depth
  imports Database
begin

text \<open>
  \<open>internal/metrics/queue_depth.go\<close>: the collector that reads the number of pending jobs per queue at
  every scrape. A failed query emits nothing; a query that breaks off emits what it had, since
  \<open>rows.Err()\<close> is not looked at.
\<close>

text \<open>The descriptor a collector is built with; \<open>Describe\<close> sends it to the registry.\<close>

record QueueDepthCollector =
  series_name :: string
  series_help :: string
  series_labels :: "string list"

definition NewQueueDepthCollector :: QueueDepthCollector where
  "NewQueueDepthCollector = \<lparr>series_name = ''rjq_queue_depth'',
     series_help = ''Number of pending jobs per queue, read live from the database.'', series_labels = [''queue'']\<rparr>"

definition Describe :: "QueueDepthCollector \<Rightarrow> QueueDepthCollector list" where
  "Describe c = [c]"

text \<open>The query, and the gauges one scrape emits: for each label value the number read.\<close>

definition pending_groups :: "row list \<Rightarrow> (string \<times> nat) list" where
  "pending_groups rs = group_count c_queue_type (filter (\<lambda>r. c_status r = ''pending'') rs)"

definition Collect :: "world \<Rightarrow> (string \<times> nat) list \<times> world" where
  "Collect w =
     (case stmt w of
        (Fail e, w1) \<Rightarrow> ([], w1)
      | (Cut n e, w1) \<Rightarrow> (take n (pending_groups (table w1)), w1)
      | (Ok, w1) \<Rightarrow> (pending_groups (table w1), w1))"

text \<open>What the gauge shows: the number of pending jobs of a queue, and no series for an empty queue.\<close>

lemma Collect_exact:
  assumes "healthy w"
  shows "map_of (fst (Collect w)) q =
    (let n = length (filter (\<lambda>r. c_queue_type r = q) (filter (\<lambda>r. c_status r = ''pending'') (table w))) in
     if n = 0 then None else Some n)"
  using assms by (auto simp: Collect_def pending_groups_def map_of_group_count Let_def filter_empty_conv)

end
