(* ===== verification/Api_Routes.thy ===== *)
theory Api_Routes
  imports Api Queue_Depth
begin

text \<open>
  The routing table of \<open>internal/api/handlers.go\<close> (\<open>RegisterRoutes\<close>) and the path of a request through
  the server's handler (\<open>cmd/server/main.go\<close>). Finding the route for a request is the business of the
  chi router, a library outside the repository: an argument, of which only the documented behaviour is
  used, that it picks an entry of the table whose method is the request's.
\<close>

section \<open>The routing table\<close>

datatype http_method = GET | POST | OtherMethod

datatype endpoint =
    EpCreateJob | EpGetJob | EpGetStats | EpHealth | EpListJobs | EpDashboard | EpGetProcessing | EpGetPending
  | EpGetPendingFIFO | EpGetPendingPriority | EpGetPendingRateLimited | EpRetryJob | EpMetrics | EpGetCounts

text \<open>An entry: the method (\<open>None\<close>: any), the pattern, the handler.\<close>

type_synonym routes = "(http_method option \<times> string \<times> endpoint) list"

definition RegisterRoutes :: routes where
  "RegisterRoutes =
     [(Some POST, ''/jobs'', EpCreateJob),
      (Some GET, ''/jobs/{id}'', EpGetJob),
      (Some GET, ''/stats'', EpGetStats),
      (Some GET, ''/health'', EpHealth),
      (Some GET, ''/jobs'', EpListJobs),
      (Some GET, ''/dashboard'', EpDashboard),
      (Some GET, ''/processing'', EpGetProcessing),
      (Some GET, ''/pending'', EpGetPending),
      (Some GET, ''/pending/fifo'', EpGetPendingFIFO),
      (Some GET, ''/pending/priority'', EpGetPendingPriority),
      (Some GET, ''/pending/rate-limited'', EpGetPendingRateLimited),
      (Some POST, ''/jobs/{id}/retry'', EpRetryJob),
      (None, ''/metrics'', EpMetrics),
      (Some GET, ''/counts'', EpGetCounts)]"

record http_request =
  req_method :: http_method
  req_path :: string
  req_body :: body

text \<open>What chi answers for a request: a handler with the value of the parameter \<open>id\<close>, or a status code.\<close>

type_synonym chi = "routes \<Rightarrow> http_request \<Rightarrow> nat + endpoint \<times> string"

definition chi_ok :: "chi \<Rightarrow> bool" where
  "chi_ok match \<longleftrightarrow> (\<forall>rs req ep i. match rs req = Inr (ep, i) \<longrightarrow>
     (\<exists>m pat. (m, pat, ep) \<in> set rs \<and> (m = None \<or> m = Some (req_method req))))"

section \<open>Handling a request\<close>

text \<open>The page of \<open>promhttp.Handler\<close> shows the registered series, the queue depth collector among them.\<close>

definition Metrics_page :: "world \<Rightarrow> response \<times> world" where
  "Metrics_page w = (case Collect w of (depths, w1) \<Rightarrow> ((200, RMetrics depths (metrics w1)), w1))"

definition reading :: "(world \<Rightarrow> response \<times> world) \<Rightarrow> shared \<Rightarrow> response result \<times> shared" where
  "reading f s = (case s of (p, r, w) \<Rightarrow> case f w of (x, w1) \<Rightarrow> (Inr x, p, r, w1))"

fun handle :: "storage \<Rightarrow> string \<Rightarrow> string \<Rightarrow> endpoint \<Rightarrow> string \<Rightarrow> body \<Rightarrow> shared \<Rightarrow> response result \<times> shared" where
  "handle S html uuid EpCreateJob i b s = CreateJob S uuid b s"
| "handle S html uuid EpGetJob i b s = reading (api_GetJob S i) s"
| "handle S html uuid EpGetStats i b s = reading (GetStats S (fst (snd s))) s"
| "handle S html uuid EpHealth i b s = reading (\<lambda>w. (Health (fst s), w)) s"
| "handle S html uuid EpListJobs i b s = reading (ListJobs S) s"
| "handle S html uuid EpDashboard i b s = reading (\<lambda>w. (Dashboard html, w)) s"
| "handle S html uuid EpGetProcessing i b s = reading (GetProcessing S) s"
| "handle S html uuid EpGetPending i b s = reading (GetPending S) s"
| "handle S html uuid EpGetPendingFIFO i b s = reading (GetPendingFIFO S) s"
| "handle S html uuid EpGetPendingPriority i b s = reading (GetPendingPriority S) s"
| "handle S html uuid EpGetPendingRateLimited i b s = reading (GetPendingRateLimited S) s"
| "handle S html uuid EpRetryJob i b s =
     (case s of (p, r, w) \<Rightarrow> case RetryJob S i r w of (x, r1, w1) \<Rightarrow> (x, p, r1, w1))"
| "handle S html uuid EpMetrics i b s = reading Metrics_page s"
| "handle S html uuid EpGetCounts i b s = reading (GetCounts S) s"

text \<open>The middleware \<open>Recoverer\<close> answers a panic of a handler with 500.\<close>

definition serve :: "chi \<Rightarrow> storage \<Rightarrow> string \<Rightarrow> string \<Rightarrow> http_request \<Rightarrow> shared \<Rightarrow> response \<times> shared" where
  "serve match S html uuid req s =
     (case match RegisterRoutes req of
        Inl code \<Rightarrow> ((code, RNone), s)
      | Inr (ep, i) \<Rightarrow>
          (case handle S html uuid ep i (req_body req) s of
             (Inr x, s1) \<Rightarrow> (x, s1)
           | (Inl e, s1) \<Rightarrow> ((500, RNone), s1)))"

section \<open>Facts\<close>

lemma chi_okD:
  "chi_ok match \<Longrightarrow> match rs req = Inr (ep, i) \<Longrightarrow> \<exists>m pat. (m, pat, ep) \<in> set rs \<and> (m = None \<or> m = Some (req_method req))"
  by (simp add: chi_ok_def)

lemma route_methods:
  assumes "chi_ok match" "match RegisterRoutes req = Inr (ep, i)" "ep = EpCreateJob \<or> ep = EpRetryJob"
  shows "req_method req = POST"
proof -
  have "list_all (\<lambda>(m, pat, e). e = EpCreateJob \<or> e = EpRetryJob \<longrightarrow> m = Some POST) RegisterRoutes"
    by (simp add: RegisterRoutes_def)
  with chi_okD [OF assms(1,2)] assms(3) show ?thesis by (fastforce simp: list_all_iff)
qed

text \<open>A first match over the table, with the patterns compared as they are: one router that is fine.\<close>

fun exact_match :: chi where
  "exact_match [] req = Inl 404"
| "exact_match ((m, pat, ep) # rs) req =
     (if (m = None \<or> m = Some (req_method req)) \<and> pat = req_path req then Inr (ep, '''') else exact_match rs req)"

lemma exact_match_ok: "chi_ok exact_match"
proof -
  have "\<exists>m pat. (m, pat, ep) \<in> set rs \<and> (m = None \<or> m = Some (req_method req))"
    if "exact_match rs req = Inr (ep, i)" for rs req ep i
    using that
  proof (induction rs req rule: exact_match.induct)
    case (2 m pat e rs req)
    show ?case
    proof (cases "(m = None \<or> m = Some (req_method req)) \<and> pat = req_path req")
      case True
      with "2.prems" have "(m, pat, ep) \<in> set ((m, pat, e) # rs)" by simp
      with True show ?thesis by blast
    next
      case False
      then have "exact_match rs req = Inr (ep, i)" using "2.prems" by (simp only: exact_match.simps if_False)
      from "2.IH" [OF False this] show ?thesis unfolding list.set by blast
    qed
  qed simp
  then show ?thesis unfolding chi_ok_def by blast
qed

end
