(* ===== verification/Api_Reads.thy ===== *)
theory Api_Reads
  imports Api_Routes Storage_Listings Storage_Properties Pool_Properties
begin

text \<open>
  The properties of the read-only requests: they change nothing, what the listings and the statistics
  show, and what they show when the database fails.
\<close>

section \<open>Reading is safe\<close>

lemma list_reply_table: "list_reply msg x = (y, w) \<Longrightarrow> w = snd x"
  by (auto simp: list_reply_def split: prod.splits option.splits)

lemma Collect_table: "table (snd (Collect w)) = table w"
  by (auto simp: Collect_def dest: stmt_eq_table split: prod.splits answer.splits)

lemma GetStats_table: "table (snd (GetStats (main_store b) r w)) = table w"
proof -
  obtain x w1 where p: "ListPendingJobs (main_store b) w = (x, w1)" by (metis surj_pair)
  obtain y w2 where q: "GetProcessingJobs (main_store b) w1 = (y, w2)" by (metis surj_pair)
  from lists.reads_table_eq(2) [OF p] lists.reads_table_eq(3) [OF q] p q show ?thesis
    by (auto simp: GetStats_def split: prod.splits option.splits)
qed

lemma handler_tables:
  "table (snd (api_GetJob (main_store b) i w)) = table w"
  "table (snd (GetStats (main_store b) r w)) = table w"
  "table (snd (ListJobs (main_store b) w)) = table w"
  "table (snd (GetProcessing (main_store b) w)) = table w"
  "table (snd (GetPending (main_store b) w)) = table w"
  "table (snd (list_queue (main_store b) t w)) = table w"
  "table (snd (GetCounts (main_store b) w)) = table w"
  "table (snd (Metrics_page w)) = table w"
  using Collect_table [of w] GetStats_table [of b r w]
  by (auto simp: api_GetJob_def ListJobs_def GetProcessing_def GetPending_def list_queue_def
      GetCounts_def Metrics_page_def list_reply_def lists.reads_table cfg.get_table cfg.pending_table
      dest: lists.reads_table_eq [where b = b] split: prod.splits sum.splits option.splits)

lemma handle_read:
  assumes "ep \<noteq> EpCreateJob" "ep \<noteq> EpRetryJob" "handle (main_store b) html uuid ep i body (p, r, w) = (x, p', r', w')"
  shows "p' = p \<and> r' = r \<and> table w' = table w \<and> (\<exists>y. x = Inr y)"
proof -
  have "\<exists>f. handle (main_store b) html uuid ep i body (p, r, w) = reading f (p, r, w) \<and> table (snd (f w)) = table w"
    using assms(1,2) by (cases ep)
      (force simp: handler_tables GetPendingFIFO_def GetPendingPriority_def GetPendingRateLimited_def)+
  then obtain f where f: "handle (main_store b) html uuid ep i body (p, r, w) = reading f (p, r, w)"
    "table (snd (f w)) = table w" by blast
  with assms(3) show ?thesis by (cases "f w") (auto simp: reading_def)
qed

text \<open>
  C20. GET requests are safe. Whatever the path and whatever the database driver answers, a GET request
  leaves the pool, the queues and the table as they are.
\<close>

theorem get_requests_safe:
  assumes "chi_ok match" "req_method req = GET"
    "serve match (main_store b) html uuid req (p, r, w) = (resp, p', r', w')"
  shows "p' = p \<and> r' = r \<and> table w' = table w"
proof (cases "match RegisterRoutes req")
  case (Inl code)
  with assms(3) show ?thesis by (simp add: serve_def)
next
  case (Inr epi)
  obtain ep i where e: "epi = (ep, i)" by fastforce
  with Inr assms(1,2) route_methods [of match req ep i] have n: "ep \<noteq> EpCreateJob" "ep \<noteq> EpRetryJob" by auto
  obtain x p1 r1 w1 where h: "handle (main_store b) html uuid ep i (req_body req) (p, r, w) = (x, p1, r1, w1)"
    by (metis surj_pair)
  from handle_read [OF n h] h assms(3) Inr e show ?thesis by (auto simp: serve_def)
qed

theorem get_requests_safe_witness:
  "\<exists>resp w'. serve exact_match (main_store ''sqlite'') ''page'' ''n'' \<lparr>req_method = GET, req_path = ''/pending'', req_body = NotJSON\<rparr>
      (sample_pool, sample_router, sample_world) = (resp, sample_pool, sample_router, w') \<and> table w' = table sample_world"
proof -
  let ?req = "\<lparr>req_method = GET, req_path = ''/pending'', req_body = NotJSON\<rparr>"
  obtain resp p' r' w' where s: "serve exact_match (main_store ''sqlite'') ''page'' ''n'' ?req
      (sample_pool, sample_router, sample_world) = (resp, p', r', w')" by (metis surj_pair)
  from get_requests_safe [OF exact_match_ok _ s] s show ?thesis by auto
qed

section \<open>What the listings show\<close>

text \<open>
  C21. The listings are exact. With a working database the handlers answer 200 and list exactly the jobs
  in question, each once: the twenty newest; those in processing, oldest first; the pending ones, and
  those of each queue, in the order in which they are due. (\<open>ListJobs\<close> has no other limit.)
\<close>

theorem listings_exact:
  assumes "healthy w" "store_inv b w"
  shows "\<exists>all running pending fifo priority limited.
    ListJobs (main_store b) w = ((200, RJobs (take 20 all)), w) \<and> listing (store_view b w) (\<lambda>j. True) newer all \<and>
    GetProcessing (main_store b) w = ((200, RJobs running), w) \<and>
      listing (store_view b w) (\<lambda>j. Status j = StatusProcessing) older running \<and>
    GetPending (main_store b) w = ((200, RJobs pending), w) \<and>
      listing (store_view b w) (\<lambda>j. Status j = StatusPending) job_before pending \<and>
    GetPendingFIFO (main_store b) w = ((200, RJobs fifo), w) \<and>
      listing (store_view b w) (\<lambda>j. Status j = StatusPending \<and> QueueType j = QueueTypeFIFO) job_before fifo \<and>
    GetPendingPriority (main_store b) w = ((200, RJobs priority), w) \<and>
      listing (store_view b w) (\<lambda>j. Status j = StatusPending \<and> QueueType j = QueueTypePriority) job_before priority \<and>
    GetPendingRateLimited (main_store b) w = ((200, RJobs limited), w) \<and>
      listing (store_view b w) (\<lambda>j. Status j = StatusPending \<and> QueueType j = QueueTypeRateLimited) job_before limited"
  using lists.recent_ok [OF assms, of 20] lists.processing_ok [OF assms] lists.all_pending_ok [OF assms]
    lists.pending_by_ok [OF assms, of QueueTypeFIFO] lists.pending_by_ok [OF assms, of QueueTypePriority]
    lists.pending_by_ok [OF assms, of QueueTypeRateLimited]
  by (auto simp: ListJobs_def GetProcessing_def GetPending_def GetPendingFIFO_def GetPendingPriority_def
      GetPendingRateLimited_def list_queue_def list_reply_def)

theorem listings_exact_witness:
  "\<exists>running. GetProcessing (main_store ''postgres'') sample_world = ((200, RJobs running), sample_world) \<and>
    sample_processing \<in> set running"
proof -
  have "store_view ''postgres'' sample_world ''b'' = Some sample_processing" by (simp add: sample_view)
  moreover obtain running where "GetProcessing (main_store ''postgres'') sample_world = ((200, RJobs running), sample_world)"
    "listing (store_view ''postgres'' sample_world) (\<lambda>j. Status j = StatusProcessing) older running"
    using listings_exact [OF sample_healthy(2) sample_inv(2), of "''postgres''"] by (elim exE conjE) (rule that)
  ultimately show ?thesis by (auto simp: listing_def)
qed

text \<open>
  C35. The statistics are exact. With a working database \<open>GetStats\<close> reports the number of pending jobs,
  the number of jobs in processing, and the length of the queues; \<open>GetCounts\<close> reports for each queue
  and status the number of stored jobs, and nothing where there is none.
\<close>

theorem stats_exact:
  assumes "healthy w" "store_inv b w"
  shows "GetStats (main_store b) r w =
      ((200, RStats (int (card {i. \<exists>j. store_view b w i = Some j \<and> Status j = StatusPending}))
         (int (card {i. \<exists>j. store_view b w i = Some j \<and> Status j = StatusProcessing})) (Router_PendingCount r)), w) \<and>
    (\<exists>m. GetCounts (main_store b) w = ((200, RCounts m), w) \<and> (\<forall>q s. count_of m q s =
       (let n = card {i. \<exists>j. store_view b w i = Some j \<and> QueueType j = q \<and> Status j = s} in
        if n = 0 then None else Some (int n))))"
proof -
  note id = cfg.view_ID [OF assms(2)]
  obtain js where js: "ListPendingJobs (main_store b) w = ((js, None), w)" "listing (store_view b w) active job_before js"
    using lists.pending_listing [OF assms] by blast
  obtain ps where ps: "GetProcessingJobs (main_store b) w = ((ps, None), w)"
    "listing (store_view b w) (\<lambda>j. Status j = StatusProcessing) older ps" using lists.processing_ok [OF assms] by blast
  have "{i. \<exists>j. store_view b w i = Some j \<and> active j \<and> Status j = StatusPending} =
      {i. \<exists>j. store_view b w i = Some j \<and> Status j = StatusPending}" by (auto simp: active_def)
  with listing_length [OF listing_filter [OF js(2), of "\<lambda>j. Status j = StatusPending"] id]
  have "length (filter (\<lambda>j. Status j = StatusPending) js) = card {i. \<exists>j. store_view b w i = Some j \<and> Status j = StatusPending}"
    by simp
  with js(1) ps(1) listing_length [OF ps(2) id] counts_listed [OF assms] show ?thesis
    by (auto simp: GetStats_def GetCounts_def)
qed

theorem stats_exact_witness:
  "\<exists>queued. GetStats (main_store ''sqlite'') sample_router sample_world = ((200, RStats 1 1 queued), sample_world)"
proof -
  have "{i. \<exists>j. store_view ''sqlite'' sample_world i = Some j \<and> Status j = StatusPending} = {''a''}"
    "{i. \<exists>j. store_view ''sqlite'' sample_world i = Some j \<and> Status j = StatusProcessing} = {''b''}"
    by (auto simp: sample_view status_defs split: if_splits)
  with stats_exact [OF sample_healthy(2) sample_inv(2), of "''sqlite''" sample_router] show ?thesis by simp
qed

text \<open>
  The lists per queue hide database errors. When the query fails, the handlers of the three queues
  answer 200 with an empty list, and when it breaks off, 200 with the jobs read so far; the list of all
  pending jobs answers 500 in both cases.
\<close>

lemma queue_lists_hide_errors:
  assumes "\<not> db_closed w" "driver w = a # as" "a \<noteq> Ok"
  shows "\<exists>js. fst (list_queue (main_store b) t w) = (200, RJobs js) \<and> (\<forall>e. a = Fail e \<longrightarrow> js = []) \<and>
    fst (GetPending (main_store b) w) = (500, RError ''failed to get pending jobs'')"
proof -
  have s: "stmt w = (a, w\<lparr>driver := as\<rparr>)" using assms(1,2) by (simp add: stmt_def)
  have q: "\<exists>js e. fst (query_jobs scan q w) = (js, Some e) \<and> ((\<exists>x. a = Fail x) \<longrightarrow> js = [])" for scan q
    using assms(3) by (cases a) (auto simp: query_jobs_def sql_select_def s split: sum.splits)
  have "\<exists>scan q1 q2. ListPendingByQueue (main_store b) t = query_jobs scan q1 \<and>
      ListAllPendingJobs (main_store b) = query_jobs scan q2"
    by (auto simp: main_store_def SQLiteStorage_def PostgresStorage_def SQLite_ListPendingByQueue_def
        Postgres_ListPendingByQueue_def SQLite_ListAllPendingJobs_def Postgres_ListAllPendingJobs_def
        SQLite_queryJobs_def pgQueryJobs_def)
  then obtain scan q1 q2 where "ListPendingByQueue (main_store b) t = query_jobs scan q1"
    "ListAllPendingJobs (main_store b) = query_jobs scan q2" by blast
  moreover obtain js e w1 where "query_jobs scan q1 w = ((js, Some e), w1)" "(\<exists>x. a = Fail x) \<longrightarrow> js = []"
    using q [of scan q1] by (cases "query_jobs scan q1 w") auto
  moreover obtain js' e' w1' where "query_jobs scan q2 w = ((js', Some e'), w1')"
    using q [of scan q2] by (cases "query_jobs scan q2 w") auto
  ultimately show ?thesis by (auto simp: list_queue_def GetPending_def list_reply_def writeError_def)
qed

end
