(* ===== verification/Config.thy ===== *)
theory Config
  imports RJQ_Prelude
begin

text \<open>
  \<open>internal/config/config.go\<close>: the configuration record and its validation. Reading the file and
  merging the environment is the business of viper, a library outside the repository; its two results
  are arguments of \<open>LoadConfig\<close>.
\<close>

record DatabaseConfig =
  Backend :: string
  SQLitePath :: string
  PostgresDSN :: string

record ServerConfig =
  Port :: int

record QueueConfig =
  Workers :: int
  DemoDelaySec :: int
  CooldownSec :: int

record EmailConfig =
  Mode :: string
  SMTPHost :: string
  SMTPPort :: int
  SMTPUser :: string
  SMTPPass :: string
  TestHost :: string
  TestPort :: int
  TestUser :: string
  TestPass :: string

record RetryConfig =
  MaxAttempts :: int
  BackoffSeconds :: int

record TimeoutConfig =
  JobSeconds :: int

record RateLimitConfig =
  EmailsPerMinute :: int
  Burst :: int

record Config =
  ServerCfg :: ServerConfig
  Queue :: QueueConfig
  Email :: EmailConfig
  Retry :: RetryConfig
  Timeout :: TimeoutConfig
  RateLimit :: RateLimitConfig
  DatabaseCfg :: DatabaseConfig

definition LoadConfig :: "error option \<Rightarrow> Config result \<Rightarrow> Config result" where
  "LoadConfig readErr unmarshalled =
     (case readErr of
        Some e \<Rightarrow> Inl (Wrap ''failed to read config file'' e)
      | None \<Rightarrow>
          (case unmarshalled of
             Inl e \<Rightarrow> Inl (Wrap ''failed to unmarshal config'' e)
           | Inr cfg \<Rightarrow>
               if Port (ServerCfg cfg) = 0 then Inl (Err ''server.port must be set'')
               else if Workers (Queue cfg) \<le> 0 then Inl (Err ''queue.workers must be positive'')
               else Inr cfg))"

lemma LoadConfig_valid:
  "LoadConfig e u = Inr cfg \<longleftrightarrow> e = None \<and> u = Inr cfg \<and> Port (ServerCfg cfg) \<noteq> 0 \<and> 0 < Workers (Queue cfg)"
  by (auto simp: LoadConfig_def split: option.splits sum.splits if_splits)

end
