(* ===== verification/Email_Processor.thy ===== *)
theory Email_Processor
  imports Models
begin

text \<open>
  \<open>internal/jobs/email/email_worker.go\<close>: the processor that sends a job as an email. The SMTP server is
  an argument, a function from the commands sent so far and the next command to its refusal, if any;
  \<open>starttls\<close> tells whether it advertises STARTTLS. Of package \<open>net/smtp\<close> two checks matter and are
  modelled: \<open>Mail\<close> and \<open>Rcpt\<close> refuse a line break in the address, and \<open>PlainAuth\<close> does not hand over
  the password on a connection that is neither encrypted nor to the local host.
\<close>

section \<open>Processor and message\<close>

record EmailProcessor =
  smtpHost :: string
  smtpPort :: int
  smtpUser :: string
  smtpPass :: string
  smtpTimeout :: int
  demoDelay :: int
  useAuth :: bool

definition NewEmailProcessor :: "string \<Rightarrow> int \<Rightarrow> string \<Rightarrow> string \<Rightarrow> int \<Rightarrow> int \<Rightarrow> bool \<Rightarrow> EmailProcessor" where
  "NewEmailProcessor host port user pass timeout0 delay auth = \<lparr>smtpHost = host, smtpPort = port, smtpUser = user,
     smtpPass = pass, smtpTimeout = timeout0, demoDelay = delay, useAuth = auth\<rparr>"

text \<open>\<open>job.Payload[k].(string)\<close> with the empty string for a missing key or another type.\<close>

definition payload_string :: "job \<Rightarrow> string \<Rightarrow> string" where
  "payload_string job k =
     (case Payload job of
        None \<Rightarrow> ''''
      | Some kvs \<Rightarrow> (case map_of kvs k of Some (GStr s) \<Rightarrow> s | _ \<Rightarrow> ''''))"

definition crlf :: string where
  "crlf = [CHR 0x0D, CHR 0x0A]"

definition buildMessage :: "string \<Rightarrow> string \<Rightarrow> string \<Rightarrow> string \<Rightarrow> string" where
  "buildMessage from to_addr subject body =
     ''From: '' @ from @ crlf @ ''To: '' @ to_addr @ crlf @ ''Subject: '' @ subject @ crlf @ crlf @ body"

section \<open>The SMTP conversation\<close>

datatype smtp_cmd =
    Dial | Greet | StartTLS | AuthPlain string string | Mail string | Rcpt string
  | Data | WriteData string | EndData | Quit

type_synonym server = "smtp_cmd list \<Rightarrow> smtp_cmd \<Rightarrow> error option"

definition has_crlf :: "string \<Rightarrow> bool" where
  "has_crlf s \<longleftrightarrow> CHR 0x0D \<in> set s \<or> CHR 0x0A \<in> set s"

definition is_local :: "string \<Rightarrow> bool" where
  "is_local h \<longleftrightarrow> h = ''localhost'' \<or> h = ''127.0.0.1'' \<or> h = ''::1''"

text \<open>What the client library refuses by itself, before anything is sent.\<close>

fun client_refuses :: "string \<Rightarrow> smtp_cmd list \<Rightarrow> smtp_cmd \<Rightarrow> error option" where
  "client_refuses host sent (AuthPlain u p) =
     (if StartTLS \<in> set sent \<or> is_local host then None else Some (Err ''unencrypted connection''))"
| "client_refuses host sent (Mail a) = (if has_crlf a then Some (Err ''smtp: A line must not contain CR or LF'') else None)"
| "client_refuses host sent (Rcpt a) = (if has_crlf a then Some (Err ''smtp: A line must not contain CR or LF'') else None)"
| "client_refuses host sent _ = None"

text \<open>The steps of \<open>sendWithTimeout\<close> after the connection, with the message each failure is wrapped in.\<close>

definition conversation :: "bool \<Rightarrow> (string \<times> string) option \<Rightarrow> string \<Rightarrow> string \<Rightarrow> string \<Rightarrow> (smtp_cmd \<times> string) list" where
  "conversation starttls auth user to_addr msg =
     [(Dial, ''dial failed''), (Greet, ''smtp client failed'')] @
     (if starttls then [(StartTLS, ''starttls failed'')] else []) @
     (case auth of None \<Rightarrow> [] | Some (u, p) \<Rightarrow> [(AuthPlain u p, ''auth failed'')]) @
     [(Mail (if user = '''' then ''rjq@localhost'' else user), ''mail from failed''),
      (Rcpt to_addr, ''rcpt to failed''), (Data, ''data failed''), (WriteData msg, ''write failed''),
      (EndData, ''close failed''), (Quit, ''quit failed'')]"

text \<open>Run the steps until one fails; the value has the commands that were sent.\<close>

fun converse :: "string \<Rightarrow> server \<Rightarrow> smtp_cmd list \<Rightarrow> (smtp_cmd \<times> string) list \<Rightarrow> error option \<times> smtp_cmd list" where
  "converse host server sent [] = (None, sent)"
| "converse host server sent ((c, what) # cs) =
     (case client_refuses host sent c of
        Some e \<Rightarrow> (Some (Wrap what e), sent)
      | None \<Rightarrow>
          (case server sent c of
             Some e \<Rightarrow> (Some (Wrap what e), sent @ [c])
           | None \<Rightarrow> converse host server (sent @ [c]) cs))"

definition sendWithTimeout ::
  "EmailProcessor \<Rightarrow> bool \<Rightarrow> server \<Rightarrow> (string \<times> string) option \<Rightarrow> string \<Rightarrow> string \<Rightarrow> error option \<times> smtp_cmd list" where
  "sendWithTimeout w starttls server auth to_addr msg =
     converse (smtpHost w) server [] (conversation starttls auth (smtpUser w) to_addr msg)"

text \<open>
  \<open>Process\<close>. \<open>ctxFirst\<close>: the context ends before the sender reports, with the context's error; the sender
  goes on in the background. \<open>ctxDelay\<close>: the context ends during the demo delay.
\<close>

definition email_auth :: "EmailProcessor \<Rightarrow> (string \<times> string) option" where
  "email_auth w = (if useAuth w \<and> smtpUser w \<noteq> '''' \<and> smtpPass w \<noteq> '''' then Some (smtpUser w, smtpPass w) else None)"

definition Process ::
  "EmailProcessor \<Rightarrow> bool \<Rightarrow> server \<Rightarrow> error option \<Rightarrow> error option \<Rightarrow> job \<Rightarrow> error option \<times> smtp_cmd list" where
  "Process w starttls server ctxFirst ctxDelay job =
     (let to_addr = payload_string job ''to''; subject = payload_string job ''subject''; body = payload_string job ''body'' in
      if to_addr = '''' \<or> subject = '''' \<or> body = ''''
      then (Some (Err ''email payload missing required fields: to, subject, body''), [])
      else
        (case sendWithTimeout w starttls server (email_auth w) to_addr (buildMessage (smtpUser w) to_addr subject body) of
           (err, sent) \<Rightarrow>
             (case ctxFirst of
                Some e \<Rightarrow> (Some e, sent)
              | None \<Rightarrow>
                  (case err of
                     Some e \<Rightarrow> (Some e, sent)
                   | None \<Rightarrow> (ctxDelay, sent)))))"

section \<open>Facts on the conversation\<close>

lemma converse_ok: "converse host server sent cs = (None, tr) \<Longrightarrow> tr = sent @ map fst cs"
proof (induction host server sent cs rule: converse.induct)
  case (2 host server sent c what cs)
  then show ?case by (auto split: option.splits)
qed simp

lemma converse_prefix: "converse host server sent cs = (x, tr) \<Longrightarrow> \<exists>n. tr = sent @ take n (map fst cs)"
proof (induction host server sent cs rule: converse.induct)
  case (2 host server sent c what cs)
  show ?case
  proof (cases "client_refuses host sent c")
    case (Some e)
    with "2.prems" show ?thesis by (intro exI [of _ 0]) simp
  next
    case None
    show ?thesis
    proof (cases "server sent c")
      case (Some e)
      with "2.prems" None show ?thesis by (intro exI [of _ 1]) simp
    next
      case None': None
      with "2.prems" None have "converse host server (sent @ [c]) cs = (x, tr)" by simp
      from "2.IH" [OF None None' this] obtain n where "tr = (sent @ [c]) @ take n (map fst cs)" by blast
      then show ?thesis by (intro exI [of _ "Suc n"]) simp
    qed
  qed
qed simp

text \<open>A password that was sent was sent on an encrypted connection or to the local host.\<close>

lemma converse_auth:
  "converse host server sent cs = (x, tr) \<Longrightarrow> AuthPlain u p \<in> set tr \<Longrightarrow> AuthPlain u p \<notin> set sent \<Longrightarrow>
   is_local host \<or> (\<exists>pre post. tr = pre @ AuthPlain u p # post \<and> StartTLS \<in> set pre)"
proof (induction host server sent cs rule: converse.induct)
  case (2 host server sent c what cs)
  show ?case
  proof (cases "client_refuses host sent c")
    case (Some e)
    with "2.prems" show ?thesis by simp
  next
    case None
    show ?thesis
    proof (cases "c = AuthPlain u p")
      case True
      with None have l: "StartTLS \<in> set sent \<or> is_local host" by (auto split: if_splits)
      from converse_prefix [OF "2.prems"(1)] obtain n where n: "tr = sent @ take n (c # map fst cs)" by auto
      with "2.prems"(2,3) obtain m where "n = Suc m" by (cases n) auto
      with n have "tr = sent @ AuthPlain u p # take m (map fst cs)" by (simp add: True)
      with l show ?thesis by blast
    next
      case False
      with "2.prems"(3) have ns: "AuthPlain u p \<notin> set (sent @ [c])" by auto
      show ?thesis
      proof (cases "server sent c")
        case (Some e)
        with "2.prems" None ns show ?thesis by simp
      next
        case None': None
        with "2.prems"(1) None have "converse host server (sent @ [c]) cs = (x, tr)" by simp
        from "2.IH" [OF None None' this "2.prems"(2) ns] show ?thesis .
      qed
    qed
  qed
qed simp

end
