(* ===== verification/Server.thy ===== *)
theory Server
  imports Api Config Email_Processor Queue_Depth
begin

text \<open>
  \<open>cmd/server/main.go\<close> and the two constructors of the storage packages: how the parts are opened,
  wired, recovered and shut down. A fatal log entry ends the process, like a panic: both are the result
  \<open>Inl\<close>. The HTTP server itself, signal delivery and the registration of collectors are not modelled.
\<close>

section \<open>Opening the storage\<close>

text \<open>
  \<open>sql.Open\<close> fails for a malformed data source name (\<open>openErr\<close>); the ping and the migration are
  statements. The migration creates the table if it is not there and so keeps the rows of an existing
  one.
\<close>

definition exec_stmt :: "world \<Rightarrow> unit result \<times> world" where
  "exec_stmt w = (case stmt w of (Ok, w1) \<Rightarrow> (Inr (), w1) | (Fail e, w1) \<Rightarrow> (Inl e, w1) | (Cut n e, w1) \<Rightarrow> (Inl e, w1))"

definition migrate :: "world \<Rightarrow> unit result \<times> world" where
  "migrate w = exec_stmt w"

definition pgMigrate :: "world \<Rightarrow> unit result \<times> world" where
  "pgMigrate w = exec_stmt w"

definition NewSQLiteStorage :: "error option \<Rightarrow> world \<Rightarrow> storage result \<times> world" where
  "NewSQLiteStorage openErr w =
     (case openErr of
        Some e \<Rightarrow> (Inl (Wrap ''failed to open database'' e), w)
      | None \<Rightarrow>
          (case exec_stmt w of
             (Inl e, w1) \<Rightarrow> (Inl (Wrap ''failed to ping database'' e), w1)
           | (Inr _, w1) \<Rightarrow>
               (case migrate w1 of
                  (Inl e, w2) \<Rightarrow> (Inl (Wrap ''failed to run migrations'' e), w2)
                | (Inr _, w2) \<Rightarrow> (Inr SQLiteStorage, w2))))"

definition NewPostgresStorage :: "error option \<Rightarrow> world \<Rightarrow> storage result \<times> world" where
  "NewPostgresStorage openErr w =
     (case openErr of
        Some e \<Rightarrow> (Inl (Wrap ''failed to open database'' e), w)
      | None \<Rightarrow>
          (case exec_stmt w of
             (Inl e, w1) \<Rightarrow> (Inl (Wrap ''failed to ping database'' e), w1)
           | (Inr _, w1) \<Rightarrow>
               (case pgMigrate w1 of
                  (Inl e, w2) \<Rightarrow> (Inl (Wrap ''failed to run migrations'' e), w2)
                | (Inr _, w2) \<Rightarrow> (Inr PostgresStorage, w2))))"

definition open_store :: "Config \<Rightarrow> error option \<Rightarrow> world \<Rightarrow> storage result \<times> world" where
  "open_store cfg openErr w =
     (if Backend (DatabaseCfg cfg) = ''postgres'' then NewPostgresStorage openErr w else NewSQLiteStorage openErr w)"

section \<open>Wiring\<close>

definition smtp_settings :: "Config \<Rightarrow> EmailProcessor" where
  "smtp_settings cfg =
     (let e = Email cfg; t = wrap64 (JobSeconds (Timeout cfg) * Second); d = wrap64 (DemoDelaySec (Queue cfg) * Second) in
      if Mode e = ''production''
      then NewEmailProcessor (SMTPHost e) (SMTPPort e) (SMTPUser e) (SMTPPass e) t d True
      else NewEmailProcessor (TestHost e) (TestPort e) (TestUser e) (TestPass e) t d False)"

definition new_router :: "Config \<Rightarrow> router result" where
  "new_router cfg =
     (let size = wrap64 (Workers (Queue cfg) * 10) in
      case NewMemoryQueue size of
        Inl e \<Rightarrow> Inl e
      | Inr fifo \<Rightarrow>
          (case NewRateLimitedQueue size (EmailsPerMinute (RateLimit cfg)) (Burst (RateLimit cfg)) of
             Inl e \<Rightarrow> Inl e
           | Inr limited \<Rightarrow> Inr (NewRouter fifo (NewSortedQueue size) limited)))"

definition new_pool :: "Config \<Rightarrow> pool result" where
  "new_pool cfg =
     NewPool (Workers (Queue cfg)) (wrap64 (JobSeconds (Timeout cfg) * Second)) (wrap64 (CooldownSec (Queue cfg) * Second))"

text \<open>
  \<open>main\<close> up to the point where requests are served: the configuration, the storage, the queues, the
  pool, then the recovery with its duration. The workers already run while the recovery fills the
  queues; the recovery below is the run in which they have not yet taken a job.
\<close>

definition startup ::
  "error option \<Rightarrow> Config result \<Rightarrow> error option \<Rightarrow> world \<Rightarrow> (storage \<times> pool \<times> router) result \<times> world" where
  "startup readErr unmarshalled openErr w =
     (case LoadConfig readErr unmarshalled of
        Inl e \<Rightarrow> (Inl (Wrap ''Failed to load config'' e), w)
      | Inr cfg \<Rightarrow>
          (case open_store cfg openErr w of
             (Inl e, w1) \<Rightarrow> (Inl (Wrap ''Failed to initialize storage'' e), w1)
           | (Inr S, w1) \<Rightarrow>
               (case new_router cfg of
                  Inl e \<Rightarrow> (Inl e, w1)
                | Inr r \<Rightarrow>
                    (case new_pool cfg of
                       Inl e \<Rightarrow> (Inl e, w1)
                     | Inr p \<Rightarrow>
                         (let p1 = Start p; recoveryStart = clock w1 in
                          case Router_Recover S r w1 of
                            (Inl e, r2, w2) \<Rightarrow> (Inl (Wrap ''Failed to recover queues'' e), w2)
                          | (Inr _, r2, w2) \<Rightarrow>
                              (Inr (S, p1, r2),
                               w2\<lparr>metrics := (metrics w2)\<lparr>RecoveryDuration := clock w2 - recoveryStart\<rparr>\<rparr>))))))"

text \<open>\<open>main\<close> up to the start of the workers; the recovery comes next, in the same goroutine.\<close>

definition boot ::
  "error option \<Rightarrow> Config result \<Rightarrow> error option \<Rightarrow> world \<Rightarrow> (storage \<times> pool \<times> router) result \<times> world" where
  "boot readErr unmarshalled openErr w =
     (case LoadConfig readErr unmarshalled of
        Inl e \<Rightarrow> (Inl (Wrap ''Failed to load config'' e), w)
      | Inr cfg \<Rightarrow>
          (case open_store cfg openErr w of
             (Inl e, w1) \<Rightarrow> (Inl (Wrap ''Failed to initialize storage'' e), w1)
           | (Inr S, w1) \<Rightarrow>
               (case new_router cfg of
                  Inl e \<Rightarrow> (Inl e, w1)
                | Inr r \<Rightarrow>
                    (case new_pool cfg of
                       Inl e \<Rightarrow> (Inl e, w1)
                     | Inr p \<Rightarrow> (Inr (S, Start p, r), w1)))))"

lemma startup_boots:
  "startup readErr unmarshalled openErr w =
     (case boot readErr unmarshalled openErr w of
        (Inl e, w1) \<Rightarrow> (Inl e, w1)
      | (Inr (S, p, r), w1) \<Rightarrow>
          (case Router_Recover S r w1 of
             (Inl e, r2, w2) \<Rightarrow> (Inl (Wrap ''Failed to recover queues'' e), w2)
           | (Inr _, r2, w2) \<Rightarrow>
               (Inr (S, p, r2), w2\<lparr>metrics := (metrics w2)\<lparr>RecoveryDuration := clock w2 - clock w1\<rparr>\<rparr>)))"
  by (simp add: startup_def boot_def Let_def split: sum.splits prod.splits)

text \<open>\<open>main\<close> after the signal: the queues are closed before the workers are told to stop.\<close>

definition shutdown :: "pool \<Rightarrow> router \<Rightarrow> unit result \<times> pool \<times> router" where
  "shutdown p r =
     (case Router_Close r of
        (Inl e, r1) \<Rightarrow> (Inl e, p, r1)
      | (Inr _, r1) \<Rightarrow> (case Stop p of (x, p1) \<Rightarrow> (x, p1, r1)))"

section \<open>Facts\<close>

lemma exec_stmt_healthy [simp]: "healthy w \<Longrightarrow> exec_stmt w = (Inr (), w)"
  by (simp add: exec_stmt_def)

lemma exec_stmt_table: "exec_stmt w = (x, w1) \<Longrightarrow> table w1 = table w"
  by (auto simp: exec_stmt_def dest: stmt_eq_table split: prod.splits answer.splits)

lemma open_store_table: "open_store cfg openErr w = (x, w1) \<Longrightarrow> table w1 = table w"
  by (auto simp: open_store_def NewSQLiteStorage_def NewPostgresStorage_def migrate_def pgMigrate_def
      split: if_splits option.splits prod.splits sum.splits dest!: exec_stmt_table)

lemma open_store_main: "open_store cfg openErr w = (Inr S, w1) \<Longrightarrow> S = main_store (Backend (DatabaseCfg cfg))"
  by (auto simp: open_store_def NewSQLiteStorage_def NewPostgresStorage_def main_store_def
      split: if_splits option.splits prod.splits sum.splits)

end
