(* ===== verification/Api_Properties.thy ===== *)
theory Api_Properties
  imports Api Pool_Properties
begin

text \<open>The properties of the HTTP handlers that change state: submitting a job and retrying one.\<close>

section \<open>Submission\<close>

lemma Router_Enqueue_world:
  assumes "Router_Enqueue j r w = (x, r', w')"
  shows "table w' = table w"
proof -
  have m: "MemoryQueue_Enqueue j q w = (y, q', w1) \<Longrightarrow> table w1 = table w" for y q q' w1
    by (rule mq.enq_world(1))
  have s: "SortedQueue_Enqueue j q w = (y, q', w1) \<Longrightarrow> table w1 = table w" for y q q' w1
    by (rule sq.enq_world(1))
  show ?thesis
    using assms
    by (auto simp: Router_Enqueue_def on_defs RateLimitedQueue_Enqueue_def on_inner_def
        split: prod.splits if_splits dest: m s)
qed

lemma enqueue_created_table:
  "enqueue_created job (p, r, w) = (x, p', r', w') \<Longrightarrow> table w' = table w"
  by (auto simp: enqueue_created_def split: prod.splits sum.splits dest: Router_Enqueue_world)

lemma enqueue_created_code:
  "enqueue_created job (p, r, w) = (Inr (c, rep), s') \<Longrightarrow>
   c = 201 \<and> rep = RJobCreated (ID job) (Status job) \<or> c = 500 \<and> rep = RError ''failed to enqueue job''"
  by (auto simp: enqueue_created_def writeError_def split: prod.splits sum.splits if_splits)

text \<open>What happens after the job was saved.\<close>

definition dispatch :: "job \<Rightarrow> shared \<Rightarrow> response result \<times> shared" where
  "dispatch job s =
     (case s of (p, r, w) \<Rightarrow>
      if Priority job = PrioritySuperUrgent then
        (case Preempt job p w of
           (Inr preemptedID, p3, w3) \<Rightarrow> (Inr (201, RJobCreated (ID job) (Status job)), p3, r, w3)
         | (Inl e, p3, w3) \<Rightarrow> if is_panic e then (Inl e, p3, r, w3) else enqueue_created job (p3, r, w3))
      else enqueue_created job (p, r, w))"

lemma dispatch_table: "dispatch job (p, r, w) = (x, p', r', w') \<Longrightarrow> table w' = table w"
  by (auto simp: dispatch_def split: prod.splits sum.splits if_splits
      dest!: Preempt_world enqueue_created_table)

lemma dispatch_code:
  "dispatch job (p, r, w) = (Inr (c, rep), s') \<Longrightarrow>
   c = 201 \<and> rep = RJobCreated (ID job) (Status job) \<or> c = 500 \<and> rep = RError ''failed to enqueue job''"
  by (auto simp: dispatch_def split: prod.splits sum.splits if_splits dest!: enqueue_created_code)

lemma CreateJob_cases:
  assumes "CreateJob S uuid b (p, r, w) = (Inr (c, rep), p', r', w')"
  obtains (bad_body) "decode_request b = None" "c = 400" "(p', r', w') = (p, r, w)"
  | (no_type) req where "decode_request b = Some req" "req_JobType req = ''''" "c = 400" "(p', r', w') = (p, r, w)"
  | (not_saved) req e w1 where "decode_request b = Some req" "req_JobType req \<noteq> ''''"
      "SaveJob S (new_job uuid (clock w) (normalise req)) w = (Inl e, w1)"
      "c = 500" "rep = RError ''failed to create job''" "(p', r', w') = (p, r, w1)"
  | (saved) req w1 where "decode_request b = Some req" "req_JobType req \<noteq> ''''"
      "SaveJob S (new_job uuid (clock w) (normalise req)) w = (Inr (), w1)"
      "dispatch (new_job uuid (clock w) (normalise req)) (p, r, count_submitted (req_Queue (normalise req)) w1) =
         (Inr (c, rep), p', r', w')"
  using assms
  by (auto simp: CreateJob_def dispatch_def writeError_def Let_def new_job_def
      split: option.splits if_splits prod.splits sum.splits)

text \<open>
  C16. What an answer to a submission means, whatever the database driver answers. 201: the job is stored
  as pending, with the defaults filled in, under the ID in the answer, and no other job changed. 400:
  nothing happened. 500: either nothing is stored, or the answer is \<open>failed to enqueue job\<close> and the job
  is stored as pending all the same. There is no other answer.
\<close>

theorem create_job_outcomes:
  assumes "store_inv b w" "CreateJob (main_store b) uuid body (p, r, w) = (Inr (c, rep), p', r', w')"
  shows "c = 400 \<and> (p', r', w') = (p, r, w) \<or>
    c = 500 \<and> rep = RError ''failed to create job'' \<and> store_view b w' = store_view b w \<and> p' = p \<and> r' = r \<or>
    (c = 201 \<and> rep = RJobCreated uuid StatusPending \<or> c = 500 \<and> rep = RError ''failed to enqueue job'') \<and>
      (\<exists>req. decode_request body = Some req \<and> store_view b w' =
        (store_view b w)(uuid \<mapsto> stored (store_norm b) (new_job uuid (clock w) (normalise req))))"
  using assms(2)
proof (cases rule: CreateJob_cases)
  case (not_saved req e w1)
  from not_saved(3) cfg.fail_atomic(1) [of b "new_job uuid (clock w) (normalise req)" w e] have "table w1 = table w"
    by simp
  then have "store_view b w1 = store_view b w" by (rule cfg.view_table)
  with not_saved show ?thesis by auto
next
  case (saved req w1)
  let ?j = "new_job uuid (clock w) (normalise req)"
  have "table w' = table w1" using dispatch_table [OF saved(4)] by (simp add: count_submitted_def)
  then have "store_view b w' = store_view b w1" by (rule cfg.view_table)
  also have "\<dots> = spec_save (store_norm b) ?j (store_view b w)" by (rule cfg.save_effect [OF assms(1) saved(3)])
  finally have "store_view b w' = (store_view b w)(uuid \<mapsto> stored (store_norm b) ?j)"
    by (simp add: spec_save_def new_job_def)
  moreover from dispatch_code [OF saved(4)] have
    "c = 201 \<and> rep = RJobCreated uuid StatusPending \<or> c = 500 \<and> rep = RError ''failed to enqueue job''"
    by (simp add: new_job_def)
  ultimately show ?thesis using saved(1) by blast
qed simp_all

definition sample_body :: body where
  "sample_body = JSONObject [(''job_type'', BVal (GStr ''email'')), (''queue'', BVal (GStr ''priority'')),
     (''priority'', BInt 2)]"

lemma sample_decode: "decode_request sample_body =
  Some \<lparr>req_JobType = ''email'', req_Payload = None, req_Queue = ''priority'', req_Priority = 2\<rparr>"
  by code_simp

theorem create_job_outcomes_witness:
  "\<exists>c rep p' r' w'. CreateJob (main_store ''sqlite'') ''n'' sample_body (sample_pool, sample_router,
      empty_world\<lparr>driver := [Fail (Driver ''disk'')]\<rparr>) = (Inr (c, rep), p', r', w') \<and>
    c = 500 \<and> store_view ''sqlite'' w' = store_view ''sqlite'' empty_world"
proof -
  let ?w = "empty_world\<lparr>driver := [Fail (Driver ''disk'')]\<rparr>"
  have f: "SaveJob (main_store ''sqlite'') j ?w = (Inl (Wrap ''failed to save job'' (Driver ''disk'')), ?w\<lparr>driver := []\<rparr>)"
    if "Payload j = Some []" for j
    using that by (simp add: main_store_def SQLite_SaveJob_def marshalPayload_def json_Marshal_def sql_insert_def
        stmt_def empty_world_def)
  obtain p' r' w' where c: "CreateJob (main_store ''sqlite'') ''n'' sample_body (sample_pool, sample_router, ?w) =
      (Inr (500, RError ''failed to create job''), p', r', w')"
    by (simp add: CreateJob_def sample_decode Let_def f new_job_def normalise_def writeError_def)
  have "store_inv ''sqlite'' ?w" "store_view ''sqlite'' ?w = store_view ''sqlite'' empty_world"
    using cfg.inv_table [of ?w empty_world "''sqlite''"] cfg.view_table [of ?w empty_world "''sqlite''"] by simp_all
  with create_job_outcomes [OF _ c] c show ?thesis by auto
qed

lemma Router_Enqueue_room:
  assumes "\<not> sclosed (PriorityQ r)" "memq_room (FIFO r) 1" "memq_room (inner (RateLimited r)) 1"
  shows "\<exists>r'. Router_Enqueue j r w = (Inr (), r', w) \<and> all_jobs r' = add_mset j (all_jobs r)"
  using memq_room_Enqueue [of "FIFO r" 0 j w] memq_room_Enqueue [of "inner (RateLimited r)" 0 j w] assms
  by (auto simp: Router_Enqueue_def on_defs SortedQueue_Enqueue_def insertLocked_eq RateLimitedQueue_Enqueue_def
      on_inner_def all_jobs_def)

text \<open>A valid request on a working database: the job is saved, the rest is \<open>dispatch\<close>.\<close>

lemma CreateJob_saved:
  assumes "healthy w" "store_inv b w" "store_view b w uuid = None"
    and req: "decode_request body = Some req" "req_JobType req \<noteq> ''''" "jsonable (payload_val (req_Payload req))"
  shows "\<exists>w2. CreateJob (main_store b) uuid body (p, r, w) = dispatch (new_job uuid (clock w) (normalise req)) (p, r, w2) \<and>
    healthy w2 \<and> store_inv b w2 \<and> clock w2 = clock w \<and>
    store_view b w2 = (store_view b w)(uuid \<mapsto> stored (store_norm b) (new_job uuid (clock w) (normalise req)))"
proof -
  define job where "job = new_job uuid (clock w) (normalise req)"
  have job: "ID job = uuid" "Status job = StatusPending" "RetryCount job = 0" "MaxRetries job = 3"
    by (simp_all add: job_def new_job_def)
  have "1 \<le> Priority job \<and> Priority job \<le> 3"
    by (auto simp: job_def new_job_def normalise_def PriorityNormal_def)
  then have fits: "store_fits b (Priority job)" "store_fits b (RetryCount job)" "store_fits b (MaxRetries job)"
    by (auto simp: store_fits_def int32_def job)
  have js: "jsonable (payload_val (Payload job))" using req(3)
    by (auto simp: job_def new_job_def normalise_def payload_val_def split: option.splits)
  from cfg.save_ok [OF assms(1,2) _ _ js fits] assms(3) job obtain w1 where
    w1: "SaveJob (main_store b) job w = (Inr (), w1)" "healthy w1" "store_inv b w1" "clock w1 = clock w"
    "store_view b w1 = spec_save (store_norm b) job (store_view b w)" by auto
  let ?w2 = "count_submitted (QueueType job) w1"
  have t: "table ?w2 = table w1" by (simp add: count_submitted_def)
  have "healthy ?w2" "clock ?w2 = clock w" using w1(2,4) by (simp_all add: count_submitted_def)
  moreover have "CreateJob (main_store b) uuid body (p, r, w) = dispatch job (p, r, ?w2)"
    using req(1,2) w1(1) unfolding job_def by (simp add: CreateJob_def dispatch_def Let_def)
  ultimately show ?thesis
    using w1(3,5) cfg.inv_table [OF t, of b] cfg.view_table [OF t, of b] job(1)
    unfolding job_def [symmetric] by (intro exI [of _ ?w2]) (simp add: spec_save_def)
qed

text \<open>
  Every valid submission is accepted, and the job goes to one place. With a working database, a
  fresh ID, room in the queues and the pool in any state it can reach, a request with a job type and
  a payload is answered with 201, and the job is added either to one queue or, if it is super-urgent
  and a normal job is running, to one worker's slot.
\<close>

lemma create_job_accepted:
  assumes "healthy w" "store_inv b w" "store_view b w uuid = None" "pool_reach s"
    and req: "decode_request body = Some req" "req_JobType req \<noteq> ''''" "jsonable (payload_val (req_Payload req))"
    and room: "\<not> sclosed (PriorityQ r)" "memq_room (FIFO r) 1" "memq_room (inner (RateLimited r)) 1"
  shows "\<exists>p' r' w' job. job = new_job uuid (clock w) (normalise req) \<and>
    CreateJob (main_store b) uuid body (pl s, r, w) = (Inr (201, RJobCreated uuid StatusPending), p', r', w') \<and>
    (all_jobs r' = add_mset job (all_jobs r) \<and> p' = pl s \<or>
     r' = r \<and> Priority job = PrioritySuperUrgent \<and>
       slot_jobs (preemptQueue p') = add_mset job (slot_jobs (preemptQueue (pl s))))"
proof -
  define job where "job = new_job uuid (clock w) (normalise req)"
  have job: "ID job = uuid" "Status job = StatusPending" "RetryCount job = 0" "MaxRetries job = 3"
    "QueueType job = req_Queue (normalise req)"
    by (simp_all add: job_def new_job_def)
  obtain w2 where C: "CreateJob (main_store b) uuid body (pl s, r, w) = dispatch job (pl s, r, w2)"
    using CreateJob_saved [OF assms(1-3) req, of "pl s" r] unfolding job_def by blast
  have E: "\<exists>r'. enqueue_created job (p, r, w3) = (Inr (201, RJobCreated uuid StatusPending), p, r', w3) \<and>
      all_jobs r' = add_mset job (all_jobs r)" for p w3
    using Router_Enqueue_room [OF room, of job w3] by (auto simp: enqueue_created_def job)
  have "\<exists>p' r' w'. dispatch job (pl s, r, w2) = (Inr (201, RJobCreated uuid StatusPending), p', r', w') \<and>
    (all_jobs r' = add_mset job (all_jobs r) \<and> p' = pl s \<or>
     r' = r \<and> Priority job = PrioritySuperUrgent \<and>
       slot_jobs (preemptQueue p') = add_mset job (slot_jobs (preemptQueue (pl s))))"
  proof (cases "Priority job = PrioritySuperUrgent")
    case False
    with E [of "pl s" w2] show ?thesis by (auto simp: dispatch_def)
  next
    case True
    obtain x p3 w3 where P: "Preempt job (pl s) w2 = (x, p3, w3)" by (metis surj_pair)
    show ?thesis
    proof (cases x)
      case (Inl e)
      with P Preempt_no_panic [OF assms(4), of job w2] have "\<not> is_panic e" by (cases e) auto
      moreover have "p3 = pl s" using preempt_from_cases [of job 0 "pl s" w2 x p3 w3] P Inl by (simp add: Preempt_def)
      ultimately show ?thesis using E [of "pl s" w3] P Inl True by (auto simp: dispatch_def)
    next
      case (Inr v)
      with P Preempt_slot [OF assms(4), of job w2 v p3 w3] True show ?thesis by (simp add: dispatch_def job)
    qed
  qed
  with C job_def show ?thesis by auto
qed

section \<open>Manual retry\<close>

text \<open>
  C34. What a retry request does. An unknown job is answered with 404 and a job that has not failed with
  400, both without effect; a failed job is pending again with three more attempts allowed, and is
  added to the FIFO queue whatever its type.
\<close>

theorem retry_job_answers:
  assumes "healthy w" "store_inv b w" "memq_room (FIFO r) 1" "\<And>j. store_view b w i = Some j \<Longrightarrow> store_fits b (MaxRetries j + 3)"
  shows "case store_view b w i of
      None \<Rightarrow> RetryJob (main_store b) i r w = (Inr (404, RError ''job not found''), r, w)
    | Some j \<Rightarrow>
        if Status j \<noteq> StatusFailed
        then RetryJob (main_store b) i r w = (Inr (400, RError ''only failed jobs can be retried''), r, w)
        else \<exists>r' w' j'. RetryJob (main_store b) i r w = (Inr (200, RJobCreated i ''pending''), r', w') \<and>
          store_view b w' = (store_view b w)(i \<mapsto> j') \<and> Status j' = StatusPending \<and>
          MaxRetries j' = MaxRetries j + 3 \<and> ErrorMessage j' = '''' \<and>
          mset (jobs (FIFO r')) = add_mset j' (mset (jobs (FIFO r))) \<and>
          PriorityQ r' = PriorityQ r \<and> RateLimited r' = RateLimited r"
proof (cases "store_view b w i")
  case None
  with assms(1,2) show ?thesis by (simp add: RetryJob_def cfg.get_ok writeError_def)
next
  case (Some j)
  show ?thesis
  proof (cases "Status j = StatusFailed")
    case False
    with Some assms(1,2) show ?thesis by (simp add: RetryJob_def cfg.get_ok writeError_def)
  next
    case True
    from mqs.retry_ok_queue [OF assms(1,2) Some True assms(4) [OF Some] assms(3)] obtain q' w' j' where
      "retry_with MemoryQueue_Enqueue (main_store b) i 3 (FIFO r) w = (Inr (), q', w')"
      "j' = j\<lparr>Status := StatusPending, RetryCount := store_reset b (RetryCount j), MaxRetries := MaxRetries j + 3,
        ErrorMessage := '''', UpdatedAt := clock w\<rparr>"
      "store_view b w' = (store_view b w)(i \<mapsto> j')" "mset (jobs q') = add_mset j' (mset (jobs (FIFO r)))" by blast
    with Some True assms(1,2) show ?thesis
      by (simp add: RetryJob_def cfg.get_ok Router_Retry_def on_defs MemoryQueue_Retry_def)
  qed
qed

theorem retry_job_answers_witness:
  "fst (RetryJob (main_store ''sqlite'') ''c'' sample_router sample_world) = Inr (200, RJobCreated ''c'' ''pending'')"
proof -
  have q: "memq_room (FIFO sample_router) 1" by (simp add: sample_router_def NewRouter_def)
  show ?thesis
    using retry_job_answers [OF sample_healthy(2) sample_inv(2) q, of "''sqlite''" "''c''"]
    by (auto simp: sample_view store_fits_def)
qed

end
