(* ===== verification/Server_Properties.thy ===== *)
theory Server_Properties
  imports Server Api_Properties
begin

text \<open>Properties of the server's startup and shutdown and of the email conversation.\<close>

section \<open>Startup and shutdown\<close>

definition rate_ok :: "Config \<Rightarrow> bool" where
  "rate_ok cfg \<longleftrightarrow> 0 < EmailsPerMinute (RateLimit cfg) \<and> EmailsPerMinute (RateLimit cfg) \<le> Minute"

lemma new_router_ok:
  assumes "rate_ok cfg" "0 < Workers (Queue cfg)" "int64 (Workers (Queue cfg) * 10)"
  shows "\<exists>r. new_router cfg = Inr r \<and> all_jobs r = {#} \<and> \<not> sclosed (PriorityQ r) \<and>
    (\<forall>n. int n \<le> Workers (Queue cfg) * 10 \<longrightarrow> memq_room (FIFO r) n \<and> memq_room (inner (RateLimited r)) n)"
proof -
  let ?m = "\<lparr>jobs = [], cap = nat (Workers (Queue cfg) * 10), closed = False, done_closed = False, jobs_closed = False\<rparr>"
  let ?l = "\<lparr>inner = ?m, rate = EmailsPerMinute (RateLimit cfg), burst = Burst (RateLimit cfg),
    tokens = Burst (RateLimit cfg), stop_closed = False\<rparr>"
  have m: "NewMemoryQueue (Workers (Queue cfg) * 10) = Inr ?m" using assms(2) by (simp add: NewMemoryQueue_def)
  have "\<exists>n. startRefill ?l = Inr n" unfolding startRefill_ok using assms(1) by (simp add: rate_ok_def)
  with m have "NewRateLimitedQueue (Workers (Queue cfg) * 10) (EmailsPerMinute (RateLimit cfg)) (Burst (RateLimit cfg)) = Inr ?l"
    by (auto simp: NewRateLimitedQueue_def Let_def)
  with m assms(3) show ?thesis
    by (auto simp: new_router_def Let_def NewRouter_def NewSortedQueue_def all_jobs_def memq_room_def)
qed

text \<open>The startup on a legal input, step by step.\<close>

lemma startup_ok:
  assumes "LoadConfig None (Inr cfg) = Inr cfg" "rate_ok cfg" "int64 (Workers (Queue cfg) * 10)" "healthy w"
    "store_inv (Backend (DatabaseCfg cfg)) w"
    "int (card (active_ids (\<lambda>j. True) (store_view (Backend (DatabaseCfg cfg)) w))) \<le> Workers (Queue cfg) * 10"
  shows "\<exists>p r w'. startup None (Inr cfg) None w = (Inr (main_store (Backend (DatabaseCfg cfg)), p, r), w') \<and>
    ExpectedWorkers p = Workers (Queue cfg) \<and>
    (\<forall>i j. store_view (Backend (DatabaseCfg cfg)) w i = Some j \<longrightarrow> (0 < copies i (all_jobs r) \<longleftrightarrow> active j))"
proof -
  let ?b = "Backend (DatabaseCfg cfg)"
  have wk: "0 < Workers (Queue cfg)" using assms(1) by (simp add: LoadConfig_valid)
  have st: "open_store cfg None w = (Inr (main_store ?b), w)"
    using assms(4) by (simp add: open_store_def main_store_def NewPostgresStorage_def NewSQLiteStorage_def migrate_def pgMigrate_def)
  from new_router_ok [OF assms(2) wk assms(3)] obtain r0 where r0: "new_router cfg = Inr r0" "all_jobs r0 = {#}"
    "\<not> sclosed (PriorityQ r0)" "\<forall>n. int n \<le> Workers (Queue cfg) * 10 \<longrightarrow>
      memq_room (FIFO r0) n \<and> memq_room (inner (RateLimited r0)) n" by blast
  have "\<exists>p. new_pool cfg = Inr p \<and> worker_count p = nat (Workers (Queue cfg))"
    using wk by (simp add: new_pool_def NewPool_def)
  then obtain p where p: "new_pool cfg = Inr p" "worker_count p = nat (Workers (Queue cfg))" by blast
  from r0(4) assms(6) have room: "memq_room (FIFO r0) (card (active_ids (\<lambda>j. True) (store_view ?b w)))"
    "memq_room (inner (RateLimited r0)) (card (active_ids (\<lambda>j. True) (store_view ?b w)))" by blast+
  from Router_Recover_copies [OF assms(4,5) r0(3) room] obtain r w' where
    rc: "Router_Recover (main_store ?b) r0 w = (Inr (), r, w')"
    "\<And>i j. store_view ?b w i = Some j \<Longrightarrow> copies i (all_jobs r) = copies i (all_jobs r0) +
       (if \<not> active j then 0 else if QueueType j = QueueTypePriority then 3 else 2)" by blast
  have "copies i (all_jobs r0) = 0" for i by (simp add: r0(2) copies_def)
  with rc(2) have "0 < copies i (all_jobs r) \<longleftrightarrow> active j" if "store_view ?b w i = Some j" for i j using that by simp
  with assms(1) st r0(1) p rc(1) wk show ?thesis
    by (simp add: startup_def Let_def ExpectedWorkers_def Start_def)
qed


definition sample_config :: Config where
  "sample_config = \<lparr>ServerCfg = \<lparr>Port = 8080\<rparr>, Queue = \<lparr>Workers = 5, DemoDelaySec = 0, CooldownSec = 0\<rparr>,
     Email = \<lparr>Mode = ''test'', SMTPHost = ''smtp.gmail.com'', SMTPPort = 587, SMTPUser = '''', SMTPPass = '''',
       TestHost = ''mailpit'', TestPort = 1025, TestUser = ''rjq@localhost'', TestPass = ''''\<rparr>,
     Retry = \<lparr>MaxAttempts = 3, BackoffSeconds = 5\<rparr>, Timeout = \<lparr>JobSeconds = 30\<rparr>,
     RateLimit = \<lparr>EmailsPerMinute = 2, Burst = 10\<rparr>,
     DatabaseCfg = \<lparr>Backend = ''postgres'', SQLitePath = ''rjq.db'', PostgresDSN = ''postgres://localhost/rjq''\<rparr>\<rparr>"

lemma sample_startup_legal:
  "LoadConfig None (Inr sample_config) = Inr sample_config" "rate_ok sample_config" "int64 (Workers (Queue sample_config) * 10)"
  "int (card (active_ids (\<lambda>j. True) (store_view (Backend (DatabaseCfg sample_config)) sample_world))) \<le>
     Workers (Queue sample_config) * 10"
  "Backend (DatabaseCfg sample_config) = ''postgres''" "Workers (Queue sample_config) = 5"
proof -
  have "card (active_ids (\<lambda>j. True) (store_view ''postgres'' sample_world)) \<le> 3"
    using sample_card [of "''postgres''" "\<lambda>j. active j \<and> True"] by (simp add: active_ids_def)
  then show "int (card (active_ids (\<lambda>j. True) (store_view (Backend (DatabaseCfg sample_config)) sample_world))) \<le>
      Workers (Queue sample_config) * 10" by (simp add: sample_config_def)
qed (simp_all add: LoadConfig_def rate_ok_def sample_config_def int64_def duration_defs)

lemma sample_startup:
  obtains p r w' where "startup None (Inr sample_config) None sample_world = (Inr (main_store ''postgres'', p, r), w')"
    "ExpectedWorkers p = 5"
    "\<forall>i j. store_view ''postgres'' sample_world i = Some j \<longrightarrow> (0 < copies i (all_jobs r) \<longleftrightarrow> active j)"
proof -
  note c = sample_startup_legal
  from startup_ok [OF c(1-3) sample_healthy(2) _ c(4)] c(5,6) show ?thesis by (auto intro: that)
qed


text \<open>
  A configuration that is accepted and does not start. The checks of \<open>LoadConfig\<close> do not cover the
  rate limit: with a rate of zero mails per minute every configuration they accept ends the process
  with a division by zero while the rate-limited queue is built, before any job is recovered.
\<close>

lemma startup_rate_unchecked:
  assumes "LoadConfig None (Inr cfg) = Inr cfg" "EmailsPerMinute (RateLimit cfg) = 0"
    "int64 (Workers (Queue cfg) * 10)" "healthy w"
  shows "startup None (Inr cfg) None w = (Inl (Panic ''runtime error: integer divide by zero''), w)"
proof -
  have "open_store cfg None w = (Inr (main_store (Backend (DatabaseCfg cfg))), w)"
    using assms(4) by (simp add: open_store_def main_store_def NewPostgresStorage_def NewSQLiteStorage_def migrate_def pgMigrate_def)
  moreover have "0 < Workers (Queue cfg)" using assms(1) by (simp add: LoadConfig_valid)
  ultimately show ?thesis using assms
    by (simp add: startup_def new_router_def Let_def NewMemoryQueue_def NewRateLimitedQueue_def startRefill_def)
qed

section \<open>Sending a mail\<close>



end
