(* ===== verification/Job_Lifecycle.thy ===== *)
theory Job_Lifecycle
  imports Server_Properties
begin

text \<open>
  A job followed from its submission over HTTP, through the queue and a round of a worker, to its
  completion or its first failed attempt.
\<close>

section \<open>From submission to completion\<close>

text \<open>A job put into empty queues with a token in the bucket is what the next poll returns.\<close>

lemma enqueue_then_poll:
  assumes "all_jobs r = {#}" "\<not> sclosed (PriorityQ r)" "memq_room (FIFO r) 1" "memq_room (inner (RateLimited r)) 1"
    "0 < tokens (RateLimited r)" "0 < d"
  shows "\<exists>r1 r2. Router_Enqueue j r w = (Inr (), r1, w) \<and> memq_room (FIFO r2) 1 \<and>
    (\<forall>w'. Router_DequeueOrWait d (\<lambda>n. (False, False, False)) r1 w' = Some (Some j, r2, w'))"
proof -
  from assms(1) have e: "sjobs (PriorityQ r) = []" "jobs (FIFO r) = []" "jobs (inner (RateLimited r)) = []"
    by (simp_all add: all_jobs_def)
  note simps = Router_Enqueue_def on_defs RateLimitedQueue_Enqueue_def on_inner_def MemoryQueue_Enqueue_def
    SortedQueue_Enqueue_def insertLocked_eq insert_job_def Router_DequeueOrWait_def Router_wait_until.simps poll_defs
    memq_room_def
  consider "QueueType j = QueueTypePriority" | "QueueType j = QueueTypeRateLimited" "QueueType j \<noteq> QueueTypePriority"
    | "QueueType j \<noteq> QueueTypePriority" "QueueType j \<noteq> QueueTypeRateLimited" by blast
  then show ?thesis by cases (use assms(2-6) e in \<open>simp_all add: simps\<close>)
qed

text \<open>A round of a worker with an empty slot whose poll delivers a job settles that job.\<close>

lemma worker_round_settled:
  assumes "healthy w" "store_inv b w" "store_view b w (ID job) = Some j" "store_fits b (next_count j)"
    and poll: "preemptQueue p ! i = None" "Router_DequeueOrWait (100 * Millisecond) arms r w = Some (Some job, r2, w)"
      "memq_room (FIFO r2) 1"
    and process: "\<And>c job p1 r1 w1. healthy w1 \<Longrightarrow> \<exists>p2 w2. process c job (p1, r1, w1) = (Returned err, p2, r1, w2) \<and>
      table w2 = table w1 \<and> healthy w2 \<and> contexts p2 ! c \<noteq> CtxCanceled"
  shows "\<exists>s cx t. worker_round (main_store b) process arms i (p, r, w) = Some (Inr (), s) \<and> cx \<noteq> CtxCanceled \<and>
    store_view b (snd (snd s)) = (store_view b w)(ID job \<mapsto> settled err cx (clock w) t j)"
proof -
  let ?p = "snd (take_slot i p)" and ?w = "begin_job (main_store b) job w"
  have "healthy (add_busy 1 ?w)" using begin_job_ok(1) [OF assms(1-3)] by (simp add: add_busy_def)
  from process [OF this, of "length (contexts ?p)" job "snd (register i job ?p)" r2] obtain p3 w3 where
    run: "process (length (contexts ?p)) job (snd (register i job ?p), r2, add_busy 1 ?w) = (Returned err, p3, r2, w3)"
    "table w3 = table ?w" "healthy w3" "contexts p3 ! length (contexts ?p) \<noteq> CtxCanceled"
    by (auto simp: add_busy_def)
  from processJob_settled [where process = process and p = ?p and i = i, OF assms(1-4) run(1-3) poll(3)] obtain r' w' where
    P: "processJob (main_store b) process i job (?p, r2, w) = (Inr (), unregister i (length (contexts ?p)) p3, r', w')"
    "store_view b w' = (store_view b w)(ID job \<mapsto> settled err (contexts p3 ! length (contexts ?p)) (clock w) (clock w3) j)"
    by blast
  let ?p4 = "unregister i (length (contexts ?p)) p3"
  have "worker_round (main_store b) process arms i (p, r, w) = Some (Inr (), ?p4, r', cool_down (Inr ()) ?p4 w')"
    using poll(1,2) P(1) by (simp add: worker_round_def take_slot_def)
  moreover have "store_view b (cool_down (Inr ()) ?p4 w') = store_view b w'"
    by (rule cfg.view_table) (simp add: cool_down_def)
  ultimately show ?thesis using P(2) run(4) by fastforce
qed

text \<open>
  C17. A job's way through the server. A valid submission that is not super-urgent, on an idle server
  with a working database, is answered with 201, and the next round of a worker runs it: when the
  processor succeeds the job is stored as completed, when it fails (and the job was not preempted) as
  pending with one attempt counted; its type is the one requested and no other job changed.
\<close>

theorem submitted_job_runs:
  assumes "healthy w" "store_inv b w" "store_view b w uuid = None"
    and req: "decode_request body = Some req" "req_JobType req \<noteq> ''''" "jsonable (payload_val (req_Payload req))"
      "req_Priority req \<noteq> 3"
    and idle: "all_jobs r = {#}" "\<not> sclosed (PriorityQ r)" "memq_room (FIFO r) 1"
      "memq_room (inner (RateLimited r)) 1" "0 < tokens (RateLimited r)" "preemptQueue p ! i = None"
    and process: "\<And>c job p1 r1 w1. healthy w1 \<Longrightarrow> \<exists>p2 w2. process c job (p1, r1, w1) = (Returned err, p2, r1, w2) \<and>
      table w2 = table w1 \<and> healthy w2 \<and> contexts p2 ! c \<noteq> CtxCanceled"
  shows "\<exists>p1 r1 w1 s j. CreateJob (main_store b) uuid body (p, r, w) = (Inr (201, RJobCreated uuid StatusPending), p1, r1, w1) \<and>
    worker_round (main_store b) process (\<lambda>n. (False, False, False)) i (p1, r1, w1) = Some (Inr (), s) \<and>
    store_view b (snd (snd s)) = (store_view b w)(uuid \<mapsto> j) \<and> JobType j = req_JobType req \<and>
    (if err = None then Status j = StatusCompleted \<and> RetryCount j = 0
     else Status j = StatusPending \<and> RetryCount j = 1)"
proof -
  define job where "job = new_job uuid (clock w) (normalise req)"
  define sj where "sj = stored (store_norm b) job"
  have job: "ID job = uuid" "Status job = StatusPending" "Priority job \<noteq> PrioritySuperUrgent"
    using req(4) by (auto simp: job_def new_job_def normalise_def PriorityNormal_def PrioritySuperUrgent_def)
  have sj: "RetryCount sj = 0" "MaxRetries sj = 3" "JobType sj = req_JobType req" "next_count sj = 1"
    by (simp_all add: sj_def stored_def job_def new_job_def normalise_def next_count_def wrap64_def)
  obtain w1 where w1: "CreateJob (main_store b) uuid body (p, r, w) = dispatch job (p, r, w1)" "healthy w1" "store_inv b w1"
    "store_view b w1 = (store_view b w)(uuid \<mapsto> sj)"
    using CreateJob_saved [OF assms(1-3) req(1-3), of p r] unfolding job_def sj_def by blast
  from enqueue_then_poll [OF idle(1-5), of "100 * Millisecond" job w1] obtain r1 r2 where
    q: "Router_Enqueue job r w1 = (Inr (), r1, w1)" "memq_room (FIFO r2) 1"
    "Router_DequeueOrWait (100 * Millisecond) (\<lambda>n. (False, False, False)) r1 w1 = Some (Some job, r2, w1)"
    by (auto simp: Millisecond_def)
  have v: "store_view b w1 (ID job) = Some sj" by (simp add: w1(4) job)
  have "store_fits b (next_count sj)" by (simp add: sj store_fits_def int32_def)
  from worker_round_settled [where process = process, OF w1(2,3) v this idle(6) q(3,2) process] obtain s cx t where
    s: "worker_round (main_store b) process (\<lambda>n. (False, False, False)) i (p, r1, w1) = Some (Inr (), s)" "cx \<noteq> CtxCanceled"
    "store_view b (snd (snd s)) = (store_view b w)(uuid \<mapsto> settled err cx (clock w1) t sj)"
    unfolding job(1) w1(4) by auto
  have "dispatch job (p, r, w1) = (Inr (201, RJobCreated uuid StatusPending), p, r1, w1)"
    using job q(1) by (simp add: dispatch_def enqueue_created_def)
  with w1(1) have "CreateJob (main_store b) uuid body (p, r, w) = (Inr (201, RJobCreated uuid StatusPending), p, r1, w1)"
    by simp
  moreover have "JobType (settled err cx (clock w1) t sj) = req_JobType req"
    "if err = None then Status (settled err cx (clock w1) t sj) = StatusCompleted \<and> RetryCount (settled err cx (clock w1) t sj) = 0
     else Status (settled err cx (clock w1) t sj) = StatusPending \<and> RetryCount (settled err cx (clock w1) t sj) = 1"
    using s(2) sj by (simp_all add: settled_def with_status_def after_retry_def next_count_def Let_def)
  ultimately show ?thesis using s(1,3) by blast
qed

text \<open>A processor that refuses the job after five nanoseconds.\<close>

definition failing_process :: "nat \<Rightarrow> job \<Rightarrow> shared \<Rightarrow> outcome \<times> shared" where
  "failing_process c job s = (case s of (p, r, w) \<Rightarrow>
     (Returned (Some (Err ''refused'')), p\<lparr>contexts := replicate (Suc c) CtxDeadline\<rparr>, r, w\<lparr>clock := clock w + 5\<rparr>))"

theorem submitted_job_runs_witness:
  "\<exists>p1 r1 w1 s j. CreateJob (main_store ''sqlite'') ''n'' sample_body (sample_pool, sample_router, empty_world) =
      (Inr (201, RJobCreated ''n'' ''pending''), p1, r1, w1) \<and>
    worker_round (main_store ''sqlite'') failing_process (\<lambda>n. (False, False, False)) 0 (p1, r1, w1) = Some (Inr (), s) \<and>
    store_view ''sqlite'' (snd (snd s)) ''n'' = Some j \<and> Status j = ''pending'' \<and> RetryCount j = 1"
proof -
  have i: "all_jobs sample_router = {#}" "\<not> sclosed (PriorityQ sample_router)" "memq_room (FIFO sample_router) 1"
    "memq_room (inner (RateLimited sample_router)) 1" "0 < tokens (RateLimited sample_router)" "preemptQueue sample_pool ! 0 = None"
    by (simp_all add: sample_router_def NewRouter_def NewSortedQueue_def sample_limited_def all_jobs_def sample_pool_def
        sample_queue_def memq_room_def)
  have f: "\<exists>p2 w2. failing_process c job (p1, r1, w1) = (Returned (Some (Err ''refused'')), p2, r1, w2) \<and>
      table w2 = table w1 \<and> healthy w2 \<and> contexts p2 ! c \<noteq> CtxCanceled" if "healthy w1" for c job p1 r1 w1
    using that by (simp add: failing_process_def del: replicate_Suc)
  show ?thesis
    using submitted_job_runs [where b = "''sqlite''" and uuid = "''n''" and process = failing_process and i = 0,
        OF sample_healthy(1) sample_inv(1) sample_view(1) sample_decode _ _ _ i f]
    by (auto simp: payload_val_def StatusPending_def)
qed

end
