(* ===== verification/Server_Frames.thy ===== *)
theory Server_Frames
  imports Server_Properties Api_Reads Storage_Metrics
begin

text \<open>
  What each operation of the server leaves alone, under any answers of the database driver: the
  identity of every stored job (\<open>kept\<close>); a job that it does not deal with, in the store and in the
  queues (\<open>spares\<close>); and the invariants of the queues (\<open>router_inv\<close>).
\<close>

section \<open>The operations of the server, by cases\<close>

lemma CreateJob_dispatch:
  assumes "CreateJob S uuid body (p, r, w) = (x, p', r', w')"
  obtains (nothing) "(p', r', w') = (p, r, w)"
  | (not_saved) job e w1 where "SaveJob S job w = (Inl e, w1)" "(p', r', w') = (p, r, w1)" "Status job = StatusPending"
  | (saved) job w1 where "ID job = uuid" "SaveJob S job w = (Inr (), w1)"
      "dispatch job (p, r, count_submitted (QueueType job) w1) = (x, p', r', w')"
      "Status job = StatusPending"
proof (cases "\<exists>req. decode_request body = Some req \<and> req_JobType req \<noteq> ''''")
  case False
  with assms have "(p', r', w') = (p, r, w)" by (auto simp: CreateJob_def split: option.splits if_splits)
  then show ?thesis by (rule nothing)
next
  case True
  then obtain req where req: "decode_request body = Some req" "req_JobType req \<noteq> ''''" by blast
  let ?j = "new_job uuid (clock w) (normalise req)"
  obtain y w1 where s: "SaveJob S ?j w = (y, w1)" by (metis surj_pair)
  show ?thesis
  proof (cases y)
    case (Inl e)
    with assms req s have "(p', r', w') = (p, r, w1)" by (simp add: CreateJob_def Let_def)
    with s Inl show ?thesis by (intro not_saved) (auto simp: new_job_def)
  next
    case (Inr u)
    with assms req s have "dispatch ?j (p, r, count_submitted (QueueType ?j) w1) = (x, p', r', w')"
      by (simp add: CreateJob_def dispatch_def Let_def)
    with saved [of ?j w1] Inr s show ?thesis by (simp add: new_job_def)
  qed
qed

lemma serve_cases:
  assumes "serve match S html uuid req s = (resp, s')"
  obtains "s' = s" | ep i x where "match RegisterRoutes req = Inr (ep, i)" "handle S html uuid ep i (req_body req) s = (x, s')"
  using assms by (auto simp: serve_def split: sum.splits prod.splits)

section \<open>What each part leaves alone of the metrics\<close>

text \<open>No request changes the gauge of the busy workers; a read changes no metric.\<close>

lemma Router_Enqueue_metrics: "Router_Enqueue j r w = (x, r', w') \<Longrightarrow> metrics w' = metrics w"
  by (auto simp: Router_Enqueue_def on_defs RateLimitedQueue_Enqueue_def on_inner_def split: prod.splits if_splits
      dest: mq.enq_world(3) sq.enq_world(3))

lemma preempt_from_busy:
  "preempt_from job i p w = (x, p', w') \<Longrightarrow> WorkersBusy (metrics w') = WorkersBusy (metrics w)"
proof (induction job i p w rule: preempt_from.induct)
  case (1 job i p w)
  from "1.prems" show ?case
    by (subst (asm) preempt_from.simps) (auto simp: Let_def split: if_splits option.splits dest: "1.IH")
qed

lemma dispatch_busy: "dispatch job (p, r, w) = (x, p', r', w') \<Longrightarrow> WorkersBusy (metrics w') = WorkersBusy (metrics w)"
  by (auto simp: dispatch_def enqueue_created_def Preempt_def split: prod.splits sum.splits if_splits
      dest!: preempt_from_busy Router_Enqueue_metrics)

lemma handler_metrics:
  "metrics (snd (api_GetJob (main_store b) i w)) = metrics w"
  "metrics (snd (GetStats (main_store b) r w)) = metrics w"
  "metrics (snd (ListJobs (main_store b) w)) = metrics w"
  "metrics (snd (GetProcessing (main_store b) w)) = metrics w"
  "metrics (snd (GetPending (main_store b) w)) = metrics w"
  "metrics (snd (list_queue (main_store b) t w)) = metrics w"
  "metrics (snd (GetCounts (main_store b) w)) = metrics w"
  "metrics (snd (Metrics_page w)) = metrics w"
  by (auto simp: api_GetJob_def GetStats_def ListJobs_def GetProcessing_def GetPending_def list_queue_def GetCounts_def
      Metrics_page_def list_reply_def Collect_def split: prod.splits sum.splits option.splits answer.splits
      dest!: reads_metrics count_metrics stmt_eq_frame(3))

lemma handle_read_metrics:
  assumes "ep \<noteq> EpCreateJob" "ep \<noteq> EpRetryJob" "handle (main_store b) html uuid ep i body (p, r, w) = (x, p', r', w')"
  shows "metrics w' = metrics w"
proof -
  have "\<exists>f. handle (main_store b) html uuid ep i body (p, r, w) = reading f (p, r, w) \<and> metrics (snd (f w)) = metrics w"
    using assms(1,2) by (cases ep)
      (force simp: handler_metrics GetPendingFIFO_def GetPendingPriority_def GetPendingRateLimited_def)+
  then obtain f where f: "handle (main_store b) html uuid ep i body (p, r, w) = reading f (p, r, w)"
    "metrics (snd (f w)) = metrics w" by blast
  with assms(3) show ?thesis by (cases "f w") (auto simp: reading_def)
qed

section \<open>What each part keeps of the table\<close>

text \<open>
  A preorder on worlds that every storage operation respects (\<open>storage_preorder\<close>) is respected by every
  operation of the server.
\<close>

locale server_preorder = storage_preorder "main_store b" R admitted
  for b :: string and R :: "world \<Rightarrow> world \<Rightarrow> bool" and admitted :: "string \<Rightarrow> bool"

sublocale server_preorder \<subseteq> fifo: queue_preorder "main_store b" R admitted MemoryQueue_Enqueue
  by unfold_locales (rule mq.enq_world(1,3), assumption)+

sublocale server_preorder \<subseteq> prio: queue_preorder "main_store b" R admitted SortedQueue_Enqueue
  by unfold_locales (rule sq.enq_world(1,3), assumption)+

context server_preorder
begin

lemma router_R:
  "Router_Ack (main_store b) i w = (x, w') \<Longrightarrow> R w w'"
  "Router_Nack (main_store b) i r w = (x, r', w') \<Longrightarrow> R w w'"
  "Router_Requeue (main_store b) i r w = (x, r', w') \<Longrightarrow> R w w'"
  "0 \<le> n \<Longrightarrow> Router_Retry (main_store b) i n r w = (x, r', w') \<Longrightarrow> R w w'"
  unfolding Router_Ack_def MemoryQueue_Ack_def Router_Nack_def MemoryQueue_Nack_def Router_Requeue_def
    MemoryQueue_Requeue_def Router_Retry_def MemoryQueue_Retry_def on_fifo_def
  by (auto split: prod.splits intro: fifo.ack_R fifo.nack_R fifo.requeue_R fifo.retry_R)

lemma queue_recover_R:
  "MemoryQueue_Recover (main_store b) q w = (x, q', w') \<Longrightarrow> R w w'"
  "SortedQueue_Recover (main_store b) s w = (x, s', w') \<Longrightarrow> R w w'"
  unfolding MemoryQueue_Recover_def SortedQueue_Recover_def
  by (rule fifo.recover_R [of count_recovered] prio.recover_R [of "\<lambda>m. m"]; simp add: count_recovered_def)+

lemma queue_sweep_R:
  "MemoryQueue_sweep (main_store b) q w = (q', w') \<Longrightarrow> R w w'"
  "SortedQueue_sweep (main_store b) s w = (s', w') \<Longrightarrow> R w w'"
  "RateLimitedQueue_sweep (main_store b) l w = (u, l', w') \<Longrightarrow> R w w'"
  unfolding MemoryQueue_sweep_def SortedQueue_sweep_def RateLimitedQueue_sweep_def on_inner_def
  by (auto split: prod.splits dest: fifo.sweep_R prio.sweep_R)

lemma Router_Recover_R: "Router_Recover (main_store b) r w = (x, r', w') \<Longrightarrow> R w w'"
  by (auto simp: Router_Recover_def on_defs RateLimitedQueue_Recover_def on_inner_def split: prod.splits sum.splits
      dest!: queue_recover_R intro: R_trans)

lemma CreateJob_R:
  assumes "CreateJob (main_store b) uuid body (p, r, w) = (x, p', r', w')"
  shows "R w w'"
  using assms
proof (cases rule: CreateJob_dispatch)
  case (not_saved job e w1)
  with R_eqs(3) [OF _ not_saved(1)] show ?thesis by simp
next
  case (saved job w1)
  from dispatch_table [OF saved(3)] dispatch_busy [OF saved(3)] have "table w' = table w1"
    "WorkersBusy (metrics w') = WorkersBusy (metrics w1)" by (simp_all add: count_submitted_def)
  moreover have "R w w1" using R_eqs(3) [OF _ saved(2)] saved(4) by simp
  ultimately show ?thesis using R_then by blast
qed (simp add: R_table)

lemma RetryJob_R: "RetryJob (main_store b) i r w = (x, r', w') \<Longrightarrow> R w w'"
  by (auto simp: RetryJob_def split: prod.splits sum.splits option.splits if_splits
      dest!: R_eqs(1) router_R(4) [of 3, simplified] intro: R_trans)

lemma settle_R: "settle_job (main_store b) err cx i r w = (x, r', w') \<Longrightarrow> R w w'"
  by (auto simp: settle_job_def split: option.splits if_splits prod.splits dest: router_R(1-3))

lemma begin_R:
  assumes "admitted StatusProcessing"
  shows "R w (begin_job (main_store b) job w)"
proof -
  let ?w = "w\<lparr>metrics := (metrics w)\<lparr>JobWaitDuration :=
    observe_label (QueueType job) (clock w - CreatedAt job) (JobWaitDuration (metrics w))\<rparr>\<rparr>"
  obtain x w' where u: "set_processing (main_store b) (ID job) ?w = (x, w')" by (metis surj_pair)
  have "R w ?w" by (rule R_table; simp)
  moreover have "R ?w w'" by (rule fifo.set_processing_R [OF assms u])
  moreover have "begin_job (main_store b) job w = w'"
    using u by (simp add: begin_job_def Let_def Router_SetProcessing_def MemoryQueue_SetProcessing_def)
  ultimately show ?thesis using R_trans by blast
qed

text \<open>A request: reading handlers keep the table, the two others were dealt with above.\<close>

lemma handle_R:
  assumes "handle (main_store b) html uuid ep i body (p, r, w) = (x, p', r', w')"
  shows "R w w'"
proof (cases "ep = EpCreateJob \<or> ep = EpRetryJob")
  case True
  with assms show ?thesis by (auto split: prod.splits dest: CreateJob_R RetryJob_R)
next
  case False
  then have "table w' = table w" "metrics w' = metrics w"
    using handle_read [OF _ _ assms] handle_read_metrics [OF _ _ assms] by blast+
  then show ?thesis by (simp add: R_table)
qed

lemma serve_R:
  "serve match (main_store b) html uuid req (p, r, w) = (resp, p', r', w') \<Longrightarrow> R w w'"
  by (erule serve_cases) (auto simp: R_table dest: handle_R)

end

abbreviation kept :: "string \<Rightarrow> world \<Rightarrow> world \<Rightarrow> bool" where
  "kept b \<equiv> keeps_jobs (store_view b) (store_inv b)"

abbreviation calmed :: "string \<Rightarrow> world \<Rightarrow> world \<Rightarrow> bool" where
  "calmed b \<equiv> calms (store_view b) (store_inv b)"

interpretation kept_by: server_preorder b "kept b" "\<lambda>_. True" for b :: string
  by unfold_locales

interpretation calmed_by: server_preorder b "calmed b" "\<lambda>st. st \<noteq> StatusProcessing" for b :: string
  by unfold_locales

text \<open>The gauge of the busy workers is the third relation that every operation of the server keeps.\<close>

abbreviation same_busy :: "world \<Rightarrow> world \<Rightarrow> bool" where
  "same_busy w w' \<equiv> WorkersBusy (metrics w') = WorkersBusy (metrics w)"

lemma same_gauge: "gauges (metrics w') = gauges (metrics w) \<Longrightarrow> same_busy w w'"
  by (simp add: gauges_def)

interpretation busy_by: server_preorder b same_busy "\<lambda>_. True" for b :: string
proof unfold_locales
  fix w i j st msg n
  show "same_busy w (snd (GetJob (main_store b) i w))" "same_busy w (snd (ListPendingJobs (main_store b) w))"
    by (metis reads_metrics(1,2) prod.collapse)+
  show "same_busy w (snd (SaveJob (main_store b) j w))" "same_busy w (snd (UpdateJobStatus (main_store b) i st msg w))"
    "same_busy w (snd (UpdateJobRetry (main_store b) i st n msg w))" "same_busy w (snd (Requeue (main_store b) i w))"
    "same_busy w (snd (ResetForRetry (main_store b) i n w))"
    by (metis same_gauge storage_gauges prod.collapse)+
qed simp_all

lemmas kept_table = cfg.keeps_jobs_table and kept_trans = cfg.kept.R_trans

lemma kept_then: "kept b w w1 \<Longrightarrow> table w2 = table w1 \<Longrightarrow> kept b w w2"
  using kept_trans kept_table by blast

lemmas begin_kept = kept_by.begin_R [OF TrueI]

lemmas server_kept = kept_by.settle_R kept_by.queue_sweep_R kept_by.serve_R kept_by.Router_Recover_R

section \<open>Jobs an operation does not deal with\<close>

abbreviation spares :: "string \<Rightarrow> string \<Rightarrow> router \<Rightarrow> world \<Rightarrow> router \<Rightarrow> world \<Rightarrow> bool" where
  "spares b \<equiv> leaves_job (store_view b) (store_inv b) all_jobs"

abbreviation unchanged_at :: "string \<Rightarrow> string \<Rightarrow> world \<Rightarrow> world \<Rightarrow> bool" where
  "unchanged_at b \<equiv> same_at (store_view b) (store_inv b)"

lemma spares_trans: "spares b i r w r1 w1 \<Longrightarrow> spares b i r1 w1 r2 w2 \<Longrightarrow> spares b i r w r2 w2"
  by (simp add: leaves_job_def)

lemma spares_store: "unchanged_at b i w w' \<Longrightarrow> spares b i r w r w'"
  by (simp add: same_at_def leaves_job_def)

lemma spares_table: "table w' = table w \<Longrightarrow> all_jobs r' \<subseteq># all_jobs r \<Longrightarrow> spares b i r w r' w'"
  using cfg.same_at_table [of w' w b i] by (auto simp: same_at_def leaves_job_def dest: mset_subset_eqD)

text \<open>What a method does in one queue, the router does as a whole.\<close>

lemma spares_part:
  "leaves_job V I (\<lambda>q. mset (jobs q)) i (FIFO r) w q w' \<Longrightarrow> leaves_job V I all_jobs i r w (r\<lparr>FIFO := q\<rparr>) w'"
  "leaves_job V I (\<lambda>q. mset (sjobs q)) i (PriorityQ r) w s w' \<Longrightarrow> leaves_job V I all_jobs i r w (r\<lparr>PriorityQ := s\<rparr>) w'"
  "leaves_job V I (\<lambda>q. mset (jobs q)) i (inner (RateLimited r)) w m w' \<Longrightarrow>
    leaves_job V I all_jobs i r w (r\<lparr>RateLimited := (RateLimited r)\<lparr>inner := m\<rparr>\<rparr>) w'"
  by (auto simp: leaves_job_def all_jobs_def)

lemma Router_Enqueue_spares:
  assumes "Router_Enqueue j r w = (x, r', w')" "ID j \<noteq> i"
  shows "spares b i r w r' w'"
  using assms by (auto simp: Router_Enqueue_def on_defs RateLimitedQueue_Enqueue_def on_inner_def split: prod.splits if_splits
      intro!: spares_part dest: mqs.leaves_enq sqs.leaves_enq)

lemma Router_poll_spares: "Router_poll arms r w = Some (oj, r', w') \<Longrightarrow> spares b i r w r' w'"
  using Router_poll_returns [of arms r w] Router_poll_order(2) [of "fst arms" "fst (snd arms)" "snd (snd arms)" r w oj r' w']
  by (intro spares_table) auto

lemma begin_spares:
  assumes "ID j \<noteq> i"
  shows "spares b i r w r (begin_job (main_store b) j w)"
proof -
  let ?w = "w\<lparr>metrics := (metrics w)\<lparr>JobWaitDuration :=
    observe_label (QueueType j) (clock w - CreatedAt j) (JobWaitDuration (metrics w))\<rparr>\<rparr>"
  obtain x w' where u: "UpdateJobStatus (main_store b) (ID j) StatusProcessing '''' ?w = (x, w')" by (metis surj_pair)
  have "unchanged_at b i w ?w" by (rule cfg.same_at_table) simp
  from same_at_trans [OF this cfg.same_at_eqs(1) [OF u assms]] have "spares b i r w r w'" by (rule spares_store)
  moreover have "begin_job (main_store b) j w = w'"
    using u by (simp add: begin_job_def Let_def Router_SetProcessing_def MemoryQueue_SetProcessing_def set_processing_def)
  ultimately show ?thesis by simp
qed

lemma router_spares:
  assumes "k \<noteq> i"
  shows "Router_Ack (main_store b) k w = (x, w') \<Longrightarrow> spares b i r w r w'"
    and "Router_Nack (main_store b) k r w = (x, r', w') \<Longrightarrow> spares b i r w r' w'"
    and "Router_Requeue (main_store b) k r w = (x, r', w') \<Longrightarrow> spares b i r w r' w'"
    and "Router_Retry (main_store b) k n r w = (x, r', w') \<Longrightarrow> spares b i r w r' w'"
  using assms unfolding Router_Ack_def MemoryQueue_Ack_def ack_def Router_Nack_def MemoryQueue_Nack_def
    Router_Requeue_def MemoryQueue_Requeue_def Router_Retry_def MemoryQueue_Retry_def on_fifo_def
  by (auto split: prod.splits intro!: spares_part intro: spares_store cfg.same_at_eqs(1) mqs.nack_leaves
      mqs.requeue_leaves mqs.retry_leaves)

lemma settle_spares:
  "settle_job (main_store b) err cx k r w = (x, r', w') \<Longrightarrow> k \<noteq> i \<Longrightarrow> spares b i r w r' w'"
  by (auto simp: settle_job_def split: option.splits if_splits prod.splits dest: router_spares)

text \<open>Sweeping and recovery deal with active jobs.\<close>

lemma sweep_spares:
  assumes "\<And>j. store_view b w i = Some j \<Longrightarrow> \<not> active j"
  shows "MemoryQueue_sweep (main_store b) (FIFO r) w = (q, w') \<Longrightarrow> spares b i r w (r\<lparr>FIFO := q\<rparr>) w'"
    and "SortedQueue_sweep (main_store b) (PriorityQ r) w = (s, w') \<Longrightarrow> spares b i r w (r\<lparr>PriorityQ := s\<rparr>) w'"
    and "RateLimitedQueue_sweep (main_store b) (RateLimited r) w = (u, l, w') \<Longrightarrow> spares b i r w (r\<lparr>RateLimited := l\<rparr>) w'"
  unfolding MemoryQueue_sweep_def SortedQueue_sweep_def RateLimitedQueue_sweep_def on_inner_def
  by (auto split: prod.splits intro!: spares_part mqs.sweep_leaves sqs.sweep_leaves assms)

lemma recover_spares:
  assumes "\<And>j. store_view b w i = Some j \<Longrightarrow> \<not> active j"
  shows "on_fifo (MemoryQueue_Recover (main_store b)) r w = (x, r', w') \<Longrightarrow> spares b i r w r' w'"
    and "on_priority (SortedQueue_Recover (main_store b)) r w = (x, r', w') \<Longrightarrow> spares b i r w r' w'"
    and "on_limited (RateLimitedQueue_Recover (main_store b)) r w = (x, r', w') \<Longrightarrow> spares b i r w r' w'"
  unfolding MemoryQueue_Recover_def SortedQueue_Recover_def RateLimitedQueue_Recover_def on_inner_def on_defs
  by (auto split: prod.splits intro!: spares_part mqs.recover_leaves sqs.recover_leaves assms)

text \<open>The stored jobs that are not active stay so through all of it.\<close>

lemma spares_inactive:
  "spares b i r w r' w' \<Longrightarrow> store_inv b w \<Longrightarrow> i \<notin> ID ` set_mset (all_jobs r) \<Longrightarrow>
   (\<And>j. store_view b w i = Some j \<Longrightarrow> \<not> active j) \<Longrightarrow> store_view b w' i = Some j \<Longrightarrow> \<not> active j"
  by (simp add: leaves_job_def)

lemma Router_Recover_spares:
  assumes r: "Router_Recover (main_store b) r w = (x, r', w')" and i: "\<And>j. store_view b w i = Some j \<Longrightarrow> \<not> active j"
  shows "spares b i r w r' w'"
proof (cases "store_inv b w \<and> i \<notin> ID ` set_mset (all_jobs r)")
  case True
  obtain x1 r1 w1 where 1: "on_fifo (MemoryQueue_Recover (main_store b)) r w = (x1, r1, w1)" by (metis surj_pair)
  obtain x2 r2 w2 where 2: "on_priority (SortedQueue_Recover (main_store b)) r1 w1 = (x2, r2, w2)" by (metis surj_pair)
  obtain x3 r3 w3 where 3: "on_limited (RateLimitedQueue_Recover (main_store b)) r2 w2 = (x3, r3, w3)" by (metis surj_pair)
  note s1 = recover_spares(1) [OF i 1]
  note i1 = spares_inactive [OF s1 True [THEN conjunct1] True [THEN conjunct2] i]
  have s2: "spares b i r w r2 w2" by (rule spares_trans [OF s1 recover_spares(2) [OF i1 2]])
  note i2 = spares_inactive [OF s2 True [THEN conjunct1] True [THEN conjunct2] i]
  have s3: "spares b i r w r3 w3" by (rule spares_trans [OF s2 recover_spares(3) [OF i2 3]])
  from r 1 2 3 have "(r', w') = (r1, w1) \<or> (r', w') = (r2, w2) \<or> (r', w') = (r3, w3)"
    by (auto simp: Router_Recover_def split: sum.splits)
  with s1 s2 s3 show ?thesis by auto
qed (auto simp: leaves_job_def)

section \<open>A job at rest\<close>

text \<open>
  A stored job at rest: it is neither pending nor in processing, and it is in no queue and in no preempt
  slot. Operations on other jobs leave it at rest.
\<close>

definition at_rest :: "string \<Rightarrow> string \<Rightarrow> job \<Rightarrow> pool \<Rightarrow> router \<Rightarrow> world \<Rightarrow> bool" where
  "at_rest b i j p r w \<longleftrightarrow> store_inv b w \<and> store_view b w i = Some j \<and> \<not> active j \<and>
     i \<notin> ID ` set_mset (all_jobs r) \<and> (\<forall>k. Some k \<in> set (preemptQueue p) \<longrightarrow> ID k \<noteq> i)"

lemma at_rest_spares:
  "at_rest b i j p r w \<Longrightarrow> spares b i r w r' w' \<Longrightarrow> set (preemptQueue p') \<subseteq> set (preemptQueue p) \<Longrightarrow>
   at_rest b i j p' r' w'"
  by (auto simp: at_rest_def leaves_job_def)

lemma at_rest_table:
  "at_rest b i j p r w \<Longrightarrow> table w' = table w \<Longrightarrow> set (preemptQueue p') \<subseteq> set (preemptQueue p) \<Longrightarrow>
   at_rest b i j p' r w'"
  by (erule at_rest_spares) (simp_all add: spares_table)

lemma at_rest_inactive: "at_rest b i j p r w \<Longrightarrow> store_view b w i = Some k \<Longrightarrow> \<not> active k"
  by (simp add: at_rest_def)

lemma Preempt_slot_jobs:
  "Preempt job p w = (x, p', w') \<Longrightarrow> set (preemptQueue p') \<subseteq> insert (Some job) (set (preemptQueue p))"
  using preempt_from_cases [of job 0 p w x p' w']
  by (cases x) (auto simp: Preempt_def dest: subsetD [OF set_update_subset_insert])

lemma Preempt_rest:
  assumes "Preempt job p w = (x, p', w')" "at_rest b i j p r w" "ID job \<noteq> i"
  shows "at_rest b i j p' r w'"
proof -
  have "at_rest b i j p r w'"
    by (rule at_rest_table [OF assms(2)]) (simp_all add: Preempt_world [OF assms(1)])
  with Preempt_slot_jobs [OF assms(1)] assms(3) show ?thesis by (auto simp: at_rest_def)
qed

lemma dispatch_rest:
  assumes "dispatch job (p, r, w) = (x, p', r', w')" "at_rest b i j p r w" "ID job \<noteq> i"
  shows "at_rest b i j p' r' w'"
proof -
  have e: "at_rest b i j p' r' w'" if "enqueue_created job (p1, r, w1) = (x, p', r', w')" "at_rest b i j p1 r w1" for p1 w1
    using that assms(3) by (auto simp: enqueue_created_def split: prod.splits sum.splits
        elim!: at_rest_spares dest: Router_Enqueue_spares)
  show ?thesis
  proof (cases "Priority job = PrioritySuperUrgent")
    case True
    obtain y p1 w1 where P: "Preempt job p w = (y, p1, w1)" by (metis surj_pair)
    from Preempt_rest [OF P assms(2,3)] assms(1) True P e show ?thesis
      by (auto simp: dispatch_def split: sum.splits if_splits)
  next
    case False
    with assms(1) have "enqueue_created job (p, r, w) = (x, p', r', w')" by (simp add: dispatch_def)
    with e assms(2) show ?thesis by blast
  qed
qed

lemma CreateJob_rest:
  assumes c: "CreateJob (main_store b) uuid body (p, r, w) = (x, p', r', w')" and a: "at_rest b i j p r w"
  shows "at_rest b i j p' r' w'"
proof -
  have s: "at_rest b i j p r w1" if "SaveJob (main_store b) job w = (y, w1)" for job y w1
    using a spares_store [OF cfg.same_at_eqs(5) [OF that]] by (intro at_rest_spares [OF a]) (auto simp: at_rest_def)
  from c show ?thesis
  proof (cases rule: CreateJob_dispatch)
    case (saved job w1)
    have "ID job \<noteq> i" using cfg.save_fresh [OF _ saved(2)] a by (auto simp: at_rest_def)
    moreover have "at_rest b i j p r (count_submitted (QueueType job) w1)"
      by (rule at_rest_table [OF s [OF saved(2)]]) (simp_all add: count_submitted_def)
    ultimately show ?thesis using dispatch_rest saved(3) by blast
  qed (use a s in auto)
qed

lemma RetryJob_rest:
  assumes "RetryJob (main_store b) k r w = (x, r', w')" "at_rest b i j p r w" "k \<noteq> i"
  shows "at_rest b i j p r' w'"
proof -
  obtain g w1 where g: "GetJob (main_store b) k w = (g, w1)" by (metis surj_pair)
  have a: "at_rest b i j p r w1"
    by (rule at_rest_spares [OF assms(2) spares_store [OF cfg.same_at_eqs(6) [OF g]]]) simp
  have "(r', w') = (r, w1) \<or> (\<exists>y. Router_Retry (main_store b) k 3 r w1 = (y, r', w'))"
    using assms(1) g by (auto simp: RetryJob_def split: sum.splits option.splits if_splits prod.splits)
  with a show ?thesis by (auto dest: router_spares(4) [OF assms(3)] intro: at_rest_spares)
qed

lemma handle_rest:
  assumes "handle (main_store b) html uuid ep k body (p, r, w) = (x, p', r', w')" "at_rest b i j p r w"
    "ep = EpRetryJob \<Longrightarrow> k \<noteq> i"
  shows "at_rest b i j p' r' w'"
proof -
  consider "ep = EpCreateJob" | "ep = EpRetryJob" | "ep \<noteq> EpCreateJob" "ep \<noteq> EpRetryJob" by blast
  then show ?thesis
  proof cases
    case 1
    with assms CreateJob_rest show ?thesis by simp
  next
    case 2
    with assms show ?thesis by (auto split: prod.splits dest: RetryJob_rest)
  next
    case 3
    from handle_read [OF this assms(1)] assms(2) show ?thesis by (auto intro: at_rest_table)
  qed
qed

section \<open>The startup\<close>

lemma new_router_fresh:
  "new_router cfg = Inr r \<Longrightarrow> all_jobs r = {#}"
  by (auto simp: new_router_def Let_def NewRouter_def NewSortedQueue_def NewRateLimitedQueue_def NewMemoryQueue_def
      all_jobs_def split: sum.splits if_splits)

lemma new_pool_slots: "new_pool cfg = Inr p \<Longrightarrow> preemptQueue (Start p) = replicate (worker_count p) None"
  by (auto simp: new_pool_def NewPool_def Start_def split: if_splits)

lemma startup_cases:
  assumes "startup readErr unmarshalled openErr w = (x, w')" "\<forall>cfg. unmarshalled = Inr cfg \<longrightarrow> Backend (DatabaseCfg cfg) = b"
  obtains (no_start) e where "x = Inl e" "table w' = table w"
  | (recovery) cfg r0 p0 w1 y r w2 where "new_router cfg = Inr r0" "new_pool cfg = Inr p0" "table w1 = table w"
      "Router_Recover (main_store b) r0 w1 = (y, r, w2)" "table w' = table w2"
      "(\<exists>e. x = Inl e) \<or> x = Inr (main_store b, Start p0, r) \<and> unmarshalled = Inr cfg"
proof (cases "LoadConfig readErr unmarshalled")
  case (Inl e)
  with assms(1) show ?thesis by (intro no_start) (auto simp: startup_def)
next
  case (Inr cfg)
  then have u: "unmarshalled = Inr cfg" by (simp add: LoadConfig_valid)
  obtain y1 w1 where o: "open_store cfg openErr w = (y1, w1)" by (metis surj_pair)
  have t: "table w1 = table w" by (rule open_store_table [OF o])
  show ?thesis
  proof (cases "\<exists>S r0 p0. y1 = Inr S \<and> new_router cfg = Inr r0 \<and> new_pool cfg = Inr p0")
    case False
    have "(\<exists>e. x = Inl e) \<and> w' = w1"
      using assms(1) Inr o False by (auto simp: startup_def Let_def split: sum.splits)
    then obtain e where "x = Inl e" "table w' = table w" using t by auto
    then show ?thesis by (rule no_start)
  next
    case True
    then obtain r0 p0 where y: "y1 = Inr (main_store b)" "new_router cfg = Inr r0" "new_pool cfg = Inr p0"
      using open_store_main o assms(2) u by blast
    obtain z r w2 where z: "Router_Recover (main_store b) r0 w1 = (z, r, w2)" by (metis surj_pair)
    from assms(1) Inr o y z have "table w' = table w2 \<and> ((\<exists>e. x = Inl e) \<or> x = Inr (main_store b, Start p0, r))"
      by (auto simp: startup_def Let_def split: sum.splits)
    with recovery [OF y(2,3) t z] u show ?thesis by blast
  qed
qed

lemma startup_kept:
  assumes "startup readErr unmarshalled openErr w = (x, w')"
    "\<forall>cfg. unmarshalled = Inr cfg \<longrightarrow> Backend (DatabaseCfg cfg) = b"
  shows "kept b w w'"
  using assms
proof (cases rule: startup_cases)
  case (recovery cfg r0 p0 w1 y r w2)
  have "kept b w w1" using recovery(3) by (rule kept_table)
  then have "kept b w w2" using kept_by.Router_Recover_R [OF recovery(4)] by (rule kept_trans)
  then show ?thesis using recovery(5) by (rule kept_then)
qed (auto simp: kept_table)

lemma startup_rest:
  assumes "startup readErr unmarshalled openErr w = (x, w')"
    "\<forall>cfg. unmarshalled = Inr cfg \<longrightarrow> Backend (DatabaseCfg cfg) = b" "at_rest b i j p0 r0 w"
  shows "case x of Inl e \<Rightarrow> at_rest b i j p0 r0 w' | Inr (S, p, r) \<Rightarrow> at_rest b i j p r w'"
proof (cases rule: startup_cases [OF assms(1,2), consumes 0, case_names no_start recovery])
  case (no_start e)
  with assms(3) show ?thesis by (auto intro: at_rest_table)
next
  case (recovery cfg r1 p1 w1 y r w2)
  from recovery(1) have e: "all_jobs r1 = {#}" by (rule new_router_fresh)
  have a: "at_rest b i j (Start p1) r1 w1"
    using at_rest_table [OF assms(3) recovery(3), of p0] e new_pool_slots [OF recovery(2)]
    by (auto simp: at_rest_def)
  have "at_rest b i j (Start p1) r w2"
    by (rule at_rest_spares [OF a Router_Recover_spares [OF recovery(4)]]) (use at_rest_inactive [OF a] in auto)
  then have "at_rest b i j (Start p1) r w'" by (rule at_rest_table) (simp_all add: recovery(5))
  moreover have "at_rest b i j p0 r0 w'" using calculation assms(3) by (simp add: at_rest_def)
  ultimately show ?thesis using recovery(6) by auto
qed

end
