(* ===== verification/Router_Invariant.thy ===== *)
theory Router_Invariant
  imports Server_Frames
begin

text \<open>
  What holds of the three queues and of the preempt slots at any time, and that every operation of the
  server keeps it, whatever the database driver answers.
\<close>

section \<open>The invariant\<close>

text \<open>
  The memory queues are within their bounds with agreeing flags; the priority queue is sorted and holds
  priority jobs only; the bucket holds at most \<open>burst\<close> tokens, and fewer than none only as long as
  the configured \<open>burst\<close> itself is negative; the refill is stopped when its queue is closed.
\<close>

definition priority_inv :: "sortedq \<Rightarrow> bool" where
  "priority_inv q \<longleftrightarrow> queue_sorted q \<and> (sdone_closed q \<longleftrightarrow> sclosed q) \<and> (\<forall>j \<in> set (sjobs q). is_priority j)"

definition limited_inv :: "rlq \<Rightarrow> bool" where
  "limited_inv q \<longleftrightarrow> memq_inv (inner q) \<and> (stop_closed q \<longleftrightarrow> closed (inner q)) \<and>
     tokens q \<le> burst q \<and> (0 \<le> tokens q \<or> tokens q = burst q)"

definition router_inv :: "router \<Rightarrow> bool" where
  "router_inv r \<longleftrightarrow> memq_inv (FIFO r) \<and> priority_inv (PriorityQ r) \<and> limited_inv (RateLimited r)"

text \<open>Only super-urgent jobs are put into the slots of the workers.\<close>

definition slots_inv :: "pool \<Rightarrow> bool" where
  "slots_inv p \<longleftrightarrow> (\<forall>j. Some j \<in> set (preemptQueue p) \<longrightarrow> Priority j = PrioritySuperUrgent)"

interpretation flagged: enqueue_invariant MemoryQueue_Enqueue "\<lambda>q. memq_inv q \<and> closed q = c" for c :: bool
  by unfold_locales (simp add: MemoryQueue_Enqueue_def memq_inv_def)

lemma router_inv_part:
  "router_inv r \<Longrightarrow> memq_inv q \<Longrightarrow> router_inv (r\<lparr>FIFO := q\<rparr>)"
  "router_inv r \<Longrightarrow> priority_inv s \<Longrightarrow> router_inv (r\<lparr>PriorityQ := s\<rparr>)"
  "router_inv r \<Longrightarrow> limited_inv l \<Longrightarrow> router_inv (r\<lparr>RateLimited := l\<rparr>)"
  by (simp_all add: router_inv_def)

lemma router_invD: "router_inv r \<Longrightarrow> memq_inv (FIFO r)" "router_inv r \<Longrightarrow> priority_inv (PriorityQ r)"
  "router_inv r \<Longrightarrow> limited_inv (RateLimited r)"
  by (simp_all add: router_inv_def)

text \<open>What keeps the embedded memory queue and its flag keeps the rate-limited queue.\<close>

lemma limited_inner:
  "limited_inv l \<Longrightarrow> (\<And>c. memq_inv (inner l) \<and> closed (inner l) = c \<Longrightarrow> memq_inv m \<and> closed m = c) \<Longrightarrow>
   limited_inv (l\<lparr>inner := m\<rparr>)"
  by (simp add: limited_inv_def)

section \<open>The operations of the queues\<close>

lemma priority_methods:
  assumes "priority_inv q"
  shows "is_priority j \<Longrightarrow> priority_inv (fst (snd (SortedQueue_Enqueue j q w)))"
    and "priority_inv (fst (snd (SortedQueue_Recover S q w)))"
    and "priority_inv (fst (SortedQueue_sweep S q w))"
    and "priority_inv (snd (SortedQueue_Close q))"
proof -
  from assms have p: "queue_sorted q" "sdone_closed q \<longleftrightarrow> sclosed q" "\<forall>j \<in> set (sjobs q). is_priority j"
    by (simp_all add: priority_inv_def)
  show "is_priority j \<Longrightarrow> priority_inv (fst (snd (SortedQueue_Enqueue j q w)))"
    unfolding priority_inv_def using p by (intro conjI sorted.enq_keeps flags.enq_keeps typed.enq_chosen)
  show "priority_inv (fst (snd (SortedQueue_Recover S q w)))"
    unfolding priority_inv_def SortedQueue_Recover_def
    using p by (intro conjI sorted.recover_keeps flags.recover_keeps typed.recover_chosen) simp_all
  show "priority_inv (fst (SortedQueue_sweep S q w))"
    unfolding priority_inv_def SortedQueue_sweep_def
    using p by (intro conjI sorted.sweep_keeps flags.sweep_keeps typed.sweep_chosen) simp_all
  show "priority_inv (snd (SortedQueue_Close q))"
    using p by (simp add: SortedQueue_Close_def priority_inv_def queue_sorted_def)
qed

lemma limited_methods:
  assumes "limited_inv l"
  shows "limited_inv (fst (snd (RateLimitedQueue_Enqueue j l w)))"
    and "limited_inv (fst (snd (RateLimitedQueue_Recover S l w)))"
    and "limited_inv (fst (snd (RateLimitedQueue_sweep S l w)))"
    and "limited_inv (snd (RateLimitedQueue_Close l))"
    and "limited_inv (refill l)"
proof -
  have m: "limited_inv (l\<lparr>inner := fst (snd (MemoryQueue_Enqueue j (inner l) w))\<rparr>)"
    "limited_inv (l\<lparr>inner := fst (snd (MemoryQueue_Recover S (inner l) w))\<rparr>)"
    "limited_inv (l\<lparr>inner := fst (MemoryQueue_sweep S (inner l) w)\<rparr>)"
    unfolding MemoryQueue_Recover_def MemoryQueue_sweep_def
    by (rule limited_inner [OF assms], erule flagged.all_keep)+
  then show "limited_inv (fst (snd (RateLimitedQueue_Enqueue j l w)))"
    "limited_inv (fst (snd (RateLimitedQueue_Recover S l w)))" "limited_inv (fst (snd (RateLimitedQueue_sweep S l w)))"
    by (simp_all add: RateLimitedQueue_Enqueue_def RateLimitedQueue_Recover_def RateLimitedQueue_sweep_def on_inner_def
        case_prod_beta)
  show "limited_inv (snd (RateLimitedQueue_Close l))" "limited_inv (refill l)"
    using assms by (auto simp: RateLimitedQueue_Close_def MemoryQueue_Close_def limited_inv_def memq_inv_def refill_def)
qed

lemma Router_Enqueue_inv: "router_inv r \<Longrightarrow> router_inv (fst (snd (Router_Enqueue j r w)))"
  using priority_methods(1) [of "PriorityQ r" j w] limited_methods(1) [of "RateLimited r" j w]
    memory.enq_keeps [of "FIFO r" j w]
  by (auto simp: Router_Enqueue_def on_defs is_priority_def split: prod.splits intro!: router_inv_part dest: router_invD)

lemma on_fifo_inv:
  assumes "router_inv r" "memq_inv (fst (snd (f (FIFO r) w)))"
  shows "router_inv (fst (snd (on_fifo f r w)))"
  using assms by (auto simp: on_defs split: prod.splits intro: router_inv_part)

lemma Router_methods_inv:
  assumes "router_inv r"
  shows "router_inv (fst (snd (Router_Nack S i r w)))" "router_inv (fst (snd (Router_Requeue S i r w)))"
    "router_inv (fst (snd (Router_Retry S i n r w)))"
  unfolding Router_Nack_def MemoryQueue_Nack_def Router_Requeue_def MemoryQueue_Requeue_def Router_Retry_def MemoryQueue_Retry_def
  by (rule on_fifo_inv [OF assms], rule memory.all_keep, rule router_invD [OF assms])+

text \<open>Taking the first job out.\<close>

lemma take_first_inv:
  "jobs m = j # js \<Longrightarrow> memq_inv m \<Longrightarrow> memq_inv (m\<lparr>jobs := js\<rparr>)"
  "sjobs q = j # js \<Longrightarrow> priority_inv q \<Longrightarrow> priority_inv (q\<lparr>sjobs := js\<rparr>)"
  "priority_inv q \<Longrightarrow> priority_inv (q\<lparr>signal := b\<rparr>)"
  "jobs (inner l) = j # js \<Longrightarrow> 0 < tokens l \<Longrightarrow> limited_inv l \<Longrightarrow>
    limited_inv (l\<lparr>inner := (inner l)\<lparr>jobs := js\<rparr>, tokens := tokens l - 1\<rparr>)"
  by (simp_all add: memq_inv_def priority_inv_def queue_sorted_def limited_inv_def)

lemma Router_poll_inv:
  assumes "Router_poll arms r w = Some (oj, r', w')" "router_inv r"
  shows "router_inv r'"
proof (cases "sjobs (PriorityQ r)")
  case (Cons j js)
  with assms show ?thesis
    by (cases arms) (auto simp: Router_poll_def poll_sorted intro!: router_inv_part take_first_inv dest: router_invD)
next
  case Nil
  define q where "q = snd (SortedQueue_DequeueOrWait (fst arms) 0 (PriorityQ r) w)"
  have q: "SortedQueue_DequeueOrWait (fst arms) 0 (PriorityQ r) w = (None, fst q, w)" "priority_inv (fst q)"
    using Nil router_invD(2) [OF assms(2)] by (simp_all add: q_def poll_sorted take_first_inv)
  have i: "router_inv (r\<lparr>PriorityQ := fst q\<rparr>)" by (rule router_inv_part(2) [OF assms(2) q(2)])
  with assms q(1) show ?thesis
    by (cases arms) (auto simp: Router_poll_def poll_memory poll_limited AvailableTokens_def Let_def
        split: list.splits if_splits intro!: router_inv_part [OF i, simplified] router_inv_part take_first_inv dest: router_invD)
qed

lemma Router_Close_inv: "Router_Close r = (x, r') \<Longrightarrow> router_inv r \<Longrightarrow> router_inv r'"
  using priority_methods(4) [of "PriorityQ r"] limited_methods(4) [of "RateLimited r"]
  by (auto simp: Router_Close_def router_inv_def MemoryQueue_Close_def memq_inv_def split: prod.splits)

lemma sweep_inv:
  assumes "router_inv r"
  shows "MemoryQueue_sweep S (FIFO r) w = (q, w') \<Longrightarrow> router_inv (r\<lparr>FIFO := q\<rparr>)"
    and "SortedQueue_sweep S (PriorityQ r) w = (s, w') \<Longrightarrow> router_inv (r\<lparr>PriorityQ := s\<rparr>)"
    and "RateLimitedQueue_sweep S (RateLimited r) w = (u, l, w') \<Longrightarrow> router_inv (r\<lparr>RateLimited := l\<rparr>)"
    and "router_inv (r\<lparr>RateLimited := refill (RateLimited r)\<rparr>)"
  using memory.sweep_keeps [OF router_invD(1) [OF assms], of "\<lambda>j. True" S w]
    priority_methods(3) [OF router_invD(2) [OF assms], of S w] limited_methods(3) [OF router_invD(3) [OF assms], of S w]
    limited_methods(5) [OF router_invD(3) [OF assms]]
  by (auto simp: MemoryQueue_sweep_def intro!: router_inv_part [OF assms])

lemma Router_Recover_inv: "Router_Recover S r w = (x, r', w') \<Longrightarrow> router_inv r \<Longrightarrow> router_inv r'"
proof -
  have f: "router_inv r2" if "on_fifo (MemoryQueue_Recover S) r1 w1 = (y, r2, w2)" "router_inv r1" for r1 w1 y r2 w2
    using on_fifo_inv [OF that(2), of "MemoryQueue_Recover S" w1] memory.recover_keeps [OF router_invD(1) [OF that(2)]] that(1)
    by (simp add: MemoryQueue_Recover_def)
  have p: "router_inv r2" if "on_priority (SortedQueue_Recover S) r1 w1 = (y, r2, w2)" "router_inv r1" for r1 w1 y r2 w2
    using priority_methods(2) [OF router_invD(2) [OF that(2)], of S w1] that
    by (auto simp: on_defs split: prod.splits intro!: router_inv_part)
  have l: "router_inv r2" if "on_limited (RateLimitedQueue_Recover S) r1 w1 = (y, r2, w2)" "router_inv r1" for r1 w1 y r2 w2
    using limited_methods(2) [OF router_invD(3) [OF that(2)], of S w1] that
    by (auto simp: on_defs split: prod.splits intro!: router_inv_part)
  show "Router_Recover S r w = (x, r', w') \<Longrightarrow> router_inv r \<Longrightarrow> router_inv r'"
    by (auto simp: Router_Recover_def split: prod.splits sum.splits dest: f p l)
qed

section \<open>The handlers, the workers and the startup\<close>

lemma settle_inv: "settle_job S err cx i r w = (x, r', w') \<Longrightarrow> router_inv r \<Longrightarrow> router_inv r'"
  using Router_methods_inv(1,2) [of r S i w]
  by (auto simp: settle_job_def split: option.splits if_splits prod.splits)

lemma RetryJob_inv: "RetryJob S i r w = (x, r', w') \<Longrightarrow> router_inv r \<Longrightarrow> router_inv r'"
proof -
  obtain g w1 where g: "GetJob S i w = (g, w1)" by (metis surj_pair)
  assume r: "RetryJob S i r w = (x, r', w')" "router_inv r"
  have "r' = r \<or> (\<exists>y. Router_Retry S i 3 r w1 = (y, r', w'))"
    using r(1) g by (auto simp: RetryJob_def split: sum.splits option.splits if_splits prod.splits)
  with Router_methods_inv(3) [OF r(2), of S i 3 w1] r(2) show ?thesis by auto
qed

lemma Preempt_slots:
  assumes "Preempt job p w = (x, p', w')" "slots_inv p" "Priority job = PrioritySuperUrgent"
  shows "slots_inv p'"
  using Preempt_slot_jobs [OF assms(1)] assms(2,3) by (auto simp: slots_inv_def)

lemma enqueue_created_inv:
  assumes "enqueue_created job (p, r, w) = (x, p', r', w')" "router_inv r"
  shows "p' = p \<and> router_inv r'"
  using assms Router_Enqueue_inv [OF assms(2), of job w]
  by (auto simp: enqueue_created_def split: prod.splits sum.splits)

lemma dispatch_inv:
  assumes "dispatch job (p, r, w) = (x, p', r', w')" "router_inv r" "slots_inv p"
  shows "router_inv r' \<and> slots_inv p'"
proof (cases "Priority job = PrioritySuperUrgent")
  case True
  obtain y p1 w1 where P: "Preempt job p w = (y, p1, w1)" by (metis surj_pair)
  from Preempt_slots [OF P assms(3) True] enqueue_created_inv [of job p1 r w1 x p' r' w'] assms(1,2) True P
  show ?thesis by (auto simp: dispatch_def split: sum.splits if_splits)
next
  case False
  with assms enqueue_created_inv [of job p r w x p' r' w'] show ?thesis by (auto simp: dispatch_def)
qed

lemma CreateJob_inv:
  assumes "CreateJob S uuid body (p, r, w) = (x, p', r', w')" "router_inv r" "slots_inv p"
  shows "router_inv r' \<and> slots_inv p'"
  using assms(1) by (cases rule: CreateJob_dispatch) (use assms(2,3) dispatch_inv in auto)

lemma handle_inv:
  assumes "handle (main_store b) html uuid ep i body (p, r, w) = (x, p', r', w')" "router_inv r" "slots_inv p"
  shows "router_inv r' \<and> slots_inv p'"
proof -
  consider "ep = EpCreateJob" | "ep = EpRetryJob" | "ep \<noteq> EpCreateJob" "ep \<noteq> EpRetryJob" by blast
  then show ?thesis
  proof cases
    case 1
    with assms show ?thesis by (auto dest: CreateJob_inv)
  next
    case 2
    with assms show ?thesis by (auto split: prod.splits dest: RetryJob_inv)
  next
    case 3
    from handle_read [OF this assms(1)] assms(2,3) show ?thesis by simp
  qed
qed

lemma new_router_inv: "new_router cfg = Inr r \<Longrightarrow> router_inv r"
  by (auto simp: new_router_def Let_def NewRouter_def NewSortedQueue_def NewRateLimitedQueue_def NewMemoryQueue_def
      router_inv_def memq_inv_def priority_inv_def limited_inv_def queue_sorted_def split: sum.splits if_splits)

lemma startup_inv:
  assumes "startup readErr unmarshalled openErr w = (Inr (S, p, r), w')"
    "\<forall>cfg. unmarshalled = Inr cfg \<longrightarrow> Backend (DatabaseCfg cfg) = b"
  shows "router_inv r \<and> slots_inv p \<and> (\<exists>cfg p0. unmarshalled = Inr cfg \<and> new_pool cfg = Inr p0 \<and> p = Start p0)"
proof (cases rule: startup_cases [OF assms, consumes 0, case_names no_start recovery])
  case (recovery cfg r0 p0 w1 y r1 w2)
  from new_router_inv [OF recovery(1)] Router_Recover_inv [OF recovery(4)] have "router_inv r1" by blast
  moreover have "slots_inv (Start p0)" using new_pool_slots [OF recovery(2)] by (auto simp: slots_inv_def)
  ultimately show ?thesis using recovery(2,6) by auto
qed simp

end
