(* ===== verification/Server_Tasks.thy ===== *)
theory Server_Tasks
  imports Router_Invariant Pool_Properties
begin

text \<open>
  What goes on in the server besides the goroutines of the pool, in pieces: a sweep and the recovery go
  through their listing job by job, and a submission stores its job before it hands it on. Between two
  pieces anything else may happen.
\<close>

section \<open>Tasks\<close>

text \<open>The three queues, in the order of \<open>Router.Recover\<close>.\<close>

datatype which = QFifo | QPriority | QLimited

fun next_queue :: "which \<Rightarrow> which option" where
  "next_queue QFifo = Some QPriority"
| "next_queue QPriority = Some QLimited"
| "next_queue QLimited = None"

text \<open>
  \<open>Saved\<close>: a handler has stored its job and not yet handed it on. \<open>Sweeping\<close>: the rest of the listing a
  sweep still has to go through. \<open>Recover\<close>, \<open>Recovering\<close>: \<open>main\<close> is about to list the jobs for a queue,
  or goes through the listing; the number is the time at which the recovery began. \<open>RecoveryFailed\<close>:
  \<open>main\<close> ends the process with a fatal log entry, before it serves any request.
\<close>

datatype task =
    Saved job
  | Sweeping which "job list"
  | Recover which int
  | Recovering which int "job list"
  | RecoveryFailed

fun task_jobs :: "task \<Rightarrow> job list" where
  "task_jobs (Saved j) = [j]"
| "task_jobs (Sweeping q js) = js"
| "task_jobs (Recovering q t js) = js"
| "task_jobs _ = []"

text \<open>Requests are served when the recovery is over.\<close>

fun recovers :: "task \<Rightarrow> bool" where
  "recovers (Saved j) = False"
| "recovers (Sweeping q js) = False"
| "recovers _ = True"

definition serving :: "task multiset \<Rightarrow> bool" where
  "serving T \<longleftrightarrow> (\<forall>t \<in># T. \<not> recovers t)"

section \<open>The loops of the sweeper and of the recovery\<close>

fun sweep_on :: "storage \<Rightarrow> which \<Rightarrow> job list \<Rightarrow> router \<Rightarrow> world \<Rightarrow> router \<times> world" where
  "sweep_on S QFifo js r w =
     (case sweep_loop MemoryQueue_Enqueue (\<lambda>j. True) S js (FIFO r) w of (q, w1) \<Rightarrow> (r\<lparr>FIFO := q\<rparr>, w1))"
| "sweep_on S QPriority js r w =
     (case sweep_loop SortedQueue_Enqueue is_priority S js (PriorityQ r) w of (q, w1) \<Rightarrow> (r\<lparr>PriorityQ := q\<rparr>, w1))"
| "sweep_on S QLimited js r w =
     (case sweep_loop MemoryQueue_Enqueue (\<lambda>j. True) S js (inner (RateLimited r)) w of
        (q, w1) \<Rightarrow> (r\<lparr>RateLimited := (RateLimited r)\<lparr>inner := q\<rparr>\<rparr>, w1))"

fun recover_on :: "storage \<Rightarrow> which \<Rightarrow> job list \<Rightarrow> router \<Rightarrow> world \<Rightarrow> unit result \<times> router \<times> world" where
  "recover_on S QFifo js r w =
     (case recover_loop MemoryQueue_Enqueue (\<lambda>j. True) count_recovered S js (FIFO r) w of
        (x, q, w1) \<Rightarrow> (x, r\<lparr>FIFO := q\<rparr>, w1))"
| "recover_on S QPriority js r w =
     (case recover_loop SortedQueue_Enqueue is_priority (\<lambda>m. m) S js (PriorityQ r) w of
        (x, q, w1) \<Rightarrow> (x, r\<lparr>PriorityQ := q\<rparr>, w1))"
| "recover_on S QLimited js r w =
     (case recover_loop MemoryQueue_Enqueue (\<lambda>j. True) count_recovered S js (inner (RateLimited r)) w of
        (x, q, w1) \<Rightarrow> (x, r\<lparr>RateLimited := (RateLimited r)\<lparr>inner := q\<rparr>\<rparr>, w1))"

text \<open>The loops job by job.\<close>

lemma sweep_loop_split:
  "sweep_loop enq sel S (j # js) q w =
     (case sweep_loop enq sel S [j] q w of (q1, w1) \<Rightarrow> sweep_loop enq sel S js q1 w1)"
  by (auto split: prod.splits sum.splits)

lemma recover_loop_split:
  "recover_loop enq sel cnt S (j # js) q w =
     (case recover_loop enq sel cnt S [j] q w of
        (Inl e, q1, w1) \<Rightarrow> (Inl e, q1, w1)
      | (Inr _, q1, w1) \<Rightarrow> recover_loop enq sel cnt S js q1 w1)"
  by (auto split: prod.splits sum.splits)

lemma sweep_on_split:
  "sweep_on S q (j # js) r w = (case sweep_on S q [j] r w of (r1, w1) \<Rightarrow> sweep_on S q js r1 w1)"
  by (cases q) (simp_all add: sweep_loop_split [of _ _ _ j js] del: sweep_loop.simps split: prod.splits)

lemma recover_on_split:
  "recover_on S q (j # js) r w = (case recover_on S q [j] r w of
     (Inl e, r1, w1) \<Rightarrow> (Inl e, r1, w1) | (Inr _, r1, w1) \<Rightarrow> recover_on S q js r1 w1)"
  by (cases q) (auto simp: recover_loop_split [of _ _ _ _ j js] simp del: recover_loop.simps split: prod.splits sum.splits)


text \<open>A sweep, and a recovery, as one call: the listing, then the loop.\<close>

lemma sweep_is_listed:
  "MemoryQueue_sweep S (FIFO r) w = (q, w') \<Longrightarrow> ListPendingJobs S w = ((js, None), w1) \<Longrightarrow>
     sweep_on S QFifo js r w1 = (r\<lparr>FIFO := q\<rparr>, w')"
  "SortedQueue_sweep S (PriorityQ r) w = (s, w') \<Longrightarrow> ListPendingJobs S w = ((js, None), w1) \<Longrightarrow>
     sweep_on S QPriority js r w1 = (r\<lparr>PriorityQ := s\<rparr>, w')"
  "RateLimitedQueue_sweep S (RateLimited r) w = (u, l, w') \<Longrightarrow> ListPendingJobs S w = ((js, None), w1) \<Longrightarrow>
     sweep_on S QLimited js r w1 = (r\<lparr>RateLimited := l\<rparr>, w')"
  unfolding MemoryQueue_sweep_def SortedQueue_sweep_def RateLimitedQueue_sweep_def on_inner_def sweep_with_def
  by (auto split: prod.splits)

text \<open>\<open>Router.Recover\<close>: for each queue in turn a listing and a loop, up to the first error.\<close>

fun recover_from :: "storage \<Rightarrow> which \<Rightarrow> router \<Rightarrow> world \<Rightarrow> unit result \<times> router \<times> world" where
  "recover_from S q r w =
     (case ListPendingJobs S w of
        ((_, Some e), w1) \<Rightarrow> (Inl (Wrap ''recover: failed to list pending jobs'' e), r, w1)
      | ((js, None), w1) \<Rightarrow> recover_on S q js r w1)"

lemma on_recover:
  "on_fifo (MemoryQueue_Recover S) r w = recover_from S QFifo r w"
  "on_priority (SortedQueue_Recover S) r w = recover_from S QPriority r w"
  "on_limited (RateLimitedQueue_Recover S) r w = recover_from S QLimited r w"
  unfolding on_defs MemoryQueue_Recover_def SortedQueue_Recover_def RateLimitedQueue_Recover_def on_inner_def recover_with_def
  by (auto split: prod.splits option.splits)

section \<open>What a piece leaves alone\<close>

context server_preorder
begin

lemma sweep_on_R: "sweep_on (main_store b) q js r w = (r', w') \<Longrightarrow> R w w'"
  by (cases q) (auto split: prod.splits dest: fifo.sweep_loop_R prio.sweep_loop_R)

lemma recover_on_R: "recover_on (main_store b) q js r w = (x, r', w') \<Longrightarrow> R w w'"
  by (cases q) (auto simp: count_recovered_def split: prod.splits
      dest: fifo.recover_loop_R [of count_recovered, rotated] prio.recover_loop_R [of "\<lambda>m. m", rotated])

end

lemma sweep_on_spares:
  "sweep_on (main_store b) q js r w = (r', w') \<Longrightarrow> \<forall>j \<in> set js. ID j \<noteq> i \<Longrightarrow> spares b i r w r' w'"
  by (cases q) (auto split: prod.splits intro!: spares_part dest: mqs.sweep_loop_leaves sqs.sweep_loop_leaves)

lemma recover_on_spares:
  "recover_on (main_store b) q js r w = (x, r', w') \<Longrightarrow> \<forall>j \<in> set js. ID j \<noteq> i \<Longrightarrow> spares b i r w r' w'"
  by (cases q) (auto split: prod.splits intro!: spares_part dest: mqs.recover_loop_leaves sqs.recover_loop_leaves)

lemma priority_loops:
  assumes "priority_inv q"
  shows "priority_inv (fst (sweep_loop SortedQueue_Enqueue is_priority S js q w))"
    "priority_inv (fst (snd (recover_loop SortedQueue_Enqueue is_priority cnt S js q w)))"
proof -
  from assms have p: "queue_sorted q" "sdone_closed q \<longleftrightarrow> sclosed q" "\<forall>j \<in> set (sjobs q). is_priority j"
    by (simp_all add: priority_inv_def)
  show "priority_inv (fst (sweep_loop SortedQueue_Enqueue is_priority S js q w))"
    unfolding priority_inv_def
    using p by (intro conjI sorted.sweep_loop_chosen flags.sweep_loop_chosen typed.sweep_loop_chosen) simp_all
  show "priority_inv (fst (snd (recover_loop SortedQueue_Enqueue is_priority cnt S js q w)))"
    unfolding priority_inv_def
    using p by (intro conjI sorted.recover_loop_chosen flags.recover_loop_chosen typed.recover_loop_chosen) simp_all
qed

lemma memory_loops:
  assumes "memq_inv q"
  shows "memq_inv (fst (sweep_loop MemoryQueue_Enqueue sel S js q w)) \<and>
      closed (fst (sweep_loop MemoryQueue_Enqueue sel S js q w)) = closed q"
    "memq_inv (fst (snd (recover_loop MemoryQueue_Enqueue sel cnt S js q w))) \<and>
      closed (fst (snd (recover_loop MemoryQueue_Enqueue sel cnt S js q w))) = closed q"
  using flagged.sweep_loop_chosen [where c = "closed q" and q = q and sel = sel and S = S and js = js and w = w]
    flagged.recover_loop_chosen [where c = "closed q" and q = q and sel = sel and cnt = cnt and S = S and js = js and w = w] assms
  by simp_all

lemma sweep_on_inv: "sweep_on S q js r w = (r', w') \<Longrightarrow> router_inv r \<Longrightarrow> router_inv r'"
  using priority_loops(1) [of "PriorityQ r" S js w] memory_loops(1) [of "FIFO r" "\<lambda>j. True" S js w]
    memory_loops(1) [of "inner (RateLimited r)" "\<lambda>j. True" S js w]
  by (cases q) (auto split: prod.splits simp: router_inv_def limited_inv_def)

lemma recover_on_inv: "recover_on S q js r w = (x, r', w') \<Longrightarrow> router_inv r \<Longrightarrow> router_inv r'"
  using priority_loops(2) [of "PriorityQ r" "\<lambda>m. m" S js w] memory_loops(2) [of "FIFO r" "\<lambda>j. True" count_recovered S js w]
    memory_loops(2) [of "inner (RateLimited r)" "\<lambda>j. True" count_recovered S js w]
  by (cases q) (auto split: prod.splits simp: router_inv_def limited_inv_def)


section \<open>The start of the process\<close>

lemma boot_table: "boot readErr unmarshalled openErr w = (x, w') \<Longrightarrow> table w' = table w"
  by (auto simp: boot_def open_store_table split: sum.splits prod.splits)

lemma boot_parts:
  "boot readErr unmarshalled openErr w = (Inr (S, p, r), w') \<Longrightarrow>
   \<exists>cfg p0. unmarshalled = Inr cfg \<and> new_router cfg = Inr r \<and> new_pool cfg = Inr p0 \<and> p = Start p0 \<and>
     S = main_store (Backend (DatabaseCfg cfg))"
  by (auto simp: boot_def LoadConfig_valid open_store_main split: sum.splits prod.splits)

lemma boot_inv:
  "boot readErr unmarshalled openErr w = (Inr (S, p, r), w') \<Longrightarrow> router_inv r \<and> slots_inv p \<and> all_jobs r = {#}"
  using boot_parts [of readErr unmarshalled openErr w S p r w']
  by (auto simp: new_router_inv new_router_fresh slots_inv_def new_pool_slots)

lemma boot_rest:
  assumes "boot readErr unmarshalled openErr w = (Inr (S, p, r), w')" "at_rest b i j p0 r0 w"
  shows "at_rest b i j p r w'"
proof -
  from boot_parts [OF assms(1)] obtain cfg p1 where "new_pool cfg = Inr p1" "p = Start p1" by blast
  then have "set (preemptQueue p) \<subseteq> {None}" by (auto simp: new_pool_slots)
  moreover have "at_rest b i j p0 r0 w'" by (rule at_rest_table [OF assms(2) boot_table [OF assms(1)]]) simp
  ultimately show ?thesis using boot_inv [OF assms(1)] by (auto simp: at_rest_def)
qed

end
