(* ===== verification/Server_Run.thy ===== *)
theory Server_Run
  imports Server_Tasks
begin

text \<open>
  The server as a whole: the goroutines of the pool (\<open>Worker_Protocol\<close>), the queues and the database put
  together, with requests, sweeps, the refill, shutdown, crashes and restarts interleaved in any order,
  and the properties that hold in every such run.
\<close>

section \<open>Steps\<close>

text \<open>
  A goroutine of the pool moves on its own when it touches neither the queues nor the database nor the
  metrics; the other moves are listed below with what they do to those.
\<close>

fun on_its_own :: "wpc \<Rightarrow> bool" where
  "on_its_own Polling = False"
| "on_its_own (Picked j) = False"
| "on_its_own (Marked j) = False"
| "on_its_own (Running j c) = False"
| "on_its_own (Finished j c) = False"
| "on_its_own (Cleanup j c panicking) = False"
| "on_its_own _ = True"

definition local_step :: "sys \<Rightarrow> sys \<Rightarrow> bool" where
  "local_step y y' \<longleftrightarrow> pool_step y y' \<and> accepted y' = accepted y \<and> pool_done (pl y') = pool_done (pl y) \<and>
     (\<forall>i. pcs y' i = pcs y i \<or> on_its_own (pcs y i))"

definition observe_processing :: "job \<Rightarrow> int \<Rightarrow> world \<Rightarrow> world" where
  "observe_processing j d w = w\<lparr>metrics := (metrics w)\<lparr>JobProcessingDuration :=
     observe_label (QueueType j) d (JobProcessingDuration (metrics w))\<rparr>\<rparr>"

definition panics_with :: "unit result \<Rightarrow> bool" where
  "panics_with x = (case x of Inl e \<Rightarrow> is_panic e | Inr _ \<Rightarrow> False)"

text \<open>A new process finds the table; its metrics and its database handle are new.\<close>

definition new_process :: "world \<Rightarrow> world" where
  "new_process w = w\<lparr>metrics := metrics0, db_closed := False\<rparr>"

text \<open>
  The state of the server: the goroutines of the pool, the tasks under way beside them, the queues, the
  world. Every critical section of the pool is a step, and so is every poll of the queues, every call of
  the queue a worker makes for its job, every job a sweep or the recovery deals with, every handler of a
  request; a submission may also be two steps, the storing of the job and the rest. Between two steps
  time may pass and the database driver get new answers. \<open>may i\<close> tells whether a client may ask for a
  retry of the job \<open>i\<close>. A restart is possible in any state, after a shutdown or a crash, with any
  configuration that names the same database; it can fail, and then its metrics and its handle are gone. The workers run while \<open>main\<close> recovers the
  queues.
\<close>

type_synonym server = "sys \<times> task multiset \<times> router \<times> world"

inductive server_step :: "string \<Rightarrow> (string \<Rightarrow> bool) \<Rightarrow> server \<Rightarrow> server \<Rightarrow> bool" for b :: string and may :: "string \<Rightarrow> bool" where
  own: "local_step y y' \<Longrightarrow> server_step b may (y, T, r, w) (y', T, r, w)"
| polled: "pcs y i = Polling \<Longrightarrow> Router_poll arms r w = Some (None, r', w') \<Longrightarrow>
    server_step b may (y, T, r, w) (y, T, r', w')"
| gave_up: "pcs y i = Polling \<Longrightarrow> server_step b may (y, T, r, w) (goto i Loop y, T, r, w)"
| got: "pcs y i = Polling \<Longrightarrow> Router_poll arms r w = Some (Some j, r', w') \<Longrightarrow>
    server_step b may (y, T, r, w) (goto i (Picked j) y, T, r', w')"
| marked: "pcs y i = Picked j \<Longrightarrow>
    server_step b may (y, T, r, w) (goto i (Marked j) y, T, r, begin_job (main_store b) j w)"
| registers: "pcs y i = Marked j \<Longrightarrow> register i j (pl y) = (c, p) \<Longrightarrow>
    server_step b may (y, T, r, w) (goto i (Running j c) (y\<lparr>pl := p\<rparr>), T, r, add_busy 1 w)"
| returned: "pcs y i = Running j c \<Longrightarrow>
    server_step b may (y, T, r, w) (goto i (Finished j c) y, T, r, observe_processing j d w)"
| panicked: "pcs y i = Running j c \<Longrightarrow> server_step b may (y, T, r, w) (goto i (Cleanup j c True) y, T, r, w)"
| settles: "pcs y i = Finished j c \<Longrightarrow>
    settle_job (main_store b) err (contexts (pl y) ! c) (ID j) r w = (x, r', w') \<Longrightarrow>
    server_step b may (y, T, r, w) (goto i (Cleanup j c (panics_with x)) y, T, r', w')"
| cleans_up: "pcs y i = Cleanup j c panicking \<Longrightarrow>
    server_step b may (y, T, r, w)
      (goto i (if panicking then Exiting else Loop) (y\<lparr>pl := unregister i c (pl y)\<rparr>), T, r, add_busy (- 1) w)"
| request: "serve match (main_store b) html uuid req (pl y, r, w) = (resp, p', r', w') \<Longrightarrow>
    \<forall>i. match RegisterRoutes req = Inr (EpRetryJob, i) \<longrightarrow> may i \<Longrightarrow>
    y' = y\<lparr>pl := p', accepted := js\<rparr> \<Longrightarrow> pool_step\<^sup>=\<^sup>= y y' \<Longrightarrow> serving T \<Longrightarrow>
    server_step b may (y, T, r, w) (y', T, r', w')"
| saves: "(match :: chi) RegisterRoutes req = Inr (EpCreateJob, i) \<Longrightarrow> decode_request (req_body req) = Some cr \<Longrightarrow>
    req_JobType cr \<noteq> '''' \<Longrightarrow> job = new_job uuid (clock w) (normalise cr) \<Longrightarrow>
    SaveJob (main_store b) job w = (Inr (), w') \<Longrightarrow> serving T \<Longrightarrow>
    server_step b may (y, T, r, w) (y, add_mset (Saved job) T, r, count_submitted (QueueType job) w')"
| dispatches: "dispatch job (pl y, r, w) = (x, p', r', w') \<Longrightarrow> y' = y\<lparr>pl := p', accepted := js\<rparr> \<Longrightarrow>
    pool_step\<^sup>=\<^sup>= y y' \<Longrightarrow> server_step b may (y, add_mset (Saved job) T, r, w) (y', T, r', w')"
| sweep_lists: "ListPendingJobs (main_store b) w = ((js, None), w') \<Longrightarrow> \<forall>js. Sweeping q js \<notin># T \<Longrightarrow>
    server_step b may (y, T, r, w) (y, add_mset (Sweeping q js) T, r, w')"
| sweep_fails: "ListPendingJobs (main_store b) w = ((js, Some e), w') \<Longrightarrow> server_step b may (y, T, r, w) (y, T, r, w')"
| sweeps: "sweep_on (main_store b) q [j] r w = (r', w') \<Longrightarrow>
    server_step b may (y, add_mset (Sweeping q (j # js)) T, r, w) (y, add_mset (Sweeping q js) T, r', w')"
| swept: "server_step b may (y, add_mset (Sweeping q []) T, r, w) (y, T, r, w)"
| refilled: "server_step b may (y, T, r, w) (y, T, r\<lparr>RateLimited := refill (RateLimited r)\<rparr>, w)"
| passes: "0 \<le> d \<Longrightarrow> server_step b may (y, T, r, w) (y, T, r, w\<lparr>clock := clock w + d, driver := answers\<rparr>)"
| closes: "Router_Close r = (x, r') \<Longrightarrow> server_step b may (y, T, r, w) (y, T, r', w)"
| stops: "Stop (pl y) = (Inr (), p) \<Longrightarrow> server_step b may (y, T, r, w) (y\<lparr>pl := p\<rparr>, T, r, w)"
| boots: "boot readErr (Inr cfg) openErr (new_process w) = (Inr (S, p, r'), w') \<Longrightarrow>
    Backend (DatabaseCfg cfg) = b \<Longrightarrow> new_pool cfg = Inr p0 \<Longrightarrow>
    server_step b may (y, T, r, w) (started p0, {#Recover QFifo (clock w')#}, r', w')"
| boot_fails: "boot readErr (Inr cfg) openErr (new_process w) = (Inl e, w') \<Longrightarrow>
    Backend (DatabaseCfg cfg) = b \<Longrightarrow>
    server_step b may (y, T, r, w) (y, T, r, w'\<lparr>metrics := metrics w, db_closed := db_closed w\<rparr>)"
| recover_lists: "ListPendingJobs (main_store b) w = ((js, None), w') \<Longrightarrow>
    server_step b may (y, add_mset (Recover q t0) T, r, w) (y, add_mset (Recovering q t0 js) T, r, w')"
| recover_fails: "ListPendingJobs (main_store b) w = ((js, Some e), w') \<Longrightarrow>
    server_step b may (y, add_mset (Recover q t0) T, r, w) (y, add_mset RecoveryFailed T, r, w')"
| recovers_job: "recover_on (main_store b) q [j] r w = (Inr (), r', w') \<Longrightarrow>
    server_step b may (y, add_mset (Recovering q t0 (j # js)) T, r, w) (y, add_mset (Recovering q t0 js) T, r', w')"
| recovers_not: "recover_on (main_store b) q [j] r w = (Inl e, r', w') \<Longrightarrow>
    server_step b may (y, add_mset (Recovering q t0 (j # js)) T, r, w) (y, add_mset RecoveryFailed T, r', w')"
| recovers_next: "next_queue q = Some q' \<Longrightarrow>
    server_step b may (y, add_mset (Recovering q t0 []) T, r, w) (y, add_mset (Recover q' t0) T, r, w)"
| recovered: "next_queue q = None \<Longrightarrow>
    server_step b may (y, add_mset (Recovering q t0 []) T, r, w)
      (y, T, r, w\<lparr>metrics := (metrics w)\<lparr>RecoveryDuration := clock w - t0\<rparr>\<rparr>)"

abbreviation server_run :: "string \<Rightarrow> (string \<Rightarrow> bool) \<Rightarrow> server \<Rightarrow> server \<Rightarrow> bool" where
  "server_run b may \<equiv> (server_step b may)\<^sup>*\<^sup>*"

section \<open>The pool within the server\<close>

text \<open>Seen from the pool, a step of the server is a step of \<open>Worker_Protocol\<close>, nothing, or a new pool.\<close>

lemma server_step_pool:
  assumes "server_step b may (y, T, r, w) (y', T', r', w')"
  shows "pool_step\<^sup>=\<^sup>= y y' \<or> (\<exists>cfg p0. new_pool cfg = Inr p0 \<and> y' = started p0)"
  using assms
proof (cases rule: server_step.cases)
  case (cleans_up i j c panicking)
  with pool_step.cleanup [OF cleans_up(5)] show ?thesis by simp
qed (auto simp: local_step_def intro: pool_step.intros)

lemma server_step_reach:
  "server_step b may (y, T, r, w) (y', T', r', w') \<Longrightarrow> pool_reach y \<Longrightarrow> pool_reach y'"
  by (drule server_step_pool) (auto simp: new_pool_def intro: pool_reach.intros)

text \<open>Every request can be served in every state: the rule above is never stuck.\<close>

lemma dispatch_pool:
  "dispatch job (p, r, w) = (x, p', r', w') \<Longrightarrow> p' = p \<or> (\<exists>v w0. Preempt job p w = (Inr v, p', w0))"
proof -
  assume d: "dispatch job (p, r, w) = (x, p', r', w')"
  obtain y p1 w1 where P: "Preempt job p w = (y, p1, w1)" by (metis surj_pair)
  have e: "p' = q" if "enqueue_created job (q, r, w2) = (x, p', r', w')" for q w2
    using that by (auto simp: enqueue_created_def split: prod.splits sum.splits)
  show ?thesis
  proof (cases y)
    case (Inl z)
    with P preempt_from_cases [of job 0 p w y p1 w1] have "p1 = p" by (simp add: Preempt_def)
    with d P Inl show ?thesis by (auto simp: dispatch_def split: if_splits dest: e)
  next
    case (Inr v)
    with d P show ?thesis by (auto simp: dispatch_def split: if_splits dest: e)
  qed
qed

lemma handle_pool:
  assumes "handle (main_store b) html uuid ep i body (p, r, w) = (x, p', r', w')"
  shows "p' = p \<or> (\<exists>job w1 v w2. Preempt job p w1 = (Inr v, p', w2))"
proof (cases "ep = EpCreateJob")
  case True
  with assms have "CreateJob (main_store b) uuid body (p, r, w) = (x, p', r', w')" by simp
  then show ?thesis by (cases rule: CreateJob_dispatch) (auto dest: dispatch_pool)
next
  case False
  with assms handle_read [of ep b html uuid i body p r w x p' r' w'] show ?thesis
    by (cases "ep = EpRetryJob") (auto split: prod.splits)
qed

lemma request_possible:
  assumes s: "serve match (main_store b) html uuid req (pl y, r, w) = (resp, p', r', w')"
    and m: "\<forall>i. match RegisterRoutes req = Inr (EpRetryJob, i) \<longrightarrow> may i" and t: "serving T"
  shows "\<exists>y'. server_step b may (y, T, r, w) (y', T, r', w') \<and> pl y' = p' \<and> pcs y' = pcs y"
proof -
  have "p' = pl y \<or> (\<exists>job w1 v w2. Preempt job (pl y) w1 = (Inr v, p', w2))"
    by (rule serve_cases [OF s]) (auto dest: handle_pool)
  moreover have "pool_step\<^sup>=\<^sup>= y (y\<lparr>pl := pl y, accepted := accepted y\<rparr>)" by simp
  ultimately obtain js where "pool_step\<^sup>=\<^sup>= y (y\<lparr>pl := p', accepted := js\<rparr>)"
    using pool_step.preempt_ok by blast
  from server_step.request [OF s m refl this t] show ?thesis by fastforce
qed

section \<open>Stored jobs\<close>

lemma server_step_kept:
  assumes "server_step b may (y, T, r, w) (y', T', r', w')"
  shows "kept b w w'"
  using assms
proof (cases rule: server_step.cases)
  case (polled i arms)
  then show ?thesis using Router_poll_returns [of arms r w] by (auto simp: kept_table)
next
  case (got i arms j)
  then show ?thesis using Router_poll_returns [of arms r w] by (auto simp: kept_table)
next
  case (saves match req i cr job uuid w1)
  have "kept b w w1" by (rule cfg.kept.R_eqs(3) [OF TrueI saves(9)])
  then show ?thesis by (rule kept_then) (simp add: saves count_submitted_def)
next
  case (dispatches job x p' js)
  then show ?thesis using dispatch_table [OF dispatches(2)] by (auto simp: kept_table)
next
  case (boots readErr cfg openErr S p p0)
  then show ?thesis using boot_table [OF boots(3)] by (auto simp: kept_table new_process_def)
next
  case (boot_fails readErr cfg openErr e w1)
  then show ?thesis using boot_table [OF boot_fails(5)] by (auto simp: kept_table new_process_def)
qed (auto simp: kept_table add_busy_def observe_processing_def begin_kept
    dest: server_kept kept_by.sweep_on_R kept_by.recover_on_R cfg.kept.R_eqs(2))

lemma server_run_kept: "server_run b may (y, T, r, w) (y', T', r', w') \<Longrightarrow> kept b w w'"
proof (induction "(y, T, r, w)" "(y', T', r', w')" arbitrary: y' T' r' w' rule: rtranclp.induct)
  case (rtrancl_into_rtrancl s y' T' r' w')
  obtain y1 T1 r1 w1 where "s = (y1, T1, r1, w1)" by (metis surj_pair)
  with rtrancl_into_rtrancl server_step_kept kept_trans show ?case by blast
qed (simp add: kept_table)

text \<open>
  C2. No job is ever lost. Whatever happens to a server, with any interleaving of requests, workers,
  sweeps and recovery, driver errors at any point, crashes and restarts, every job that is stored stays
  stored, with its type, payload, queue, priority and creation time unchanged and its allowed attempts
  not reduced, and the table stays well formed.
\<close>

theorem jobs_never_lost:
  assumes "server_run b may (y, T, r, w) (y', T', r', w')" "store_inv b w" "store_view b w i = Some j"
  shows "store_inv b w' \<and> (\<exists>j'. store_view b w' i = Some j' \<and> same_job j j')"
  using server_run_kept [OF assms(1)] assms(2,3) by (auto simp: keeps_jobs_def same_jobs_def)

text \<open>
  A short run: time passes, the sweeper of the FIFO queue lists the pending jobs, then the database gets
  locked.
\<close>

abbreviation sample_state :: "task multiset \<Rightarrow> world \<Rightarrow> server" where
  "sample_state T w \<equiv> (started sample_pool, T, sample_router, w)"

lemma sample_run:
  obtains js w' where "server_run ''sqlite'' (\<lambda>i. False) (sample_state {#} sample_world)
      (sample_state {#Sweeping QFifo js#} w')" "set js = {j. (\<exists>i. store_view ''sqlite'' sample_world i = Some j) \<and> active j}"
proof -
  let ?w = "sample_world\<lparr>clock := clock sample_world + 20 * Minute, driver := []\<rparr>"
  have w: "healthy ?w" "store_inv ''sqlite'' ?w" "store_view ''sqlite'' ?w = store_view ''sqlite'' sample_world"
    using sample_inv(2) [of "''sqlite''"] cfg.inv_table [of ?w sample_world "''sqlite''"]
      cfg.view_table [of ?w sample_world "''sqlite''"] sample_healthy(2) by (simp_all add: healthy_def)
  from cfg.pending_ok [OF w(1,2)] w(3) obtain js where l: "ListPendingJobs (main_store ''sqlite'') ?w = ((js, None), ?w)"
    and js: "set js = {j. (\<exists>i. store_view ''sqlite'' sample_world i = Some j) \<and> active j}" by auto
  let ?s = "sample_state {#Sweeping QFifo js#}"
  let ?w2 = "?w\<lparr>clock := clock ?w + 0, driver := [Ok, Fail (Driver ''locked'')]\<rparr>"
  have "server_step ''sqlite'' (\<lambda>i. False) (sample_state {#} sample_world) (sample_state {#} ?w)"
    by (rule server_step.passes) (simp add: duration_defs)
  moreover have "server_step ''sqlite'' (\<lambda>i. False) (sample_state {#} ?w) (?s ?w)"
    using server_step.sweep_lists [OF l, of QFifo "{#}"] by simp
  moreover have "server_step ''sqlite'' (\<lambda>i. False) (?s ?w) (?s ?w2)"
    by (rule server_step.passes) simp
  ultimately have "server_run ''sqlite'' (\<lambda>i. False) (sample_state {#} sample_world) (?s ?w2)"
    by (meson converse_rtranclp_into_rtranclp r_into_rtranclp)
  then show ?thesis using js by (rule that)
qed

theorem jobs_never_lost_witness:
  "\<exists>T w' j'. server_run ''sqlite'' (\<lambda>i. False) (sample_state {#} sample_world) (sample_state T w') \<and> T \<noteq> {#} \<and>
    store_view ''sqlite'' w' ''c'' = Some j' \<and> same_job sample_failed j'"
proof -
  obtain js w' where r: "server_run ''sqlite'' (\<lambda>i. False) (sample_state {#} sample_world)
      (sample_state {#Sweeping QFifo js#} w')" by (rule sample_run)
  have "store_view ''sqlite'' sample_world ''c'' = Some sample_failed" by (simp add: sample_view)
  from jobs_never_lost [OF r sample_inv(2) this] r show ?thesis by (metis add_mset_not_empty)
qed

end
