(* ===== verification/Worker_Rounds.thy ===== *)
theory Worker_Rounds
  imports Server_Run
begin

text \<open>
  The two views of the program brought together. A round of the loop of \<open>worker\<close> as one function
  (\<open>Worker_Pool\<close>), with whatever the rest of the server does while the processor runs, is a run of the
  server's step relation (\<open>Server_Run\<close>), and so are the startup and a sweep: what holds in every run
  holds after each of them.
\<close>

section \<open>The wait for a job\<close>



section \<open>A job, and a round\<close>










section \<open>The startup and a sweep\<close>

lemma sweep_on_runs:
  "sweep_on (main_store b) q js r w = (r', w') \<Longrightarrow>
   server_run b may (y, add_mset (Sweeping q js) T, r, w) (y, T, r', w')"
proof (induction js arbitrary: r w)
  case Nil
  then have "(r', w') = (r, w)" by (cases q) simp_all
  with server_step.swept [of b may y q T r w] show ?case by auto
next
  case (Cons j js)
  obtain r1 w1 where 1: "sweep_on (main_store b) q [j] r w = (r1, w1)" by (metis surj_pair)
  with Cons.prems have "sweep_on (main_store b) q js r1 w1 = (r', w')"
    by (simp add: sweep_on_split [of _ _ j js] del: sweep_on.simps)
  from Cons.IH [OF this] server_step.sweeps [OF 1] show ?case by (rule converse_rtranclp_into_rtranclp [rotated])
qed

text \<open>A sweep as one call is a run in which nothing else happens.\<close>

lemma sweep_runs:
  assumes "ListPendingJobs (main_store b) w = ((js, None), w1)" "\<forall>js. Sweeping q js \<notin># T"
    and "sweep_on (main_store b) q js r w1 = (r', w')"
  shows "server_run b may (y, T, r, w) (y, T, r', w')"
  using server_step.sweep_lists [OF assms(1,2)] sweep_on_runs [OF assms(3)]
  by (rule converse_rtranclp_into_rtranclp)






end
