(* ===== verification/Server_Invariants.thy ===== *)
theory Server_Invariants
  imports Server_Run
begin

text \<open>
  What holds in every run of the server: a finished job stays finished, and the state stays well formed.
\<close>

section \<open>Finished jobs\<close>

text \<open>The job a goroutine has in hand.\<close>

fun held :: "wpc \<Rightarrow> job option" where
  "held (Picked j) = Some j"
| "held (Marked j) = Some j"
| "held (Running j c) = Some j"
| "held (Finished j c) = Some j"
| "held (Cleanup j c panicking) = Some j"
| "held _ = None"

text \<open>A job that rests in store and queues and that no goroutine and no task has in hand.\<close>

definition undisturbed :: "string \<Rightarrow> string \<Rightarrow> job \<Rightarrow> server \<Rightarrow> bool" where
  "undisturbed b i j s = (case s of (y, T, r, w) \<Rightarrow>
     pool_reach y \<and> at_rest b i j (pl y) r w \<and> (\<forall>k h. held (pcs y k) = Some h \<longrightarrow> ID h \<noteq> i) \<and>
     (\<forall>t \<in># T. \<forall>h \<in> set (task_jobs t). ID h \<noteq> i))"

text \<open>On its own, a goroutine takes jobs from its slot only.\<close>

lemma set_update_None: "Some j \<in> set (xs[i := None]) \<Longrightarrow> Some j \<in> set xs"
  using set_update_subset_insert [of xs i None] by auto

lemma local_step_slots:
  assumes "local_step y y'" "pool_reach y"
  shows "Some h \<in> set (preemptQueue (pl y')) \<Longrightarrow> Some h \<in> set (preemptQueue (pl y))"
    "held (pcs y' k) = Some h \<Longrightarrow> held (pcs y k) = Some h \<or> Some h \<in> set (preemptQueue (pl y))"
proof -
  have p: "pool_step y y'" and a: "accepted y' = accepted y" and o: "\<forall>i. pcs y' i = pcs y i \<or> on_its_own (pcs y i)"
    using assms(1) by (simp_all add: local_step_def)
  have inv: "reg_inv y" using pool_reach_inv [OF assms(2)] by (simp add: pool_inv_def)
  show "Some h \<in> set (preemptQueue (pl y)) " if "Some h \<in> set (preemptQueue (pl y'))"
    using p
  proof (cases rule: pool_step.cases)
    case (preempt_err j w e p w')
    with that preempt_from_cases [of j 0 "pl y" w "Inl e" p w'] show ?thesis by (auto simp: Preempt_def)
  next
    case (preempt_ok j w i p w')
    with a show ?thesis by simp
  qed (use that in \<open>auto simp: take_slot_def register_def unregister_def death_signal_def Stop_def Let_def
      split: if_splits dest: set_update_None\<close>)
  show "held (pcs y' k) = Some h \<Longrightarrow> held (pcs y k) = Some h \<or> Some h \<in> set (preemptQueue (pl y))"
    using p
  proof (cases rule: pool_step.cases)
    case (fetch_some i j p)
    have "i < length (preemptQueue (pl y))"
      using reg_inv_index [OF inv, of i] inv fetch_some(2) by (simp add: reg_inv_def)
    moreover have "preemptQueue (pl y) ! i = Some j" using fetch_some(3) by (simp add: take_slot_def)
    ultimately have "Some j \<in> set (preemptQueue (pl y))" by (metis nth_mem)
    then show "held (pcs y' k) = Some h \<Longrightarrow> ?thesis" using fetch_some(1) by (auto split: if_splits)
  next
    case (poll_some i j)
    with o [rule_format, of i] show "held (pcs y' k) = Some h \<Longrightarrow> ?thesis" by simp
  qed (auto split: if_splits)
qed

lemma poll_job: "Router_poll arms r w = Some (oj, r', w') \<Longrightarrow> all_jobs r = all_jobs r' + (case oj of None \<Rightarrow> {#} | Some j \<Rightarrow> {#j#})"
  using Router_poll_order(2) [of "fst arms" "fst (snd arms)" "snd (snd arms)" r w oj r' w'] by simp

lemma undisturbedD:
  assumes "undisturbed b i j (y, T, r, w)"
  shows "pool_reach y" "at_rest b i j (pl y) r w" "held (pcs y k) = Some h \<Longrightarrow> ID h \<noteq> i"
    "t \<in># T \<Longrightarrow> h \<in> set (task_jobs t) \<Longrightarrow> ID h \<noteq> i"
  using assms by (auto simp: undisturbed_def)

lemma undisturbed_pc:
  assumes "undisturbed b i j (y, T, r, w)"
  shows "pcs y n = Picked g \<Longrightarrow> ID g \<noteq> i" "pcs y n = Marked g \<Longrightarrow> ID g \<noteq> i" "pcs y n = Running g c \<Longrightarrow> ID g \<noteq> i"
    "pcs y n = Finished g c \<Longrightarrow> ID g \<noteq> i" "pcs y n = Cleanup g c panicking \<Longrightarrow> ID g \<noteq> i"
  using undisturbedD(3) [OF assms, of n g] by simp_all

lemma server_step_held:
  assumes "server_step b may (y, T, r, w) (y', T', r', w')" "undisturbed b i j (y, T, r, w)" "held (pcs y' k) = Some h"
  shows "ID h \<noteq> i"
proof -
  note u = undisturbedD [OF assms(2)]
  show ?thesis
    using assms(1)
  proof (cases rule: server_step.cases)
    case own
    from local_step_slots(2) [OF own(4) u(1) assms(3)] u(2,3) show ?thesis by (auto simp: at_rest_def)
  next
    case (got n arms g)
    have "g \<in># all_jobs r" using poll_job [OF got(4)] by simp
    with u(2) have "ID g \<noteq> i" by (auto simp: at_rest_def)
    with assms(3) got(1) u(3) show ?thesis by (auto split: if_splits)
  next
    case (boots readErr cfg openErr S p p0)
    with assms(3) show ?thesis by (auto simp: started_def split: if_splits)
  qed (use assms(3) u(3) in \<open>auto split: if_splits dest: undisturbed_pc [OF assms(2)]\<close>)
qed

text \<open>A listing has active jobs, so not the job in question.\<close>

lemma at_rest_listed:
  assumes "ListPendingJobs (main_store b) w = ((js, None), w')" "at_rest b i j p r w" "h \<in> set js"
  shows "ID h \<noteq> i"
  using cfg.pending_sound [OF _ assms(1,3)] assms(2) by (auto simp: at_rest_def)

lemma server_step_tasks:
  assumes "server_step b may (y, T, r, w) (y', T', r', w')" "undisturbed b i j (y, T, r, w)" "t \<in># T'" "h \<in> set (task_jobs t)"
  shows "ID h \<noteq> i"
proof -
  note u = undisturbedD [OF assms(2)]
  show ?thesis
    using assms(1)
  proof (cases rule: server_step.cases)
    case (saves match req k cr job uuid w1)
    have "ID job \<noteq> i" using cfg.save_fresh [OF _ saves(9)] u(2) by (auto simp: at_rest_def)
    with saves(2) assms(3,4) u(4) show ?thesis by auto
  next
    case (sweep_lists js q)
    from at_rest_listed [OF sweep_lists(4) u(2), of h] sweep_lists(2) assms(3,4) u(4) show ?thesis by auto
  next
    case (recover_lists js q t0 T0)
    from at_rest_listed [OF recover_lists(5) u(2), of h] recover_lists(1-3) assms(3,4) u(4) show ?thesis by auto
  next
    case (sweeps q g js T0)
    with u(4) [of "Sweeping q (g # js)" h] u(4) [of t h] assms(3,4) show ?thesis by auto
  next
    case (recovers_job q g t0 js T0)
    with u(4) [of "Recovering q t0 (g # js)" h] u(4) [of t h] assms(3,4) show ?thesis by auto
  qed (use assms(3,4) u(4) in \<open>auto split: if_splits\<close>)
qed

lemma server_step_rest:
  assumes "server_step b may (y, T, r, w) (y', T', r', w')" "\<not> may i" "undisturbed b i j (y, T, r, w)"
  shows "at_rest b i j (pl y') r' w'"
proof -
  note u = undisturbedD [OF assms(3)]
  have new: "at_rest b i j (pl y) r (new_process w)" by (rule at_rest_table [OF u(2)]) (simp_all add: new_process_def)
  have listed: "at_rest b i j (pl y) r w1" if "ListPendingJobs (main_store b) w = (l, w1)" for l w1
    by (rule at_rest_spares [OF u(2) spares_store [OF cfg.same_at_eqs(7) [OF that]]]) simp
  show ?thesis
    using assms(1)
  proof (cases rule: server_step.cases)
    case own
    with local_step_slots(1) [OF own(4) u(1)] u(2) show ?thesis by (auto simp: at_rest_def)
  next
    case (marked n g)
    with u(2) u(3) [of n g] show ?thesis by (auto intro: at_rest_spares begin_spares)
  next
    case (registers n g c p)
    with u(2) show ?thesis by (auto simp: register_def Let_def add_busy_def intro: at_rest_table)
  next
    case (settles n g c err x)
    with u(2) u(3) [of n g] show ?thesis by (auto intro: at_rest_spares dest: settle_spares)
  next
    case (request match html uuid req resp p' js)
    show ?thesis
    proof (rule serve_cases [OF request(2)])
      assume "(p', r', w') = (pl y, r, w)"
      with u(2) request(4) show ?thesis by simp
    next
      fix ep k x
      assume "match RegisterRoutes req = Inr (ep, k)"
        "handle (main_store b) html uuid ep k (req_body req) (pl y, r, w) = (x, p', r', w')"
      with handle_rest [of b html uuid ep k _ "pl y" r w x p' r' w' i j] u(2) assms(2) request(3,4) show ?thesis by auto
    qed
  next
    case (saves match req k cr job uuid w1)
    have "at_rest b i j (pl y) r w1"
      by (rule at_rest_spares [OF u(2) spares_store [OF cfg.same_at_eqs(5) [OF saves(9)]]]) (use u(2) in \<open>auto simp: at_rest_def\<close>)
    then show ?thesis using saves(1,3,4) by (auto simp: count_submitted_def intro: at_rest_table)
  next
    case (dispatches job x p' js)
    then have "ID job \<noteq> i" using u(4) [of "Saved job" job] by simp
    with dispatch_rest [OF dispatches(2) u(2)] dispatches(3) show ?thesis by simp
  next
    case (sweeps q g js T0)
    then have "ID g \<noteq> i" using u(4) [of "Sweeping q (g # js)" g] by simp
    with sweep_on_spares [OF sweeps(4), of i] sweeps(1-3) u(2) show ?thesis by (auto intro: at_rest_spares)
  next
    case (recovers_job q g t0 js T0)
    then have "ID g \<noteq> i" using u(4) [of "Recovering q t0 (g # js)" g] by simp
    with recover_on_spares [OF recovers_job(4), of i] recovers_job(1-3) u(2) show ?thesis by (auto intro: at_rest_spares)
  next
    case (recovers_not q g e t0 js T0)
    then have "ID g \<noteq> i" using u(4) [of "Recovering q t0 (g # js)" g] by simp
    with recover_on_spares [OF recovers_not(4), of i] recovers_not(1-3) u(2) show ?thesis by (auto intro: at_rest_spares)
  next
    case (boots readErr cfg openErr S p p0)
    from boot_rest [OF boots(3) new] boot_parts [OF boots(3)] boots(1,5) show ?thesis by (auto simp: started_def)
  next
    case (boot_fails readErr cfg openErr e w1)
    then show ?thesis using boot_table [OF boot_fails(5)] u(2)
      by (auto simp: new_process_def intro: at_rest_table)
  next
    case (closes x)
    have "all_jobs r' = all_jobs r"
      using closes(4) by (auto simp: Router_Close_def MemoryQueue_Close_def SortedQueue_Close_def
          RateLimitedQueue_Close_def all_jobs_def split: if_splits)
    with closes u(2) show ?thesis by (simp add: at_rest_def)
  next
    case refilled
    with u(2) show ?thesis by (simp add: at_rest_def all_jobs_def)
  qed (use u(2) listed in \<open>auto simp: unregister_def add_busy_def observe_processing_def Stop_def
      intro: at_rest_table at_rest_spares Router_poll_spares split: if_splits\<close>)
qed

lemma server_run_undisturbed:
  "server_run b may (y, T, r, w) (y', T', r', w') \<Longrightarrow> \<not> may i \<Longrightarrow> undisturbed b i j (y, T, r, w) \<Longrightarrow>
   undisturbed b i j (y', T', r', w')"
proof (induction "(y, T, r, w)" "(y', T', r', w')" arbitrary: y' T' r' w' rule: rtranclp.induct)
  case (rtrancl_into_rtrancl s y' T' r' w')
  obtain y1 T1 r1 w1 where s: "s = (y1, T1, r1, w1)" by (metis surj_pair)
  with rtrancl_into_rtrancl have u: "undisturbed b i j (y1, T1, r1, w1)"
    and st: "server_step b may (y1, T1, r1, w1) (y', T', r', w')" by blast+
  from server_step_rest [OF st rtrancl_into_rtrancl.prems(1) u] server_step_held [OF st u] server_step_tasks [OF st u]
    server_step_reach [OF st undisturbedD(1) [OF u]]
  show ?case by (auto simp: undisturbed_def)
qed

text \<open>
  C3. A finished job stays finished. A stored job that is completed or failed, of which no copy waits in
  a queue or a slot and which no worker, no sweep, no recovery and no handler has in hand, stays exactly
  as it is stored, in every interleaving and whatever fails, through crashes and restarts, until a
  client asks for its retry: no queue, slot, worker or sweep gets it again.
\<close>

theorem finished_jobs_stay:
  assumes "server_run b may (y, T, r, w) (y', T', r', w')" "\<not> may i"
    and "pool_reach y" "store_inv b w" "store_view b w i = Some j" "\<not> active j"
    and "i \<notin> ID ` set_mset (all_jobs r)" "\<forall>k. Some k \<in> set (preemptQueue (pl y)) \<longrightarrow> ID k \<noteq> i"
    and "\<forall>n k. held (pcs y n) = Some k \<longrightarrow> ID k \<noteq> i" "\<forall>t \<in># T. \<forall>k \<in> set (task_jobs t). ID k \<noteq> i"
  shows "store_view b w' i = Some j \<and> i \<notin> ID ` set_mset (all_jobs r') \<and>
    (\<forall>k. Some k \<in> set (preemptQueue (pl y')) \<longrightarrow> ID k \<noteq> i) \<and> (\<forall>n k. held (pcs y' n) = Some k \<longrightarrow> ID k \<noteq> i) \<and>
    (\<forall>t \<in># T'. \<forall>k \<in> set (task_jobs t). ID k \<noteq> i)"
proof -
  have "undisturbed b i j (y, T, r, w)" using assms(3-10) by (simp add: undisturbed_def at_rest_def)
  from server_run_undisturbed [OF assms(1,2) this] show ?thesis by (auto simp: undisturbed_def at_rest_def)
qed

lemma sample_start:
  "all_jobs sample_router = {#}" "preemptQueue (pl (started sample_pool)) = [None]" "pcs (started sample_pool) n = Gone \<or> pcs (started sample_pool) n = Starting"
  by (simp_all add: sample_router_def NewRouter_def NewSortedQueue_def sample_limited_def sample_queue_def all_jobs_def
      started_def Start_def sample_pool_def)

theorem finished_jobs_stay_witness:
  "\<exists>js w'. server_run ''sqlite'' (\<lambda>i. False) (sample_state {#} sample_world) (sample_state {#Sweeping QFifo js#} w') \<and>
     store_view ''sqlite'' w' ''c'' = Some sample_failed \<and> (\<forall>k \<in> set js. ID k \<noteq> ''c'')"
proof -
  obtain js w' where r: "server_run ''sqlite'' (\<lambda>i. False) (sample_state {#} sample_world)
      (sample_state {#Sweeping QFifo js#} w')" by (rule sample_run)
  have h: "held (pcs (started sample_pool) n) = None" for n using sample_start(3) [of n] by auto
  have "store_view ''sqlite'' sample_world ''c'' = Some sample_failed" by (simp add: sample_view)
  from finished_jobs_stay [OF r _ pool_reach.init [OF sample_pool_new] sample_inv(2) this] sample_start h r
  show ?thesis by auto
qed

section \<open>The server stays well formed\<close>






section \<open>A listing that is out of date\<close>

text \<open>
  C31. A sweep undoes a completion. A sweep acts on what its listing said. When it comes to a job that was
  listed as stuck in processing, and the worker has completed the job in the meantime, the sweep sets
  the completed job back to pending and enqueues it, so that it is run again.
\<close>

theorem stale_sweep_revives:
  assumes "healthy w" "store_inv b w" "store_view b w (ID j) = Some k" "Status k = StatusProcessing"
    and "10 * Minute < clock w - UpdatedAt k" "pcs y n = Finished j c" "memq_room (FIFO r) 1"
  shows "\<exists>y1 w1 r2 w2 k1 k2.
    server_step b may (y, add_mset (Sweeping QFifo (k # js)) T, r, w) (y1, add_mset (Sweeping QFifo (k # js)) T, r, w1) \<and>
    store_view b w1 (ID j) = Some k1 \<and> Status k1 = StatusCompleted \<and>
    server_step b may (y1, add_mset (Sweeping QFifo (k # js)) T, r, w1) (y1, add_mset (Sweeping QFifo js) T, r2, w2) \<and>
    store_view b w2 (ID j) = Some k2 \<and> Status k2 = StatusPending \<and> ID j \<in> ID ` set_mset (all_jobs r2)"
proof -
  have i: "ID k = ID j" by (rule cfg.view_ID [OF assms(2,3)])
  from cfg.status_ok [OF assms(1-3) valid_status_consts(3), of "''''"] obtain w1 where
    w1: "UpdateJobStatus (main_store b) (ID j) StatusCompleted '''' w = (Inr (), w1)" "healthy w1" "store_inv b w1"
      "clock w1 = clock w" "store_view b w1 = spec_status (clock w) (ID j) StatusCompleted '''' (store_view b w)" by blast
  let ?k1 = "with_status (clock w) StatusCompleted '''' k"
  have v1: "store_view b w1 (ID j) = Some ?k1" using w1(5) assms(3) by (simp add: spec_status_def)
  have "settle_job (main_store b) None (contexts (pl y) ! c) (ID j) r w = (Inr (), r, w1)"
    using w1(1) by (simp add: settle_job_def Router_Ack_def MemoryQueue_Ack_def ack_def)
  from server_step.settles [OF assms(6) this, where may = may]
  have s1: "server_step b may (y, add_mset (Sweeping QFifo (k # js)) T, r, w)
    (goto n (Cleanup j c False) y, add_mset (Sweeping QFifo (k # js)) T, r, w1)" by (simp add: panics_with_def)
  from cfg.status_ok [OF w1(2,3) v1 valid_status_consts(1), of "''''"] obtain w2 where
    w2: "UpdateJobStatus (main_store b) (ID j) StatusPending '''' w1 = (Inr (), w2)"
      "store_view b w2 = spec_status (clock w1) (ID j) StatusPending '''' (store_view b w1)" by blast
  let ?r2 = "r\<lparr>FIFO := (FIFO r)\<lparr>jobs := jobs (FIFO r) @ [k\<lparr>Status := StatusPending\<rparr>]\<rparr>\<rparr>"
  have "MemoryQueue_Enqueue (k\<lparr>Status := StatusPending\<rparr>) (FIFO r) w2 =
      (Inr (), (FIFO r)\<lparr>jobs := jobs (FIFO r) @ [k\<lparr>Status := StatusPending\<rparr>]\<rparr>, w2)"
    using assms(7) by (simp add: MemoryQueue_Enqueue_def memq_room_def)
  then have "sweep_on (main_store b) QFifo [k] r w1 = (?r2, w2)"
    using assms(4,5) w1(4) w2(1) i by (simp add: StatusPending_def StatusProcessing_def)
  from server_step.sweeps [OF this, where may = may] have s2: "server_step b may
    (goto n (Cleanup j c False) y, add_mset (Sweeping QFifo (k # js)) T, r, w1)
    (goto n (Cleanup j c False) y, add_mset (Sweeping QFifo js) T, ?r2, w2)" .
  have "store_view b w2 (ID j) = Some (with_status (clock w1) StatusPending '''' ?k1)"
    using w2(2) v1 by (simp add: spec_status_def)
  moreover have "ID j \<in> ID ` set_mset (all_jobs ?r2)" using i by (simp add: all_jobs_def)
  ultimately show ?thesis using s1 v1 s2 by (fastforce simp: with_status_def)
qed


theorem stale_sweep_revives_witness:
  "\<exists>T r y1 w1 T2 r2 w2 k2. let w = sample_world\<lparr>clock := 20 * Minute\<rparr>; y = goto 0 (Finished sample_processing 0) (started sample_pool) in
     server_step ''sqlite'' (\<lambda>i. False) (y, T, r, w) (y1, T, r, w1) \<and>
     server_step ''sqlite'' (\<lambda>i. False) (y1, T, r, w1) (y1, T2, r2, w2) \<and>
     store_view ''sqlite'' w2 ''b'' = Some k2 \<and> Status k2 = StatusPending"
proof -
  let ?w = "sample_world\<lparr>clock := 20 * Minute\<rparr>"
  have t: "table ?w = table sample_world" by simp
  have w: "healthy ?w" "store_inv ''sqlite'' ?w" "store_view ''sqlite'' ?w (ID sample_processing) = Some sample_processing"
    using sample_inv(2) [of "''sqlite''"] sample_healthy(2) cfg.inv_table [OF t, of "''sqlite''"]
      cfg.view_table [OF t, of "''sqlite''"] by (simp_all add: healthy_def sample_view)
  have "10 * Minute < clock ?w - UpdatedAt sample_processing" by (simp add: duration_defs sample_processing_def)
  moreover have "pcs (goto 0 (Finished sample_processing 0) (started sample_pool)) 0 = Finished sample_processing 0" by simp
  moreover have "memq_room (FIFO sample_router) 1" by (simp add: sample_router_def NewRouter_def)
  ultimately show ?thesis
    using stale_sweep_revives [OF w sample_fields(5), of "goto 0 (Finished sample_processing 0) (started sample_pool)" 0 0
        sample_router "\<lambda>i. False" "[]" "{#}"]
    by (simp add: Let_def) blast
qed

end
