(* ===== verification/Worker_Shutdown.thy ===== *)
theory Worker_Shutdown
  imports Pool_Properties
begin

text \<open>
  The end of a pool (\<open>Stop\<close> and \<open>Wait\<close> of \<open>internal/worker/pool.go\<close>, called last in
  \<open>cmd/server/main.go\<close>): once \<open>done\<close> is closed every goroutine runs to its end.
\<close>

section \<open>The way that is left\<close>

text \<open>
  How many steps a goroutine has at most before it, once \<open>done\<close> is closed. After its death signal it is
  counted by \<open>before_wg\<close> (two deferred calls left), then by \<open>before_alive\<close> (one).
\<close>

fun steps_left :: "wpc \<Rightarrow> nat" where
  "steps_left Gone = 0"
| "steps_left Exiting = 3"
| "steps_left Loop = 4"
| "steps_left (Cleanup j c panicking) = 5"
| "steps_left (Finished j c) = 6"
| "steps_left (Running j c) = 7"
| "steps_left (Marked j) = 8"
| "steps_left (Picked j) = 9"
| "steps_left Polling = 10"
| "steps_left Fetch = 11"
| "steps_left Starting = 12"

definition pool_left :: "sys \<Rightarrow> nat" where
  "pool_left s = (\<Sum>i < worker_count (pl s). steps_left (pcs s i)) + 2 * before_wg s + before_alive s"



lemma pool_left_other [simp]:
  "worker_count p = worker_count (pl s) \<Longrightarrow> pool_left (s\<lparr>pl := p\<rparr>) = pool_left s"
  "pool_left (s\<lparr>accepted := js\<rparr>) = pool_left s" "pool_left (s\<lparr>taken := js\<rparr>) = pool_left s"
  "pool_left (s\<lparr>sup := x\<rparr>) = pool_left s" "pool_left (death_signal i s) = pool_left s"
  by (simp_all add: pool_left_def)











end
