(* ===== verification/Server_Shutdown.thy ===== *)
theory Server_Shutdown
  imports Server_Invariants Worker_Shutdown
begin

text \<open>
  What a shutdown leaves behind: as long as the database works and no processor panics, a job is stored
  as being processed only while a worker has it in hand, so that a server whose pool has come to rest
  leaves no job in that state.
\<close>

section \<open>Jobs in processing\<close>

text \<open>The job a worker has marked and not yet settled.\<close>

fun marked_job :: "wpc \<Rightarrow> job option" where
  "marked_job (Marked j) = Some j"
| "marked_job (Running j c) = Some j"
| "marked_job (Finished j c) = Some j"
| "marked_job _ = None"

definition in_hand :: "sys \<Rightarrow> string set" where
  "in_hand y = {i. \<exists>n j. marked_job (pcs y n) = Some j \<and> ID j = i}"

text \<open>
  What the last process left, before the recovery has dealt with it: any job until \<open>main\<close> has listed
  the jobs for the first time (or has failed), then the listed ones that are still ahead.
\<close>

fun left_over :: "task \<Rightarrow> string set" where
  "left_over (Recover QFifo t) = UNIV"
| "left_over (Recovering QFifo t js) = {ID j |j. j \<in> set js \<and> Status j = StatusProcessing}"
| "left_over RecoveryFailed = UNIV"
| "left_over _ = {}"

definition accounted :: "string \<Rightarrow> server \<Rightarrow> bool" where
  "accounted b s = (case s of (y, T, r, w) \<Rightarrow>
     in_processing (store_view b w) \<subseteq> in_hand y \<union> (\<Union>t \<in> set_mset T. left_over t))"

text \<open>
  An orderly state: no failure of the database is to come, no counter is at the limit of its column, and
  no worker is unwinding a panic.
\<close>

definition orderly :: "string \<Rightarrow> server \<Rightarrow> bool" where
  "orderly b s = (case s of (y, T, r, w) \<Rightarrow> healthy w \<and>
     (\<forall>i j. store_view b w i = Some j \<longrightarrow> store_fits b (next_count j)) \<and> (\<forall>n j c. pcs y n \<noteq> Cleanup j c True))"

definition orderly_step :: "string \<Rightarrow> (string \<Rightarrow> bool) \<Rightarrow> server \<Rightarrow> server \<Rightarrow> bool" where
  "orderly_step b may s s' \<longleftrightarrow> server_step b may s s' \<and> orderly b s \<and> orderly b s'"

abbreviation orderly_run :: "string \<Rightarrow> (string \<Rightarrow> bool) \<Rightarrow> server \<Rightarrow> server \<Rightarrow> bool" where
  "orderly_run b may \<equiv> (orderly_step b may)\<^sup>*\<^sup>*"

section \<open>What a worker does to the status of its job\<close>

lemma processing_status: "in_processing (spec_status now i st msg m) \<subseteq> insert i (in_processing m)"
  by (auto simp: in_processing_def spec_status_def split: if_splits)

lemma processing_table: "table w' = table w \<Longrightarrow> in_processing (store_view b w') = in_processing (store_view b w)"
  using cfg.view_table [of w' w b] by simp

lemma begin_processing:
  assumes "store_inv b w"
  shows "in_processing (store_view b (begin_job (main_store b) j w)) \<subseteq> insert (ID j) (in_processing (store_view b w))"
proof -
  let ?w = "w\<lparr>metrics := (metrics w)\<lparr>JobWaitDuration :=
    observe_label (QueueType j) (clock w - CreatedAt j) (JobWaitDuration (metrics w))\<rparr>\<rparr>"
  obtain x w' where u: "UpdateJobStatus (main_store b) (ID j) StatusProcessing '''' ?w = (x, w')" by (metis surj_pair)
  have e: "begin_job (main_store b) j w = w'"
    using u by (simp add: begin_job_def Let_def Router_SetProcessing_def MemoryQueue_SetProcessing_def set_processing_def)
  have t: "table ?w = table w" by simp
  have i: "store_inv b ?w" using assms cfg.inv_table [OF t, of b] by simp
  show ?thesis
  proof (cases x)
    case (Inl a)
    with cfg.fail_atomic(2) [of b "ID j" StatusProcessing "''''" ?w] u have "table w' = table w" by simp
    then show ?thesis using e processing_table [of w' w b] by auto
  next
    case (Inr a)
    with cfg.status_effect [OF i] u have "store_view b w' = spec_status (clock w) (ID j) StatusProcessing '''' (store_view b w)"
      using cfg.view_table [OF t, of b] by simp
    then show ?thesis using e processing_status by simp
  qed
qed

text \<open>With a working database the verdict of a worker takes its job out of processing.\<close>

lemma settle_processing:
  assumes s: "settle_job (main_store b) err cx i r w = (x, r', w')" and w: "healthy w" "store_inv b w"
    and f: "\<And>j. store_view b w i = Some j \<Longrightarrow> store_fits b (next_count j)"
  shows "in_processing (store_view b w') \<subseteq> in_processing (store_view b w) - {i}"
proof (cases "store_view b w i")
  case None
  have "calmed b w w'" by (rule calmed_by.settle_R [OF s])
  with w None show ?thesis by (auto simp: calms_def in_processing_def)
next
  case (Some j)
  consider "err = None" | "err \<noteq> None" "cx = CtxCanceled" | "err \<noteq> None" "cx \<noteq> CtxCanceled" by blast
  then show ?thesis
  proof cases
    case 1
    with s have "UpdateJobStatus (main_store b) i StatusCompleted '''' w = (x, w')"
      by (auto simp: settle_job_def Router_Ack_def MemoryQueue_Ack_def ack_def split: prod.splits)
    with cfg.status_ok [OF w Some valid_status_consts(3), of "''''"]
    have "store_view b w' = spec_status (clock w) i StatusCompleted '''' (store_view b w)" by auto
    then show ?thesis by (simp add: in_processing_specs StatusCompleted_def StatusProcessing_def)
  next
    case 2
    from cfg.requeue_ok [OF w, of i] obtain w1 where
      w1: "Requeue (main_store b) i w = (Inr (), w1)" "store_view b w1 = spec_requeue (clock w) i (store_view b w)"
        "store_inv b w1" by blast
    with 2 s have "calmed b w1 w'"
      by (auto simp: settle_job_def Router_Requeue_def MemoryQueue_Requeue_def on_defs requeue_with_def
          split: prod.splits sum.splits option.splits intro: calmed_by.fifo.R_enq
          dest: cfg.calm.R_eqs(1))
    with w1 show ?thesis by (auto simp: calms_def in_processing_specs)
  next
    case 3
    with s obtain q' where k: "nack_with MemoryQueue_Enqueue (main_store b) i (FIFO r) w = (x, q', w')"
      by (auto simp: settle_job_def Router_Nack_def MemoryQueue_Nack_def on_defs split: prod.splits)
    from mqs.nack_store(4) [OF w Some f [OF Some] k] show ?thesis
      by (auto simp: in_processing_def after_failure_def after_retry_def with_status_def status_defs split: if_splits)
  qed
qed


lemma recover_processing:
  assumes "recover_on (main_store b) QFifo [j] r w = (Inr (), r', w')" "store_inv b w" "Status j = StatusProcessing"
  shows "in_processing (store_view b w') \<subseteq> in_processing (store_view b w) - {ID j}"
proof -
  obtain y w1 where u: "UpdateJobStatus (main_store b) (ID j) StatusPending '''' w = (y, w1)" by (metis surj_pair)
  obtain z q w2 where e: "MemoryQueue_Enqueue (j\<lparr>Status := StatusPending\<rparr>) (FIFO r) w1 = (z, q, w2)" by (metis surj_pair)
  from assms(1,3) u e have y: "y = Inr ()" "table w' = table w2"
    by (auto split: prod.splits sum.splits)
  have "table w2 = table w1" using mq.enq_world(1) [OF e] .
  then have "in_processing (store_view b w') = in_processing (store_view b w1)" using y(2) processing_table by metis
  moreover have "store_view b w1 = spec_status (clock w) (ID j) StatusPending '''' (store_view b w)"
    using cfg.status_effect [OF assms(2)] u y(1) by simp
  ultimately show ?thesis by (simp add: in_processing_specs StatusPending_def StatusProcessing_def)
qed

section \<open>The invariant\<close>

lemma in_hand_goto:
  "i \<in> in_hand y \<Longrightarrow> (\<And>j. marked_job (pcs y n) = Some j \<Longrightarrow> marked_job c = Some j \<or> ID j \<noteq> i) \<Longrightarrow> i \<in> in_hand (goto n c y)"
  unfolding in_hand_def by (auto split: if_splits) (metis option.inject)

lemma in_hand_other [simp]: "in_hand (y\<lparr>pl := p\<rparr>) = in_hand y" "in_hand (y\<lparr>accepted := js\<rparr>) = in_hand y"
  by (simp_all add: in_hand_def)

lemma in_hand_local: "local_step y y' \<Longrightarrow> in_hand y \<subseteq> in_hand y'"
proof -
  assume "local_step y y'"
  then have "\<forall>n. pcs y' n = pcs y n \<or> on_its_own (pcs y n)" by (simp add: local_step_def)
  moreover have "marked_job c = None" if "on_its_own c" for c using that by (cases c) simp_all
  ultimately have "marked_job (pcs y n) = Some j \<Longrightarrow> marked_job (pcs y' n) = Some j" for n j
    by (metis option.distinct(1))
  then show ?thesis by (auto simp: in_hand_def)
qed

text \<open>A complete listing has every job in processing.\<close>

lemma listed_processing:
  assumes "ListPendingJobs (main_store b) w = ((js, x), w')" "healthy w" "store_inv b w"
  shows "in_processing (store_view b w') \<subseteq> {ID j |j. j \<in> set js \<and> Status j = StatusProcessing}"
proof -
  from cfg.pending_ok [OF assms(2,3)] assms(1) have js: "set js = {j. (\<exists>i. store_view b w i = Some j) \<and> active j}" by auto
  have t: "table w' = table w" using cfg.pending_table [of b w] assms(1) by simp
  show ?thesis
  proof
    fix i assume "i \<in> in_processing (store_view b w')"
    then obtain j where j: "store_view b w i = Some j" "Status j = StatusProcessing"
      using cfg.view_table [OF t, of b] by (auto simp: in_processing_def)
    then have "j \<in> set js" using js by (auto simp: active_def)
    moreover have "ID j = i" by (rule cfg.view_ID [OF assms(3) j(1)])
    ultimately show "i \<in> {ID j |j. j \<in> set js \<and> Status j = StatusProcessing}" using j(2) by auto
  qed
qed

lemma accounted_step:
  assumes "orderly_step b may (y, T, r, w) (y', T', r', w')" "store_inv b w" "accounted b (y, T, r, w)"
  shows "accounted b (y', T', r', w')"
proof -
  have o: "healthy w" "\<And>i j. store_view b w i = Some j \<Longrightarrow> store_fits b (next_count j)" "\<And>n j c. pcs y' n \<noteq> Cleanup j c True"
    using assms(1) by (auto simp: orderly_step_def orderly_def)
  have a: "in_processing (store_view b w) \<subseteq> in_hand y \<union> (\<Union>t \<in> set_mset T. left_over t)"
    using assms(3) by (simp add: accounted_def)
  have calm: "accounted b (y', T', r', w')"
    if c: "calmed b w w'" and h: "in_hand y \<subseteq> in_hand y'"
      and l: "(\<Union>t \<in> set_mset T. left_over t) \<subseteq> (\<Union>t \<in> set_mset T'. left_over t)"
  proof -
    have "in_processing (store_view b w') \<subseteq> in_processing (store_view b w)" using c assms(2) by (simp add: calms_def)
    also note a
    also have "in_hand y \<union> (\<Union>t \<in> set_mset T. left_over t) \<subseteq> in_hand y' \<union> (\<Union>t \<in> set_mset T'. left_over t)"
      using h l by (rule Un_mono)
    finally show ?thesis by (simp add: accounted_def)
  qed
  have same: "calmed b w w'" if "table w' = table w" using that by (rule cfg.calms_table)
  have "server_step b may (y, T, r, w) (y', T', r', w')" using assms(1) by (simp add: orderly_step_def)
  then show ?thesis
  proof (cases rule: server_step.cases)
    case own
    with in_hand_local show ?thesis by (intro calm same) auto
  next
    case (polled n arms)
    then show ?thesis using Router_poll_returns [of arms r w] by (intro calm same) auto
  next
    case (gave_up n)
    then show ?thesis by (intro calm same) (auto intro: in_hand_goto)
  next
    case (got n arms j)
    then show ?thesis using Router_poll_returns [of arms r w] by (intro calm same) (auto intro: in_hand_goto)
  next
    case (marked n j)
    have "in_hand y \<subseteq> in_hand y'" "ID j \<in> in_hand y'" using marked by (auto intro: in_hand_goto) (auto simp: in_hand_def)
    with begin_processing [OF assms(2), of j] a marked(2-4) show ?thesis by (auto simp: accounted_def)
  next
    case (registers n j c p)
    then show ?thesis by (intro calm same) (auto simp: add_busy_def intro!: in_hand_goto)
  next
    case (returned n j c d)
    then show ?thesis by (intro calm same) (auto simp: observe_processing_def intro: in_hand_goto)
  next
    case (panicked n j c)
    with o(3) [of n j c] show ?thesis by simp
  next
    case (settles n j c err x)
    have "i \<in> in_hand y'" if "i \<in> in_hand y" "i \<noteq> ID j" for i
      using settles(1,3) that by (auto intro: in_hand_goto)
    with settle_processing [OF settles(4) o(1) assms(2) o(2)] a settles(2) show ?thesis
      by (fastforce simp: accounted_def)
  next
    case (cleans_up n j c panicking)
    then show ?thesis by (intro calm same) (auto simp: add_busy_def intro!: in_hand_goto)
  next
    case (request match html uuid req resp p' js)
    then show ?thesis using calmed_by.serve_R [OF request(2)] by (intro calm) auto
  next
    case (saves match req k cr job uuid w1)
    have "Status job \<noteq> StatusProcessing" using saves(8) by (simp add: new_job_def StatusPending_def StatusProcessing_def)
    from cfg.calm.R_eqs(3) [OF this saves(9)] have "calmed b w w'"
      by (rule cfg.calm.R_then) (simp_all add: saves(4) count_submitted_def)
    with saves show ?thesis by (intro calm) auto
  next
    case (dispatches job x p' js)
    then show ?thesis using dispatch_table [OF dispatches(2)] by (intro calm same) auto
  next
    case (sweep_lists js q)
    then show ?thesis using cfg.pending_table [of b w] by (intro calm same) auto
  next
    case (sweep_fails js e)
    then show ?thesis using cfg.pending_table [of b w] by (intro calm same) auto
  next
    case (sweeps q j js T0)
    then show ?thesis using calmed_by.sweep_on_R [OF sweeps(4)] by (intro calm) auto
  next
    case (boots readErr cfg openErr S p p0)
    then show ?thesis by (auto simp: accounted_def)
  next
    case (boot_fails readErr cfg openErr e w1)
    then show ?thesis using boot_table [OF boot_fails(5)] by (intro calm same) (auto simp: new_process_def)
  next
    case (recover_lists js q t0 T0)
    show ?thesis
    proof (cases q)
      case QFifo
      with listed_processing [OF recover_lists(5) o(1) assms(2)] recover_lists(1-3) show ?thesis
        by (auto simp: accounted_def)
    qed (use recover_lists cfg.pending_table [of b w] in \<open>intro calm same; auto\<close>)+
  next
    case (recover_fails js e q t0 T0)
    then show ?thesis by (auto simp: accounted_def)
  next
    case (recovers_job q j t0 js T0)
    have c: "calmed b w w'" by (rule calmed_by.recover_on_R [OF recovers_job(4)])
    show ?thesis
    proof (cases "q = QFifo \<and> Status j = StatusProcessing")
      case True
      with recover_processing [OF _ assms(2)] recovers_job(4) have
        "in_processing (store_view b w') \<subseteq> in_processing (store_view b w) - {ID j}" by blast
      with a recovers_job(1-3) True show ?thesis by (fastforce simp: accounted_def)
    next
      case False
      then have "left_over (Recovering q t0 (j # js)) \<subseteq> left_over (Recovering q t0 js)" by (cases q) auto
      with c recovers_job(1-3) show ?thesis by (intro calm) auto
    qed
  next
    case (recovers_not q j e t0 js T0)
    then show ?thesis by (auto simp: accounted_def)
  next
    case (recovers_next q q' t0 T0)
    have "left_over (Recovering q t0 []) = {}" by (cases q) simp_all
    with recovers_next show ?thesis by (intro calm same) auto
  next
    case (recovered q t0)
    have "left_over (Recovering q t0 []) = {}" by (cases q) simp_all
    with recovered show ?thesis by (intro calm same) auto
  qed (rule calm; (rule same)?; simp)+
qed


lemma accounted_run:
  "orderly_run b may s (y, T, r, w) \<Longrightarrow> s = (y0, T0, r0, w0) \<Longrightarrow> store_inv b w0 \<Longrightarrow> pool_reach y0 \<Longrightarrow>
   accounted b s \<Longrightarrow> accounted b (y, T, r, w) \<and> store_inv b w \<and> pool_reach y"
proof (induction "(y, T, r, w)" arbitrary: y T r w rule: rtranclp_induct)
  case (step s1)
  obtain y1 T1 r1 w1 where s1: "s1 = (y1, T1, r1, w1)" by (metis surj_pair)
  from step.hyps(3) [OF s1 step.prems] have i: "accounted b (y1, T1, r1, w1)" "store_inv b w1" "pool_reach y1" by simp_all
  have o: "orderly_step b may (y1, T1, r1, w1) (y, T, r, w)" using step.hyps(2) s1 by simp
  then have st: "server_step b may (y1, T1, r1, w1) (y, T, r, w)" by (simp add: orderly_step_def)
  from accounted_step [OF o i(2,1)] server_step_kept [OF st] server_step_reach [OF st i(3)] i(2) show ?case
    by (simp add: keeps_jobs_def)
qed simp

text \<open>When \<open>Wait\<close> returns, no worker is left.\<close>

lemma at_rest_no_worker:
  assumes "pool_reach y" "pcs y n \<noteq> Gone"
  shows "\<not> Wait_returns (pl y)"
proof -
  have c: "pool_wg (pl y) = live_sum (\<lambda>c. c \<noteq> Gone) y + int (before_wg y)" "life_inv y"
    using pool_reach_inv [OF assms(1)] by (simp_all add: pool_inv_def count_inv_def)
  have "n < worker_count (pl y)" using c(2) assms(2) by (auto simp: life_inv_def not_le [symmetric])
  then have "0 < live_sum (\<lambda>c. c \<noteq> Gone) y"
    unfolding live_sum_def using assms(2) by (intro sum_pos2 [of _ n]) auto
  with c(1) show ?thesis by (simp add: Wait_returns_def)
qed

text \<open>
  C5. A clean shutdown leaves nothing half done. From the start of a process on, as long as the database
  works and no processor panics: once the recovery is over, a job is stored as being processed only
  while a worker has it in hand; so when \<open>Wait\<close> returns no job is stored in that state, and the next
  process has no interrupted job to find.
\<close>

theorem clean_shutdown:
  assumes "boot readErr (Inr cfg) openErr w0 = (Inr (S, p, r0), w1)" "new_pool cfg = Inr p0"
    and "Backend (DatabaseCfg cfg) = b" "store_inv b w0" "serving T"
    and "orderly_run b may (started p0, {#Recover QFifo (clock w1)#}, r0, w1) (y, T, r, w)"
  shows "(\<forall>i j. store_view b w i = Some j \<longrightarrow> Status j = StatusProcessing \<longrightarrow>
      (\<exists>n k. marked_job (pcs y n) = Some k \<and> ID k = i)) \<and>
    (Wait_returns (pl y) \<longrightarrow> (\<forall>i j. store_view b w i = Some j \<longrightarrow> Status j \<noteq> StatusProcessing))"
proof -
  have "store_inv b w1" using boot_table [OF assms(1)] cfg.inv_table [of w1 w0 b] assms(4) by simp
  moreover have "pool_reach (started p0)" using assms(2) by (auto simp: new_pool_def intro: pool_reach.init)
  moreover have "accounted b (started p0, {#Recover QFifo (clock w1)#}, r0, w1)" by (simp add: accounted_def)
  ultimately have a: "accounted b (y, T, r, w)" "pool_reach y" using accounted_run [OF assms(6) refl] by simp_all
  have "left_over t = {}" if "t \<in># T" for t
    using assms(5) that by (cases t) (auto simp: serving_def)
  then have h: "in_processing (store_view b w) \<subseteq> in_hand y" using a(1) by (auto simp: accounted_def)
  then have p: "\<exists>n k. marked_job (pcs y n) = Some k \<and> ID k = i"
    if "store_view b w i = Some j" "Status j = StatusProcessing" for i j
    using that by (force simp: in_processing_def in_hand_def)
  have "\<not> Wait_returns (pl y)" if "store_view b w i = Some j" "Status j = StatusProcessing" for i j
  proof -
    from p [OF that] obtain n k where "marked_job (pcs y n) = Some k" by blast
    then have "pcs y n \<noteq> Gone" by auto
    with at_rest_no_worker [OF a(2)] show ?thesis by blast
  qed
  with p show ?thesis by blast
qed

text \<open>A process over a table with one failed job: it recovers, is stopped, and its only worker ends.\<close>

definition small_config :: Config where
  "small_config = sample_config\<lparr>Queue := (Queue sample_config)\<lparr>Workers := 1\<rparr>\<rparr>"

definition failed_world :: world where
  "failed_world = empty_world\<lparr>table := [sample_row sample_failed]\<rparr>"

lemma failed_world_facts:
  "store_inv b failed_world" "store_view b failed_world i = (if i = ''c'' then Some sample_failed else None)" "healthy failed_world"
proof -
  show "store_inv b failed_world"
    by (simp add: store_inv_def sqlite_inv_def pg_inv_def table_inv_def failed_world_def empty_world_def
      sample_row_def sample_defs sqlite_check_def pg_check_def valid_status_def status_defs decodes_def
      payload_val_def int32_def)
  have "Payload sample_failed = Some []" by (simp add: sample_defs)
  then show "store_view b failed_world i = (if i = ''c'' then Some sample_failed else None)"
    by (auto simp: store_view_def pg_view_def sqlite_view_def view_of_def find_row_def failed_world_def)
      (simp_all add: sample_row_def)
qed (simp add: healthy_def failed_world_def empty_world_def)


lemma small_boot:
  obtains p0 r0 where "boot None (Inr small_config) None failed_world = (Inr (main_store ''postgres'', Start p0, r0), failed_world)"
    "new_pool small_config = Inr p0" "worker_count p0 = 1" "\<not> pool_done p0" "pool_wg p0 = 0" "length (workers p0) = 1"
    "workerDied p0 = []"
proof -
  have c: "LoadConfig None (Inr small_config) = Inr small_config"
    by (simp add: LoadConfig_def small_config_def sample_config_def)
  have o: "open_store small_config None failed_world = (Inr (main_store ''postgres''), failed_world)"
    using failed_world_facts(3)
    by (simp add: open_store_def main_store_def NewPostgresStorage_def pgMigrate_def small_config_def sample_config_def)
  obtain r0 where r: "new_router small_config = Inr r0"
    by (simp add: new_router_def small_config_def sample_config_def Let_def NewMemoryQueue_def NewRateLimitedQueue_def
        startRefill_def go_div_def duration_defs wrap64_def)
  obtain p0 where p: "new_pool small_config = Inr p0" by (simp add: new_pool_def NewPool_def small_config_def sample_config_def)
  then have "worker_count p0 = 1" "\<not> pool_done p0" "pool_wg p0 = 0" "length (workers p0) = 1" "workerDied p0 = []"
    by (auto simp: new_pool_def NewPool_def small_config_def sample_config_def split: if_splits)
  with c o r p show ?thesis by (intro that [of p0 r0]) (simp_all add: boot_def)
qed

lemma failed_orderly:
  assumes "table w = table failed_world" "healthy w" "\<And>n j c. pcs y n \<noteq> Cleanup j c True"
  shows "orderly ''postgres'' (y, T, r, w)"
  using assms cfg.view_table [OF assms(1), of "''postgres''"]
  by (auto simp: orderly_def failed_world_facts(2) store_fits_def next_count_def wrap64_def int32_def)


text \<open>A step over the table with the failed job.\<close>

definition quiet :: "server \<Rightarrow> bool" where
  "quiet s = (case s of (y, T, r, w) \<Rightarrow> table w = table failed_world \<and> healthy w \<and> (\<forall>n j c. pcs y n \<noteq> Cleanup j c True))"

lemma quiet_step: "quiet s \<Longrightarrow> quiet s' \<Longrightarrow> server_step ''postgres'' may s s' \<Longrightarrow> orderly_run ''postgres'' may s s'"
  by (intro r_into_rtranclp) (cases s; cases s'; auto simp: orderly_step_def quiet_def failed_orderly)

lemma quiet_recovery:
  assumes "quiet (y, {#Recover q t#}, r, w)"
  shows "orderly_run ''postgres'' may (y, {#Recover q t#}, r, w) (y, {#Recovering q t []#}, r, w)"
proof -
  have w: "healthy w" "table w = table failed_world" using assms by (simp_all add: quiet_def)
  have v: "store_inv ''postgres'' w" "store_view ''postgres'' w = store_view ''postgres'' failed_world"
    using failed_world_facts(1) cfg.inv_table [OF w(2), of "''postgres''"] cfg.view_table [OF w(2), of "''postgres''"] by simp_all
  from cfg.pending_ok [OF w(1) v(1)] v(2) obtain js where
    js: "ListPendingJobs (main_store ''postgres'') w = ((js, None), w)"
      "set js = {j. (\<exists>i. store_view ''postgres'' failed_world i = Some j) \<and> active j}" by auto
  then have "set js = {}" using sample_active(3) by (auto simp: failed_world_facts(2))
  then have "js = []" by simp
  with server_step.recover_lists [OF js(1), of may y q t "{#}" r] assms show ?thesis
    by (intro quiet_step) (auto simp: quiet_def)
qed

lemma quiet_recovered:
  assumes "quiet (y, {#Recover QFifo t#}, r, w)"
  shows "\<exists>w'. orderly_run ''postgres'' may (y, {#Recover QFifo t#}, r, w) (y, {#}, r, w') \<and> quiet (y, {#}, r, w')"
proof -
  have q: "quiet (y, {#Recover q t#}, r, w)" "quiet (y, {#Recovering q t []#}, r, w)" for q
    using assms by (simp_all add: quiet_def)
  have n: "orderly_run ''postgres'' may (y, {#Recovering q t []#}, r, w) (y, {#Recover q' t#}, r, w)"
    if "next_queue q = Some q'" for q q'
    using server_step.recovers_next [OF that, of "''postgres''" may y t "{#}" r w] q by (intro quiet_step) simp_all
  let ?w = "w\<lparr>metrics := (metrics w)\<lparr>RecoveryDuration := clock w - t\<rparr>\<rparr>"
  have e: "quiet (y, {#}, r, ?w)" using assms by (simp add: quiet_def healthy_def)
  have l: "orderly_run ''postgres'' may (y, {#Recovering QLimited t []#}, r, w) (y, {#}, r, ?w)"
    using server_step.recovered [of QLimited "''postgres''" may y t "{#}" r w] q e by (intro quiet_step) simp_all
  have "orderly_run ''postgres'' may (y, {#Recover QFifo t#}, r, w) (y, {#}, r, ?w)"
    using quiet_recovery [OF q(1)] n [of QFifo] n [of QPriority] l by (meson next_queue.simps rtranclp_trans)
  with e show ?thesis by blast
qed

text \<open>The only worker starts, finds \<open>done\<close> closed and ends.\<close>

lemma quiet_end:
  assumes "NewPool 1 t c = Inr p0" "quiet (started p0, {#}, r, w)"
  shows "\<exists>y. orderly_run ''postgres'' may (started p0, {#}, r, w) (y, {#}, r, w) \<and> Wait_returns (pl y)"
proof -
  define y1 where "y1 = goto 0 Loop ((started p0)\<lparr>pl := (pl (started p0))\<lparr>aliveWorkers := aliveWorkers (pl (started p0)) + 1\<rparr>\<rparr>)"
  define y2 where "y2 = y1\<lparr>pl := (pl y1)\<lparr>pool_done := True\<rparr>\<rparr>"
  define y3 where "y3 = goto 0 Exiting y2"
  define y4 where "y4 = goto 0 Gone ((death_signal 0 y3)\<lparr>before_wg := Suc (before_wg y3)\<rparr>)"
  define y5 where "y5 = y4\<lparr>before_wg := 0, before_alive := Suc (before_alive y4), pl := (pl y4)\<lparr>pool_wg := pool_wg (pl y4) - 1\<rparr>\<rparr>"
  have p0: "worker_count p0 = 1" "\<not> pool_done p0" "pool_wg p0 = 0" using assms(1) by (auto simp: NewPool_def split: if_splits)
  have s: "pcs (started p0) 0 = Starting" "\<not> pool_done (pl (started p0))" "pool_wg (pl (started p0)) = 1"
    "before_wg (started p0) = 0" "sup (started p0) = SupWait" "accepted (started p0) = []"
    using p0 by (simp_all add: started_def Start_def)
  note ys = y1_def y2_def y3_def y4_def y5_def
  have q: "quiet (y, {#}, r, w)" if "\<And>n. n \<noteq> 0 \<Longrightarrow> pcs y n = pcs (started p0) n" "\<And>j c. pcs y 0 \<noteq> Cleanup j c True" for y
  proof -
    have "pcs y n \<noteq> Cleanup j c True" for n j c
      using that(1) [of n] that(2) [of j c] assms(2) by (cases "n = 0") (simp_all add: quiet_def)
    with assms(2) show ?thesis by (simp add: quiet_def)
  qed
  have "pool_step (started p0) y1" unfolding y1_def by (rule pool_step.start [OF s(1)])
  then have 1: "orderly_run ''postgres'' may (started p0, {#}, r, w) (y1, {#}, r, w)"
    by (intro quiet_step assms(2) q server_step.own) (auto simp: local_step_def y1_def s(1))
  have 2: "orderly_run ''postgres'' may (y1, {#}, r, w) (y2, {#}, r, w)"
    unfolding y2_def by (intro quiet_step q server_step.stops) (auto simp: y1_def Stop_def s(2))
  have "pool_step y2 y3" unfolding y3_def by (rule pool_step.loop_done) (simp_all add: y2_def y1_def)
  then have 3: "orderly_run ''postgres'' may (y2, {#}, r, w) (y3, {#}, r, w)"
    by (intro quiet_step q server_step.own) (auto simp: local_step_def y3_def y2_def y1_def)
  have "pool_step y3 y4" unfolding y4_def by (rule pool_step.die) (simp add: y3_def)
  then have 4: "orderly_run ''postgres'' may (y3, {#}, r, w) (y4, {#}, r, w)"
    by (intro quiet_step q server_step.own) (auto simp: local_step_def y4_def y3_def y2_def y1_def)
  have "pool_step y4 y5" unfolding y5_def by (rule pool_step.wg_done) (simp add: y4_def y3_def y2_def y1_def s(4))
  then have 5: "orderly_run ''postgres'' may (y4, {#}, r, w) (y5, {#}, r, w)"
    by (intro quiet_step q server_step.own) (auto simp: local_step_def ys)
  have "Wait_returns (pl y5)" using s(3) by (simp add: Wait_returns_def ys)
  with 1 2 3 4 5 show ?thesis by (meson rtranclp_trans)
qed

theorem clean_shutdown_witness:
  "\<exists>p0 r0 y w. orderly_run ''postgres'' (\<lambda>i. True) (started p0, {#Recover QFifo (clock failed_world)#}, r0, failed_world) (y, {#}, r0, w) \<and>
     Wait_returns (pl y) \<and> (\<forall>i j. store_view ''postgres'' w i = Some j \<longrightarrow> Status j \<noteq> StatusProcessing)"
proof -
  obtain p0 r0 where b: "boot None (Inr small_config) None failed_world = (Inr (main_store ''postgres'', Start p0, r0), failed_world)"
    "new_pool small_config = Inr p0" by (rule small_boot)
  have "quiet (started p0, {#Recover QFifo (clock failed_world)#}, r0, failed_world)"
    using failed_world_facts(3) by (simp add: quiet_def started_def)
  from quiet_recovered [OF this, of "\<lambda>i. True"] obtain w where
    w: "orderly_run ''postgres'' (\<lambda>i. True) (started p0, {#Recover QFifo (clock failed_world)#}, r0, failed_world) (started p0, {#}, r0, w)"
      "quiet (started p0, {#}, r0, w)" by blast
  have "\<exists>t c. NewPool 1 t c = Inr p0" using b(2) by (auto simp: new_pool_def small_config_def sample_config_def)
  with quiet_end w(2) obtain y where
    y: "orderly_run ''postgres'' (\<lambda>i. True) (started p0, {#}, r0, w) (y, {#}, r0, w)" "Wait_returns (pl y)" by blast
  from w(1) y(1) have r: "orderly_run ''postgres'' (\<lambda>i. True)
      (started p0, {#Recover QFifo (clock failed_world)#}, r0, failed_world) (y, {#}, r0, w)" by (rule rtranclp_trans)
  have "Backend (DatabaseCfg small_config) = ''postgres''" by (simp add: small_config_def sample_config_def)
  from clean_shutdown [OF b this failed_world_facts(1) _ r] r y(2) show ?thesis by (auto simp: serving_def)
qed

end
