(* ===== verification/Server_Gauge.thy ===== *)
theory Server_Gauge
  imports Server_Shutdown
begin




















end
