(* ===== verification/Email_Headers.thy ===== *)
theory Email_Headers
  imports Email_Processor
begin

text \<open>
  What the recipient of a mail reads: a reader for messages as \<open>buildMessage\<close> writes them (lines ended
  by CR LF, header fields up to an empty line, then the body), and the round trip from a job through
  \<open>Process\<close> to the reader, with what becomes of a subject that has line breaks.
\<close>

section \<open>A reader\<close>

fun split_line :: "string \<Rightarrow> (string \<times> string) option" where
  "split_line [] = None"
| "split_line (c # s) =
     (if take 2 (c # s) = crlf then Some ([], drop 2 (c # s)) else map_option (apfst (Cons c)) (split_line s))"

lemma split_line_shorter: "split_line s = Some (l, rest) \<Longrightarrow> length rest < length s"
  by (induction s arbitrary: l) (force split: if_splits)+

text \<open>A header line: the name, a colon, a space, the value.\<close>

definition header_field :: "string \<Rightarrow> (string \<times> string) option" where
  "header_field l =
     (let n = takeWhile (\<lambda>c. c \<noteq> CHR 0x3A) l; v = dropWhile (\<lambda>c. c \<noteq> CHR 0x3A) l in
      if take 2 v = '': '' then Some (n, drop 2 v) else None)"

function read_message :: "string \<Rightarrow> ((string \<times> string) list \<times> string) option" where
  "read_message s =
     (case split_line s of
        None \<Rightarrow> None
      | Some (l, rest) \<Rightarrow>
          if l = [] then Some ([], rest)
          else
            (case (header_field l, read_message rest) of
               (Some f, Some (fs, body)) \<Rightarrow> Some (f # fs, body)
             | _ \<Rightarrow> None))"
  by pat_completeness auto
termination by (relation "measure length") (auto dest: split_line_shorter)

declare read_message.simps [simp del]

lemma split_line_crlf: "\<not> has_crlf l \<Longrightarrow> split_line (l @ crlf @ s) = Some (l, s)"
proof (induction l)
  case Nil
  show ?case by (simp add: crlf_def)
next
  case (Cons c l)
  then have "c \<noteq> CHR 0x0D" "split_line (l @ crlf @ s) = Some (l, s)" by (auto simp: has_crlf_def)
  then show ?case by (cases "l @ crlf @ s") (simp_all add: crlf_def)
qed

lemma header_field_of: "CHR 0x3A \<notin> set n \<Longrightarrow> header_field (n @ '': '' @ v) = Some (n, v)"
proof -
  assume n: "CHR 0x3A \<notin> set n"
  then have "\<forall>c \<in> set n. c \<noteq> CHR 0x3A" by blast
  then have "takeWhile (\<lambda>c. c \<noteq> CHR 0x3A) (n @ '': '' @ v) = n"
    "dropWhile (\<lambda>c. c \<noteq> CHR 0x3A) (n @ '': '' @ v) = '': '' @ v"
    by (simp_all add: takeWhile_append dropWhile_append)
  then show ?thesis unfolding header_field_def Let_def by simp
qed

text \<open>One line is read: a header field, or the end of the header.\<close>

lemma read_field:
  assumes "\<not> has_crlf n" "CHR 0x3A \<notin> set n" "\<not> has_crlf v"
  shows "read_message (n @ '': '' @ v @ crlf @ s) = map_option (apfst (Cons (n, v))) (read_message s)"
proof -
  have "split_line ((n @ '': '' @ v) @ crlf @ s) = Some (n @ '': '' @ v, s)"
    using assms by (intro split_line_crlf) (simp add: has_crlf_def)
  with header_field_of [OF assms(2), of v] show ?thesis
    by (subst read_message.simps) (auto split: option.splits)
qed

lemma read_end: "read_message (crlf @ s) = Some ([], s)"
  using split_line_crlf [of "[]" s] by (subst read_message.simps) (simp add: has_crlf_def)

section \<open>From the job to the reader\<close>

lemma converse_accepts:
  "converse host server sent cs = (None, tr) \<Longrightarrow> c \<in> set (map fst cs) \<Longrightarrow> \<exists>pre. client_refuses host pre c = None"
proof (induction host server sent cs rule: converse.induct)
  case (2 host server sent c' what cs)
  then show ?case by (auto split: option.splits)
qed simp

text \<open>The header up to the value of the subject.\<close>

lemma read_buildMessage:
  assumes "\<not> has_crlf from" "\<not> has_crlf to"
  shows "read_message (buildMessage from to subject body) =
    map_option (apfst (append [(''From'', from), (''To'', to)])) (read_message (''Subject: '' @ subject @ crlf @ crlf @ body))"
proof -
  have "buildMessage from to subject body =
      ''From'' @ '': '' @ from @ crlf @ ''To'' @ '': '' @ to @ crlf @ ''Subject: '' @ subject @ crlf @ crlf @ body"
    by (simp add: buildMessage_def)
  with read_field [of "''From''" "from"] read_field [of "''To''" "to"] assms show ?thesis
    by (simp add: has_crlf_def option.map_comp comp_def apfst_def map_prod_def case_prod_unfold)
qed

lemma Process_sent:
  assumes "Process e starttls server ctxFirst ctxDelay job = (None, sent)"
  defines "m \<equiv> buildMessage (smtpUser e) (payload_string job ''to'') (payload_string job ''subject'') (payload_string job ''body'')"
  shows "WriteData m' \<in> set sent \<longleftrightarrow> m' = m" "\<not> has_crlf (smtpUser e)" "\<not> has_crlf (payload_string job ''to'')"
proof -
  let ?cs = "conversation starttls (email_auth e) (smtpUser e) (payload_string job ''to'') m"
  have c: "converse (smtpHost e) server [] ?cs = (None, sent)"
    using assms(1) by (auto simp: Process_def Let_def sendWithTimeout_def m_def split: prod.splits option.splits if_splits)
  from converse_ok [OF c] show "WriteData m' \<in> set sent \<longleftrightarrow> m' = m"
    by (auto simp: conversation_def split: option.splits)
  have "Mail (if smtpUser e = '''' then ''rjq@localhost'' else smtpUser e) \<in> set (map fst ?cs)"
    "Rcpt (payload_string job ''to'') \<in> set (map fst ?cs)" by (simp_all add: conversation_def)
  from this [THEN converse_accepts [OF c]] show "\<not> has_crlf (smtpUser e)" "\<not> has_crlf (payload_string job ''to'')"
    by (auto simp: has_crlf_def split: if_splits)
qed

text \<open>
  C37. The mail that goes out is the mail the job asks for, if its subject is one line. When the processor
  reports success it has written one message. The recipient reads from it the configured sender, the
  address, the subject and the body of the job, and no other header field; the addresses cannot disturb
  the header, since the client library refuses line breaks in them. Nothing refuses them in the subject: a
  subject that goes on with a line break and \<open>name: value\<close> adds this field to the header of the mail.
\<close>

theorem mail_as_asked:
  assumes "Process e starttls server ctxFirst ctxDelay job = (None, sent)"
  shows "\<exists>m. (\<forall>m'. WriteData m' \<in> set sent \<longleftrightarrow> m' = m) \<and>
    (\<not> has_crlf (payload_string job ''subject'') \<longrightarrow>
      read_message m = Some ([(''From'', smtpUser e), (''To'', payload_string job ''to''),
        (''Subject'', payload_string job ''subject'')], payload_string job ''body'')) \<and>
    (\<forall>s n v. payload_string job ''subject'' = s @ crlf @ n @ '': '' @ v \<and> \<not> has_crlf (s @ n @ v) \<and> CHR 0x3A \<notin> set n \<longrightarrow>
      read_message m = Some ([(''From'', smtpUser e), (''To'', payload_string job ''to''),
        (''Subject'', s), (n, v)], payload_string job ''body''))"
proof -
  let ?m = "buildMessage (smtpUser e) (payload_string job ''to'') (payload_string job ''subject'') (payload_string job ''body'')"
  note sent = Process_sent [OF assms]
  have subject: "read_message (''Subject: '' @ v @ crlf @ s) = map_option (apfst (Cons (''Subject'', v))) (read_message s)"
    if "\<not> has_crlf v" for v s
    using read_field [of "''Subject''" v s] that by (simp add: has_crlf_def)
  have field: "read_message (n @ '': '' @ v @ crlf @ crlf @ s) = Some ([(n, v)], s)"
    if "\<not> has_crlf (s' @ n @ v)" "CHR 0x3A \<notin> set n" for s' n v s
    using read_field [of n v "crlf @ s"] that by (simp add: has_crlf_def read_end)
  have "read_message ?m = Some ([(''From'', smtpUser e), (''To'', payload_string job ''to''),
      (''Subject'', payload_string job ''subject'')], payload_string job ''body'')"
    if "\<not> has_crlf (payload_string job ''subject'')"
    unfolding read_buildMessage [OF sent(2,3)] subject [OF that] read_end by simp
  moreover have "read_message ?m = Some ([(''From'', smtpUser e), (''To'', payload_string job ''to''),
      (''Subject'', s), (n, v)], payload_string job ''body'')"
    if "payload_string job ''subject'' = s @ crlf @ n @ '': '' @ v" "\<not> has_crlf (s @ n @ v)" "CHR 0x3A \<notin> set n" for s n v
  proof -
    from that(2) have s: "\<not> has_crlf s" by (simp add: has_crlf_def)
    show ?thesis
      unfolding read_buildMessage [OF sent(2,3)] that(1) append_assoc subject [OF s] field [OF that(2,3)] by simp
  qed
  ultimately show ?thesis by (intro exI [of _ ?m]) (simp add: sent(1))
qed

text \<open>A subject that adds a blind copy.\<close>

definition bcc_job :: job where
  "bcc_job = \<lparr>ID = ''a'', JobType = ''email'', Payload = Some [(''to'', GStr ''u@x''),
       (''subject'', GStr (''hello'' @ crlf @ ''Bcc: v@x'')), (''body'', GStr ''b'')],
     QueueType = QueueTypeFIFO, Priority = PriorityNormal, Status = StatusPending, RetryCount = 0, MaxRetries = 3,
     CreatedAt = 0, UpdatedAt = 0, ProcessedAt = None, ErrorMessage = []\<rparr>"

definition test_sender :: EmailProcessor where
  "test_sender = NewEmailProcessor ''h'' 25 ''rjq@x'' [] 0 0 False"

theorem mail_as_asked_witness:
  "\<exists>sent m. Process test_sender False (\<lambda>sent c. None) None None bcc_job = (None, sent) \<and> WriteData m \<in> set sent \<and>
    read_message m = Some ([(''From'', ''rjq@x''), (''To'', ''u@x''), (''Subject'', ''hello''), (''Bcc'', ''v@x'')], ''b'')"
proof -
  have f: "payload_string bcc_job ''to'' = ''u@x''" "payload_string bcc_job ''subject'' = ''hello'' @ crlf @ ''Bcc'' @ '': '' @ ''v@x''"
    "payload_string bcc_job ''body'' = ''b''" by (simp_all add: bcc_job_def payload_string_def)
  have u: "smtpUser test_sender = ''rjq@x''" "email_auth test_sender = None"
    by (simp_all add: test_sender_def NewEmailProcessor_def email_auth_def)
  have "\<exists>sent. Process test_sender False (\<lambda>sent c. None) None None bcc_job = (None, sent)"
    by (simp add: Process_def f u sendWithTimeout_def conversation_def has_crlf_def Let_def)
  then obtain sent where P: "Process test_sender False (\<lambda>sent c. None) None None bcc_job = (None, sent)" by blast
  have s: "\<not> has_crlf (''hello'' @ ''Bcc'' @ ''v@x'')" "CHR 0x3A \<notin> set ''Bcc''" by (simp_all add: has_crlf_def)
  from mail_as_asked [OF P] obtain m where m: "WriteData m \<in> set sent"
    "\<And>s n v. payload_string bcc_job ''subject'' = s @ crlf @ n @ '': '' @ v \<and> \<not> has_crlf (s @ n @ v) \<and> CHR 0x3A \<notin> set n \<longrightarrow>
      read_message m = Some ([(''From'', smtpUser test_sender), (''To'', payload_string bcc_job ''to''),
        (''Subject'', s), (n, v)], payload_string bcc_job ''body'')" by blast
  from m(2) [of "''hello''" "''Bcc''" "''v@x''"] s f(2) have
    "read_message m = Some ([(''From'', ''rjq@x''), (''To'', ''u@x''), (''Subject'', ''hello''), (''Bcc'', ''v@x'')], ''b'')"
    unfolding f(1,3) u(1) by blast
  with P m(1) show ?thesis by blast
qed

end
