(* ===== verification/Spec2Isabelle.thy ===== *)
theory Spec2Isabelle
  imports Storage_Properties Queue_Properties Router_Properties Pool_Properties
    Queue_Close_Protocol Queue_Signal_Protocol Queue_Token_Protocol Queue_Contract Api_Reads Job_Lifecycle
    Worker_Rounds Server_Gauge Email_Headers
begin

text \<open>
  RJQ, a job queue server in Go: a verification library.

  \<^bold>\<open>The program.\<close> Clients submit jobs over HTTP (\<open>internal/api\<close>). A job is stored as a row of the table
  \<open>jobs\<close> (\<open>internal/storage\<close>, SQLite or PostgreSQL), then handed to one of three queues in memory
  (\<open>internal/queue\<close>: a FIFO channel, a slice sorted by priority, a channel behind a token bucket) by
  a router. A pool of worker goroutines (\<open>internal/worker\<close>) polls the router, marks the job, runs a
  processor on it (\<open>internal/jobs/email\<close>) and acknowledges it, counts a failed attempt, or puts it back
  when a super-urgent job preempted it. At the start, and periodically, the queues are refilled from
  the table. \<open>cmd/server/main.go\<close> reads the configuration (\<open>internal/config\<close>) and wires the parts;
  \<open>internal/metrics\<close> counts.

  \<^bold>\<open>The theories.\<close>
  \<^item> \<open>RJQ_Prelude\<close>: errors as values (\<open>error\<close>, with panics as a constructor), 64-bit and 32-bit bounds,
    durations, generic lemmas.
  \<^item> \<open>Models\<close> (\<open>pkg/models/job.go\<close>): constants, the record \<open>job\<close>, payloads and their JSON text.
    \<open>Metrics\<close> (\<open>internal/metrics/metrics.go\<close>): one field per series.
  \<^item> \<open>Database\<close>: the world the storage works on (the table, a clock, the metrics, and the answers the
    driver will give), and the SQL statements the code uses: insert, update, select, grouping.
  \<^item> \<open>Storage_Interface\<close> (\<open>storage/interface.go\<close>): the method table \<open>storage\<close>, the parts both backends
    share, the abstract specification (a map from IDs to jobs), and the contract as locales
    (\<open>row_scanner\<close>, \<open>job_store\<close>, \<open>storage_reads\<close>, \<open>storage_contract\<close>; \<open>storage_preorder\<close> for what the operations
    do not take away while they write admitted statuses only, with two sublocales of the contract: \<open>kept\<close>, that
    jobs stay, and \<open>calm\<close>, that no job becomes one in processing).
  \<^item> \<open>Storage_SQLite\<close> (\<open>storage/sqlite.go\<close>), \<open>Storage_Postgres\<close> (\<open>storage/postgres.go\<close>): every method of
    the two backends, each shown to satisfy the contract. \<open>Storage_Select\<close>: the choice \<open>main\<close> makes;
    the contract for whichever backend is chosen (\<open>cfg\<close>), on which everything below rests.
    \<open>Storage_Listings\<close>: what the reading methods list (the locale \<open>storage_listings\<close>). \<open>Storage_Metrics\<close>: what
    the methods do to the metrics.
  \<^item> \<open>Queue_Interface\<close> (\<open>queue/interface.go\<close> and the methods the queues have in common): \<open>Nack\<close>, \<open>Requeue\<close>,
    \<open>Retry\<close>, \<open>Recover\<close> and \<open>sweep\<close> over an arbitrary \<open>Enqueue\<close>; the locales \<open>job_queue\<close> (what an enqueue
    promises), \<open>stored_queue\<close> (a queue over a storage that keeps the contract) and \<open>enqueue_invariant\<close> (what
    every method keeps of a queue if \<open>Enqueue\<close> keeps it; \<open>selected_invariant\<close> for the jobs a queue selects),
    with the lemmas proved once. \<open>Queue_Frames\<close>: what every method keeps of the store (\<open>queue_preorder\<close>), and
    that it leaves alone the jobs it does not deal with.
  \<^item> \<open>Queue_Memory\<close> (\<open>memory_queue.go\<close>), \<open>Queue_Sorted\<close> (\<open>sorted_que.go\<close>), \<open>Queue_RateLimited\<close>
    (\<open>rate_limited.go\<close>), \<open>Queue_Router\<close> (\<open>router.go\<close>): the queues, with interpretations of the locales.
  \<^item> \<open>Queue_Contract\<close> (\<open>queue/interface.go\<close>): the interface as a method table, its promises as the locale
    \<open>queue_contract\<close>, interpreted for the three queues and the router.
  \<^item> \<open>Queue_Close_Protocol\<close>, \<open>Queue_Signal_Protocol\<close>, \<open>Queue_Token_Protocol\<close>: the concurrent calls of
    \<open>Enqueue\<close>, \<open>Dequeue\<close> and \<open>Close\<close> of the memory queue, of the sorted queue and of the rate-limited queue (with
    its refill goroutine) as step relations.
  \<^item> \<open>Worker_Pool\<close> (\<open>worker/pool.go\<close>): the methods of the pool and one round of a worker, run alone.
    \<open>Worker_Protocol\<close>: workers, supervisor, \<open>Preempt\<close> and \<open>Stop\<close> interleaved, with the invariants.
    \<open>Worker_Shutdown\<close>: how many steps the workers have left once the pool is stopped.
  \<^item> \<open>Api\<close> (\<open>api/handlers.go\<close>), \<open>Api_Routes\<close> (its routing table and the path of a request),
    \<open>Config\<close> (\<open>config/config.go\<close>), \<open>Email_Processor\<close> (\<open>email_worker.go\<close>), \<open>Queue_Depth\<close>
    (\<open>metrics/queue_depth.go\<close>), \<open>Server\<close> (\<open>cmd/server/main.go\<close> and the constructors of the storage packages).
    \<open>Email_Headers\<close>: a reader for the messages of \<open>buildMessage\<close>.
  \<^item> \<open>Server_Frames\<close> (the locale \<open>server_preorder\<close>: what an operation of the storage keeps, every operation of the
    server keeps; interpreted for \<open>kept\<close> and \<open>calm\<close> over the chosen backend, and for the gauge of the busy workers), \<open>Router_Invariant\<close>: what each
    operation of the server keeps. \<open>Server_Tasks\<close>: sweep, recovery and submission in pieces. \<open>Server_Run\<close>: the
    server as a whole, a step relation in which the goroutines of \<open>Worker_Protocol\<close> work on the queues and the
    database beside requests, sweeps, the recovery, the refill, shutdown, crashes and restarts.
    \<open>Server_Invariants\<close>, \<open>Server_Shutdown\<close>, \<open>Server_Gauge\<close>: what holds in its runs, and in those in which nothing
    fails.
    \<open>Worker_Rounds\<close>: a round of a worker, a sweep and the startup, each as one function, are runs of it.
  \<^item> \<open>Samples\<close>: concrete jobs and tables. \<open>Storage_Properties\<close>, \<open>Queue_Properties\<close>, \<open>Router_Properties\<close>,
    \<open>Pool_Properties\<close>, \<open>Api_Properties\<close>, \<open>Api_Reads\<close>, \<open>Server_Properties\<close>, \<open>Job_Lifecycle\<close>: numbered properties,
    as in the protocol theories, \<open>Queue_Contract\<close>, \<open>Worker_Shutdown\<close>, \<open>Email_Headers\<close>, \<open>Server_Run\<close> and the
    theories that build on it; each is followed by its use on a concrete input.

  \<^bold>\<open>What is shown.\<close>
  \<^item> Storage: any sequence of writes refines the abstract map, whatever the driver answers; a failed
    statement has no effect; listings and counts are exact; what is saved reads back.
  \<^item> Queues: how many attempts a job has; that a failed, preempted, recovered or refused job stays in
    the table; order of delivery; the in-place insertion equals the reference insertion; recovery
    takes every active job, and loses none if it is cut short; every implementation of the interface
    keeps its books: no accepted job is lost, none delivered that was not put in, none taken after \<open>Close\<close>.
  \<^item> Router: where a job goes, in which order queues are asked, that the wait of a worker returns.
  \<^item> Concurrency: closing a busy channel does not panic and ends; the rate limit holds under any
    interleaving, and the wait for a token ends while the refill runs; preemption is sound; no worker and no
    urgent job is lost; the counters of the pool agree with the goroutines; a stopped pool comes to rest.
  \<^item> HTTP: GET requests change nothing; what listings and statistics show, and what they show when the
    database fails; what each answer to a submission or a retry says of the table and the queues.
  \<^item> Composition: in every run of the server (\<open>server_run\<close>), errors, crashes and restarts included, no
    stored job is lost, a finished job stays finished until a client asks for its retry, and queues,
    slots, bucket, pool and the gauge of busy workers stay well formed; seen from the pool a run is one of \<open>Worker_Protocol\<close>. With a
    working database and no panic, a shutdown leaves no job half done. A submitted job is run by the next
    free worker; what one processed job leaves in the table; the server comes up with every active job queued.
  \<^item> Mail: the conversation with the server, when credentials are sent, and what the recipient reads.
  \<^item> Where the code does not do what a comment, a document or a sibling says, the property states what
    it does: duplicates after recovery and sweep, a sweep that undoes a completion, retries that leave
    their queue, waits that do not return after \<open>Close\<close>, a lost wake-up, a zero rate, the retry counter of
    PostgreSQL, header fields added by a subject.

  \<^bold>\<open>Choices.\<close>
  \<^item> Time is the field \<open>clock\<close>, in nanoseconds, moved by sleeps and timeouts; wait times are computed from
    it. Statements take no time.
  \<^item> A \<open>select\<close> with a timer: which arm wins a race is an argument (\<open>arms\<close>), and properties hold for every
    value. The waits for a token take a schedule of refill events; a schedule that ends without a token
    is the value \<open>None\<close>, and \<open>token_wait_ends\<close> shows that one event is enough. \<open>Dequeue\<close> of the
    router, which may poll for ever, is a partial function with \<open>None\<close> for not returning.
  \<^item> The driver is a list of answers (success, failure, a result that breaks off after some rows); an
    empty list means success. \<open>healthy\<close> says that no failure is to come.
  \<^item> The grain of \<open>server_run\<close>: a critical section of the pool, a poll of the queues, a call of the queue by a
    worker, the handler of a request, a listing, and one job of a listing in a sweep or in the recovery are
    one step each; within such a step no other one runs. A submission is one step, or two with anything in
    between. A sweep and a recovery therefore work on listings that may be out of date.
  \<^item> \<open>startup\<close> is the start with workers that have not yet taken a job when the recovery ends; \<open>boot\<close> is its
    part before the recovery, after which \<open>server_run\<close> lets the workers run.
  \<^item> The chi router is an argument, of which \<open>chi_ok\<close> states what is used: it picks an entry of the table
    with the method of the request.
  \<^item> The processor of the pool is an arbitrary function of the shared state, so that it includes what
    other goroutines do meanwhile. The SMTP server is an arbitrary function, and so is what viper reads.
  \<^item> Fields of type \<open>int\<close> are HOL integers; where a bound matters (columns of PostgreSQL, sizes and
    durations computed from the configuration) the wrap-around or the overflow error is written out.
  \<^item> Rows that agree in every key of an \<open>ORDER BY\<close> come in table order, which SQL leaves open; no property
    depends on it. Strings are lists of bytes.

  \<^bold>\<open>Not modelled.\<close> Header fields and JSON text of HTTP answers, the matching of paths in chi, the HTTP
  server and its middleware beyond \<open>Recoverer\<close>, signal delivery, logging; registration and exposition of the
  metrics; reading of the configuration file; the SQL drivers and the network beneath the parameters
  above; the memory model of Go below critical sections; the dashboard page, experiments, containers and
  monitoring files.
\<close>

end
